(* ===== verification/Hako_Prelude.thy ===== *)
theory Hako_Prelude
  imports Main "HOL-Library.Word"
begin

text \<open>
  The shared part of the library: the results of Go code that can panic, the Go
  operations on slices that the components use (indexing, slicing, \<open>copy\<close>), the
  power-of-two masks of the ring buffers, and the generic lemmas on lists that the
  component proofs rest on.

  A Go function that can panic is a function into \<open>go_panic + 'a\<close>: \<open>Inl\<close> is the panic
  (a failed bounds check of the runtime or an explicit \<open>panic\<close> of the source), \<open>Inr\<close> the
  value. A loop that may not end has a result of type \<open>option\<close>, where \<open>None\<close> means that
  it does not return.
\<close>

unbundle bit_operations_syntax

named_theorems go_simps \<open>evaluation of the Go primitives on slices and results\<close>

section \<open>Results\<close>

datatype go_panic = IndexOutOfRange | SliceOutOfRange | NilDereference | Panic string

type_synonym 'a res = "go_panic + 'a"

definition rbind :: "'e + 'a \<Rightarrow> ('a \<Rightarrow> 'e + 'b) \<Rightarrow> 'e + 'b" where
  "rbind m f = (case m of Inl e \<Rightarrow> Inl e | Inr x \<Rightarrow> f x)"

lemma rbind_simps [simp]:
  "rbind (Inl e) f = Inl e"
  "rbind (Inr x) f = f x"
  by (simp_all add: rbind_def)

lemma rbind_eq_Inr_iff: "rbind m f = Inr y \<longleftrightarrow> (\<exists>x. m = Inr x \<and> f x = Inr y)"
  by (cases m) simp_all

lemma rbind_eq_Inl_iff: "rbind m f = Inl e \<longleftrightarrow> m = Inl e \<or> (\<exists>x. m = Inr x \<and> f x = Inl e)"
  by (cases m) auto

lemma rbind_cong [fundef_cong]:
  "m = m' \<Longrightarrow> (\<And>x. m' = Inr x \<Longrightarrow> f x = f' x) \<Longrightarrow> rbind m f = rbind m' f'"
  by (cases m') simp_all

section \<open>Slices\<close>

text \<open>\<open>xs[i]\<close>, \<open>xs[i] = v\<close>, \<open>xs[a:b]\<close> and \<open>copy(dst, src)\<close> (the new \<open>dst\<close>).\<close>

definition go_nth :: "'a list \<Rightarrow> nat \<Rightarrow> 'a res" where
  "go_nth xs i = (if i < length xs then Inr (xs ! i) else Inl IndexOutOfRange)"

definition go_set :: "'a list \<Rightarrow> nat \<Rightarrow> 'a \<Rightarrow> 'a list res" where
  "go_set xs i v = (if i < length xs then Inr (xs[i := v]) else Inl IndexOutOfRange)"

definition go_slice :: "'a list \<Rightarrow> nat \<Rightarrow> nat \<Rightarrow> 'a list res" where
  "go_slice xs a b =
     (if a \<le> b \<and> b \<le> length xs then Inr (take (b - a) (drop a xs)) else Inl SliceOutOfRange)"

definition go_copy :: "'a list \<Rightarrow> 'a list \<Rightarrow> 'a list" where
  "go_copy dst src = take (length dst) src @ drop (length src) dst"

definition go_copy_count :: "'a list \<Rightarrow> 'a list \<Rightarrow> nat" where
  "go_copy_count dst src = min (length dst) (length src)"

lemma go_nth_ok [simp, go_simps]: "i < length xs \<Longrightarrow> go_nth xs i = Inr (xs ! i)"
  by (simp add: go_nth_def)

lemma go_nth_bad [simp, go_simps]: "length xs \<le> i \<Longrightarrow> go_nth xs i = Inl IndexOutOfRange"
  by (simp add: go_nth_def)

lemma go_set_ok [simp, go_simps]: "i < length xs \<Longrightarrow> go_set xs i v = Inr (xs[i := v])"
  by (simp add: go_set_def)

lemma go_set_bad [simp, go_simps]: "length xs \<le> i \<Longrightarrow> go_set xs i v = Inl IndexOutOfRange"
  by (simp add: go_set_def)

lemma go_slice_ok [simp, go_simps]:
  "a \<le> b \<Longrightarrow> b \<le> length xs \<Longrightarrow> go_slice xs a b = Inr (take (b - a) (drop a xs))"
  by (simp add: go_slice_def)

lemma length_go_copy [simp]: "length (go_copy dst src) = length dst"
  by (simp add: go_copy_def)

lemma go_copy_fits [simp]: "length src \<le> length dst \<Longrightarrow> go_copy dst src = src @ drop (length src) dst"
  by (simp add: go_copy_def)

lemma go_copy_truncates: "length dst \<le> length src \<Longrightarrow> go_copy dst src = take (length dst) src"
  by (simp add: go_copy_def)

lemma take_go_copy:
  "take (go_copy_count dst src) (go_copy dst src) = take (go_copy_count dst src) src"
  by (auto simp: go_copy_def go_copy_count_def min_def)

text \<open>Copying two slices one after the other is copying their concatenation.\<close>

lemma go_copy_append:
  "take (go_copy_count dst s1) (go_copy dst s1) @ go_copy (drop (go_copy_count dst s1) (go_copy dst s1)) s2
     = go_copy dst (s1 @ s2)"
  by (auto simp: go_copy_def go_copy_count_def min_def add.commute)

lemma go_copy_count_append:
  "go_copy_count dst s1 + go_copy_count (drop (go_copy_count dst s1) (go_copy dst s1)) s2
     = go_copy_count dst (s1 @ s2)"
  by (auto simp: go_copy_count_def min_def)

text \<open>Go's remainder truncates towards zero: the sign of \<open>a % b\<close> is the sign of \<open>a\<close>.\<close>

definition go_rem :: "int \<Rightarrow> int \<Rightarrow> int" where
  "go_rem a b = sgn a * (\<bar>a\<bar> mod \<bar>b\<bar>)"

text \<open>
  The doubling loop \<open>for c < n { c <<= 1 }\<close>: \<open>None\<close> when it never ends, which is the case
  exactly for \<open>c = 0 < n\<close> (lemmas \<open>shl_until_pos\<close> and \<open>shl_until_zero\<close>).
\<close>

partial_function (option) shl_until :: "nat \<Rightarrow> nat \<Rightarrow> nat option" where
  "shl_until c n = (if c < n then shl_until (2 * c) n else Some c)"

lemma shl_until_done [simp]: "n \<le> c \<Longrightarrow> shl_until c n = Some c"
  by (simp add: shl_until.simps)

lemma shl_until_zero: "0 < n \<Longrightarrow> shl_until 0 n = None"
proof (rule ccontr)
  assume n: "0 < n" and "shl_until 0 n \<noteq> None"
  then obtain r where r: "shl_until 0 n = Some r" by auto
  have "0 = (0::nat) \<longrightarrow> n = 0"
  proof (rule shl_until.raw_induct [where P = "\<lambda>c n r. c = 0 \<longrightarrow> n = 0", OF _ r])
    fix f :: "nat \<Rightarrow> nat \<Rightarrow> nat option" and c n r
    assume IH: "\<And>c n r. f c n = Some r \<Longrightarrow> c = 0 \<longrightarrow> n = 0"
      and "(if c < n then f (2 * c) n else Some c) = Some r"
    then show "c = 0 \<longrightarrow> n = 0" by (cases "c < n") (auto dest: IH)
  qed
  with n show False by simp
qed

section \<open>Powers of two and ring indices\<close>

definition is_pow2 :: "nat \<Rightarrow> bool" where
  "is_pow2 n \<longleftrightarrow> (\<exists>k<n. n = 2 ^ k)"

lemma is_pow2_iff: "is_pow2 n \<longleftrightarrow> (\<exists>k. n = 2 ^ k)"
  by (auto simp: is_pow2_def less_exp)

lemma is_pow2_power [simp, intro]: "is_pow2 (2 ^ k)"
  by (auto simp: is_pow2_iff)

lemma is_pow2_pos: "is_pow2 n \<Longrightarrow> 0 < n"
  by (auto simp: is_pow2_iff)

lemma is_pow2_double: "is_pow2 n \<Longrightarrow> is_pow2 (2 * n)"
  unfolding is_pow2_iff by (metis power_Suc)

lemma is_pow2_half: "is_pow2 (2 * n) \<Longrightarrow> is_pow2 n"
  unfolding is_pow2_iff
proof -
  assume "\<exists>k. 2 * n = 2 ^ k"
  then obtain k where k: "2 * n = 2 ^ k" by blast
  then have "k \<noteq> 0" by (intro notI) simp
  then obtain j where "k = Suc j" by (cases k) auto
  with k show "\<exists>k. n = 2 ^ k" by auto
qed

lemma shl_until_pos:
  "0 < c \<Longrightarrow> \<exists>k. shl_until c n = Some (c * 2 ^ k) \<and> n \<le> c * 2 ^ k
     \<and> (k = 0 \<or> c * 2 ^ (k - 1) < n)"
proof (induction "n - c" arbitrary: c rule: less_induct)
  case less
  show ?case
  proof (cases "c < n")
    case False
    then show ?thesis by (intro exI [of _ 0]) simp
  next
    case True
    with less.prems have "n - 2 * c < n - c" and "0 < 2 * c" by auto
    from less.hyps [OF this] obtain k where k: "shl_until (2 * c) n = Some (2 * c * 2 ^ k)"
      "n \<le> 2 * c * 2 ^ k" "k = 0 \<or> 2 * c * 2 ^ (k - 1) < n" by auto
    have "c * 2 ^ (Suc k - 1) < n"
      using k(3) True by (cases k) (auto simp: algebra_simps)
    with k True show ?thesis
      by (intro exI [of _ "Suc k"]) (simp add: shl_until.simps algebra_simps)
  qed
qed

lemma is_pow2_mult_power: "is_pow2 c \<Longrightarrow> is_pow2 (c * 2 ^ k)"
  unfolding is_pow2_iff by (metis power_add)

lemma shl_until_pow2:
  assumes "is_pow2 c"
  obtains r where "shl_until c n = Some r" and "is_pow2 r" and "n \<le> r" and "c \<le> r"
proof -
  from shl_until_pos [OF is_pow2_pos [OF assms], of n] obtain k
    where "shl_until c n = Some (c * 2 ^ k)" and "n \<le> c * 2 ^ k" by blast
  then show ?thesis using that assms by (simp add: is_pow2_mult_power)
qed

text \<open>The bitwise modulus of the source: \<open>x & (n - 1)\<close> is \<open>x mod n\<close> for a power of two.\<close>

definition mask_ix :: "int \<Rightarrow> nat \<Rightarrow> nat" where
  "mask_ix x n = nat (x AND (int n - 1))"

lemma mask_ix_mod: "is_pow2 n \<Longrightarrow> mask_ix x n = nat (x mod int n)"
proof -
  assume "is_pow2 n"
  then obtain k where k: "n = 2 ^ k" by (auto simp: is_pow2_iff)
  have "x AND (2 ^ k - 1) = x mod 2 ^ k"
    by (metis mask_eq_exp_minus_1 take_bit_eq_mask take_bit_eq_mod)
  then show ?thesis by (simp add: mask_ix_def k)
qed

lemma mask_ix_nat: "is_pow2 n \<Longrightarrow> mask_ix (int i) n = i mod n"
  by (simp add: mask_ix_mod nat_mod_as_int)

lemma mask_ix_less: "is_pow2 n \<Longrightarrow> mask_ix x n < n"
  using is_pow2_pos [of n] by (simp add: mask_ix_mod nat_less_iff)

lemma mask_ix_pred: "is_pow2 n \<Longrightarrow> mask_ix (int i - 1) n = (i + (n - 1)) mod n"
proof -
  assume n: "is_pow2 n"
  then have "0 < n" by (rule is_pow2_pos)
  have "(int i - 1) mod int n = (int i - 1 + int n) mod int n" by simp
  also have "int i - 1 + int n = int (i + (n - 1))" using \<open>0 < n\<close> by simp
  finally show ?thesis using n by (simp add: mask_ix_mod nat_mod_as_int)
qed

section \<open>Lists\<close>

lemma mod_shift_eq_iff:
  fixes i j n :: nat
  assumes "i < n" and "j < n"
  shows "(h + i) mod n = (h + j) mod n \<longleftrightarrow> i = j"
proof
  assume "(h + i) mod n = (h + j) mod n"
  then have "i mod n = j mod n" by (simp add: nat_mod_eq_iff)
  with assms show "i = j" by simp
qed simp

lemma rotate_list_update:
  assumes "i < length xs"
  shows "rotate h (xs[(h + i) mod length xs := v]) = (rotate h xs)[i := v]"
proof (rule nth_equalityI)
  show "length (rotate h (xs[(h + i) mod length xs := v])) = length ((rotate h xs)[i := v])"
    by simp
next
  fix j assume "j < length (rotate h (xs[(h + i) mod length xs := v]))"
  then have j: "j < length xs" by simp
  have eq: "(h + i) mod length xs = (h + j) mod length xs \<longleftrightarrow> i = j"
    using assms j by (rule mod_shift_eq_iff)
  have less: "(h + i) mod length xs < length xs" using assms by (cases xs) simp_all
  show "rotate h (xs[(h + i) mod length xs := v]) ! j = (rotate h xs)[i := v] ! j"
    using assms j eq less by (auto simp: nth_rotate nth_list_update)
qed

lemma swap_adjacent:
  "(ys @ a # b # zs)[length ys := (ys @ a # b # zs) ! Suc (length ys),
      Suc (length ys) := (ys @ a # b # zs) ! length ys] = ys @ b # a # zs"
  "(ys @ a # b # zs)[Suc (length ys) := (ys @ a # b # zs) ! length ys,
      length ys := (ys @ a # b # zs) ! Suc (length ys)] = ys @ b # a # zs"
  by (simp_all add: list_update_append nth_append)

end
