(* ===== verification/Deque.thy ===== *)
theory Deque
  imports Hako_Prelude
begin

text \<open>
  The ring-buffer deque of \<open>src/common/deque/deque.go\<close>, every operation of it. The state is
  the record \<open>deque\<close>; the parameter \<open>z\<close> of the operations that clear slots is the zero value
  of the element type. Panics (explicit ones and failed bounds checks) are \<open>Inl\<close>; the
  operations that contain a doubling loop return \<open>None\<close> when the loop does not end.

  The integers of the source that count elements and slots are natural numbers here; they
  are bounded by the length of a slice, so they do not wrap around. The buffer of \<open>Copy\<close>'s
  source is taken to be another one than the receiver's. The lemmas are in \<open>Deque_Proofs\<close>.
\<close>

section \<open>State and index arithmetic\<close>

record 'a deque =
  qbuf :: "'a list"
  qhead :: nat
  qtail :: nat
  qcount :: nat
  qminCap :: nat

definition minCapacity :: nat where
  "minCapacity = 8"

definition Deque_zero :: "'a deque" where
  "Deque_zero = \<lparr>qbuf = [], qhead = 0, qtail = 0, qcount = 0, qminCap = 0\<rparr>"

text \<open>\<open>None\<close> is the nil pointer.\<close>

definition Deque_Cap :: "'a deque option \<Rightarrow> nat" where
  "Deque_Cap qo = (case qo of None \<Rightarrow> 0 | Some q \<Rightarrow> length (qbuf q))"

definition Deque_Len :: "'a deque option \<Rightarrow> nat" where
  "Deque_Len qo = (case qo of None \<Rightarrow> 0 | Some q \<Rightarrow> qcount q)"

definition dq_prev :: "'a deque \<Rightarrow> nat \<Rightarrow> nat" where
  "dq_prev q i = mask_ix (int i - 1) (length (qbuf q))"

definition dq_next :: "'a deque \<Rightarrow> nat \<Rightarrow> nat" where
  "dq_next q i = mask_ix (int i + 1) (length (qbuf q))"

definition checkRange :: "'a deque \<Rightarrow> int \<Rightarrow> unit res" where
  "checkRange q i =
     (if i < 0 \<or> i \<ge> int (qcount q) then Inl (Panic ''deque: index out of range'') else Inr ())"

section \<open>Resizing\<close>

definition resize :: "'a \<Rightarrow> 'a deque \<Rightarrow> nat \<Rightarrow> 'a deque res" where
  "resize z q newSize =
     (let newBuf = replicate newSize z in
      rbind
        (if qtail q > qhead q
         then rbind (go_slice (qbuf q) (qhead q) (qtail q)) (\<lambda>s. Inr (go_copy newBuf s))
         else rbind (go_slice (qbuf q) (qhead q) (length (qbuf q))) (\<lambda>s1.
              rbind (go_slice (qbuf q) 0 (qtail q)) (\<lambda>s2.
                let n = go_copy_count newBuf s1; newBuf = go_copy newBuf s1
                in Inr (take n newBuf @ go_copy (drop n newBuf) s2))))
        (\<lambda>newBuf. Inr (q\<lparr>qhead := 0, qtail := qcount q, qbuf := newBuf\<rparr>)))"

definition growIfFull :: "'a \<Rightarrow> 'a deque \<Rightarrow> 'a deque res" where
  "growIfFull z q =
     (if qcount q \<noteq> length (qbuf q) then Inr q
      else if length (qbuf q) = 0 then
        (let m = (if qminCap q = 0 then minCapacity else qminCap q)
         in Inr (q\<lparr>qminCap := m, qbuf := replicate m z\<rparr>))
      else resize z q (2 * qcount q))"

definition shrinkIfExcess :: "'a \<Rightarrow> 'a deque \<Rightarrow> 'a deque res" where
  "shrinkIfExcess z q =
     (if length (qbuf q) > qminCap q \<and> 4 * qcount q = length (qbuf q)
      then resize z q (2 * qcount q) else Inr q)"

definition shrinkToFit :: "'a \<Rightarrow> 'a deque \<Rightarrow> 'a deque res option" where
  "shrinkToFit z q =
     (if length (qbuf q) > qminCap q \<and> 4 * qcount q \<le> length (qbuf q) then
        (if qcount q = 0 then
           Some (Inr (q\<lparr>qhead := 0, qtail := 0, qbuf := replicate (qminCap q) z\<rparr>))
         else
           (case shl_until (qminCap q) (qcount q) of
              None \<Rightarrow> None
            | Some c \<Rightarrow> Some (resize z q c)))
      else Some (Inr q))"

section \<open>Pushing, popping, reading\<close>

definition PushBack :: "'a \<Rightarrow> 'a deque \<Rightarrow> 'a \<Rightarrow> 'a deque res" where
  "PushBack z q elem =
     rbind (growIfFull z q) (\<lambda>q.
     rbind (go_set (qbuf q) (qtail q) elem) (\<lambda>b.
     Inr (q\<lparr>qbuf := b, qtail := dq_next q (qtail q), qcount := qcount q + 1\<rparr>)))"

definition PushFront :: "'a \<Rightarrow> 'a deque \<Rightarrow> 'a \<Rightarrow> 'a deque res" where
  "PushFront z q elem =
     rbind (growIfFull z q) (\<lambda>q.
     let h = dq_prev q (qhead q) in
     rbind (go_set (qbuf q) h elem) (\<lambda>b.
     Inr (q\<lparr>qbuf := b, qhead := h, qcount := qcount q + 1\<rparr>)))"

definition PopFront :: "'a \<Rightarrow> 'a deque \<Rightarrow> ('a \<times> 'a deque) res" where
  "PopFront z q =
     (if qcount q \<le> 0 then Inl (Panic ''deque: PopFront() called on empty queue'') else
      rbind (go_nth (qbuf q) (qhead q)) (\<lambda>ret.
      rbind (go_set (qbuf q) (qhead q) z) (\<lambda>b.
      rbind (shrinkIfExcess z
               (q\<lparr>qbuf := b, qhead := dq_next q (qhead q), qcount := qcount q - 1\<rparr>)) (\<lambda>q.
      Inr (ret, q)))))"

definition PopBack :: "'a \<Rightarrow> 'a deque \<Rightarrow> ('a \<times> 'a deque) res" where
  "PopBack z q =
     (if qcount q \<le> 0 then Inl (Panic ''deque: PopBack() called on empty queue'') else
      (let t = dq_prev q (qtail q) in
       rbind (go_nth (qbuf q) t) (\<lambda>ret.
       rbind (go_set (qbuf q) t z) (\<lambda>b.
       rbind (shrinkIfExcess z (q\<lparr>qtail := t, qbuf := b, qcount := qcount q - 1\<rparr>)) (\<lambda>q.
       Inr (ret, q))))))"

definition Front :: "'a deque \<Rightarrow> 'a res" where
  "Front q = (if qcount q \<le> 0 then Inl (Panic ''deque: Front() called when empty'')
              else go_nth (qbuf q) (qhead q))"

definition Back :: "'a deque \<Rightarrow> 'a res" where
  "Back q = (if qcount q \<le> 0 then Inl (Panic ''deque: Back() called when empty'')
             else go_nth (qbuf q) (dq_prev q (qtail q)))"

definition real_ix :: "'a deque \<Rightarrow> int \<Rightarrow> nat" where
  "real_ix q i = mask_ix (int (qhead q) + i) (length (qbuf q))"

definition At :: "'a deque \<Rightarrow> int \<Rightarrow> 'a res" where
  "At q i = rbind (checkRange q i) (\<lambda>_. go_nth (qbuf q) (real_ix q i))"

definition Set_at :: "'a deque \<Rightarrow> int \<Rightarrow> 'a \<Rightarrow> 'a deque res" where
  "Set_at q i item =
     rbind (checkRange q i) (\<lambda>_.
     rbind (go_set (qbuf q) (real_ix q i) item) (\<lambda>b. Inr (q\<lparr>qbuf := b\<rparr>)))"

text \<open>The parallel assignment \<open>buf[a], buf[b] = buf[b], buf[a]\<close>.\<close>

definition buf_swap :: "'a deque \<Rightarrow> nat \<Rightarrow> nat \<Rightarrow> 'a deque res" where
  "buf_swap q a b =
     rbind (go_nth (qbuf q) b) (\<lambda>vb.
     rbind (go_nth (qbuf q) a) (\<lambda>va.
     rbind (go_set (qbuf q) a vb) (\<lambda>bf.
     rbind (go_set bf b va) (\<lambda>bf. Inr (q\<lparr>qbuf := bf\<rparr>)))))"

definition Swap :: "'a deque \<Rightarrow> int \<Rightarrow> int \<Rightarrow> 'a deque res" where
  "Swap q idxA idxB =
     rbind (checkRange q idxA) (\<lambda>_.
     rbind (checkRange q idxB) (\<lambda>_.
     if idxA = idxB then Inr q else buf_swap q (real_ix q idxA) (real_ix q idxB)))"

section \<open>Iterators\<close>

text \<open>
  The callback of an iterator receives the element, the deque (which it may change) and
  its own state; it returns whether to go on.
\<close>

type_synonym ('a, 's) yield = "'a \<Rightarrow> 'a deque \<Rightarrow> 's \<Rightarrow> bool \<times> 'a deque \<times> 's"

partial_function (option) IterPopFront_loop ::
  "'a \<Rightarrow> ('a, 's) yield \<Rightarrow> 'a deque \<Rightarrow> 's \<Rightarrow> ('a deque \<times> 's) res option" where
  "IterPopFront_loop z yield q s =
     (if qcount q = 0 then Some (Inr (q, s))
      else (case go_nth (qbuf q) (qhead q) of
              Inl e \<Rightarrow> Some (Inl e)
            | Inr ret \<Rightarrow>
                (case go_set (qbuf q) (qhead q) z of
                   Inl e \<Rightarrow> Some (Inl e)
                 | Inr b \<Rightarrow>
                     (case yield ret
                             (q\<lparr>qbuf := b, qhead := dq_next q (qhead q), qcount := qcount q - 1\<rparr>) s of
                        (continue, q', s') \<Rightarrow>
                          if continue then IterPopFront_loop z yield q' s'
                          else Some (Inr (q', s'))))))"

definition IterPopFront ::
  "'a \<Rightarrow> ('a, 's) yield \<Rightarrow> 'a deque \<Rightarrow> 's \<Rightarrow> ('a deque \<times> 's) res option" where
  "IterPopFront z yield q s =
     (if qcount q = 0 then Some (Inr (q, s))
      else (case IterPopFront_loop z yield q s of
              None \<Rightarrow> None
            | Some (Inl e) \<Rightarrow> Some (Inl e)
            | Some (Inr (q', s')) \<Rightarrow>
                (case shrinkToFit z q' of
                   None \<Rightarrow> None
                 | Some r \<Rightarrow> Some (rbind r (\<lambda>q''. Inr (q'', s'))))))"

partial_function (option) IterPopBack_loop ::
  "'a \<Rightarrow> ('a, 's) yield \<Rightarrow> 'a deque \<Rightarrow> 's \<Rightarrow> ('a deque \<times> 's) res option" where
  "IterPopBack_loop z yield q s =
     (if qcount q = 0 then Some (Inr (q, s))
      else (case go_nth (qbuf q) (dq_prev q (qtail q)) of
              Inl e \<Rightarrow> Some (Inl e)
            | Inr ret \<Rightarrow>
                (case go_set (qbuf q) (dq_prev q (qtail q)) z of
                   Inl e \<Rightarrow> Some (Inl e)
                 | Inr b \<Rightarrow>
                     (case yield ret
                             (q\<lparr>qtail := dq_prev q (qtail q), qbuf := b, qcount := qcount q - 1\<rparr>) s of
                        (continue, q', s') \<Rightarrow>
                          if continue then IterPopBack_loop z yield q' s'
                          else Some (Inr (q', s'))))))"

definition IterPopBack ::
  "'a \<Rightarrow> ('a, 's) yield \<Rightarrow> 'a deque \<Rightarrow> 's \<Rightarrow> ('a deque \<times> 's) res option" where
  "IterPopBack z yield q s =
     (if qcount q = 0 then Some (Inr (q, s))
      else (case IterPopBack_loop z yield q s of
              None \<Rightarrow> None
            | Some (Inl e) \<Rightarrow> Some (Inl e)
            | Some (Inr (q', s')) \<Rightarrow>
                (case shrinkToFit z q' of
                   None \<Rightarrow> None
                 | Some r \<Rightarrow> Some (rbind r (\<lambda>q''. Inr (q'', s'))))))"

partial_function (option) Iter_loop ::
  "('a, 's) yield \<Rightarrow> nat \<Rightarrow> nat \<Rightarrow> nat \<Rightarrow> nat \<Rightarrow> 'a deque \<Rightarrow> 's \<Rightarrow> ('a deque \<times> 's) res option" where
  "Iter_loop yield origHead origTail head i q s =
     (if i < qcount q then
        (if qhead q \<noteq> origHead \<or> qtail q \<noteq> origTail
         then Some (Inl (Panic ''deque: modified during iteration''))
         else (case go_nth (qbuf q) head of
                 Inl e \<Rightarrow> Some (Inl e)
               | Inr v \<Rightarrow>
                   (case yield v q s of
                      (continue, q', s') \<Rightarrow>
                        if continue
                        then Iter_loop yield origHead origTail (dq_next q' head) (i + 1) q' s'
                        else Some (Inr (q', s')))))
      else Some (Inr (q, s)))"

definition Iter :: "('a, 's) yield \<Rightarrow> 'a deque \<Rightarrow> 's \<Rightarrow> ('a deque \<times> 's) res option" where
  "Iter yield q s = Iter_loop yield (qhead q) (qtail q) (qhead q) 0 q s"

partial_function (option) RIter_loop ::
  "('a, 's) yield \<Rightarrow> nat \<Rightarrow> nat \<Rightarrow> nat \<Rightarrow> nat \<Rightarrow> 'a deque \<Rightarrow> 's \<Rightarrow> ('a deque \<times> 's) res option" where
  "RIter_loop yield origHead origTail tail i q s =
     (if i < qcount q then
        (if qhead q \<noteq> origHead \<or> qtail q \<noteq> origTail
         then Some (Inl (Panic ''deque: modified during iteration''))
         else (case go_nth (qbuf q) (dq_prev q tail) of
                 Inl e \<Rightarrow> Some (Inl e)
               | Inr v \<Rightarrow>
                   (case yield v q s of
                      (continue, q', s') \<Rightarrow>
                        if continue
                        then RIter_loop yield origHead origTail (dq_prev q tail) (i + 1) q' s'
                        else Some (Inr (q', s')))))
      else Some (Inr (q, s)))"

definition RIter :: "('a, 's) yield \<Rightarrow> 'a deque \<Rightarrow> 's \<Rightarrow> ('a deque \<times> 's) res option" where
  "RIter yield q s = RIter_loop yield (qhead q) (qtail q) (qtail q) 0 q s"

section \<open>Bulk operations\<close>

text \<open>\<open>clearSlice(buf[a:b])\<close>.\<close>

definition clearSlice :: "'a \<Rightarrow> 'a list \<Rightarrow> nat \<Rightarrow> nat \<Rightarrow> 'a list res" where
  "clearSlice z xs a b =
     rbind (go_slice xs a b) (\<lambda>s. Inr (take a xs @ replicate (length s) z @ drop b xs))"

definition Clear :: "'a \<Rightarrow> 'a deque \<Rightarrow> 'a deque res" where
  "Clear z q =
     (if qcount q = 0 then Inr q else
      rbind
        (if qhead q \<ge> qtail q
         then rbind (clearSlice z (qbuf q) (qhead q) (length (qbuf q))) (\<lambda>b. clearSlice z b 0 (qtail q))
         else clearSlice z (qbuf q) (qhead q) (qtail q))
        (\<lambda>b. Inr (q\<lparr>qcount := 0, qhead := 0, qtail := 0, qbuf := b\<rparr>)))"

definition Grow :: "'a \<Rightarrow> 'a deque \<Rightarrow> int \<Rightarrow> 'a deque res option" where
  "Grow z q n =
     (if n < 0 then Some (Inl (Panic ''deque.Grow: negative count'')) else
      (let c = length (qbuf q); l = qcount q in
       if n \<le> int c - int l then Some (Inr q) else
       (case shl_until (if c = 0 then minCapacity else c) (l + nat n) of
          None \<Rightarrow> None
        | Some c \<Rightarrow>
            Some (if l = 0 then Inr (q\<lparr>qbuf := replicate c z, qhead := 0, qtail := 0\<rparr>)
                  else resize z q c))))"

text \<open>The new contents of \<open>out\<close> and the number of elements copied.\<close>

definition CopyOutSlice :: "'a deque \<Rightarrow> 'a list \<Rightarrow> ('a list \<times> nat) res" where
  "CopyOutSlice q out =
     (if qcount q = 0 \<or> length out = 0 then Inr (out, 0) else
      if qhead q \<ge> qtail q then
        rbind (go_slice (qbuf q) (qhead q) (length (qbuf q))) (\<lambda>s1.
        let n = go_copy_count out s1; out = go_copy out s1 in
        if length (drop n out) = 0 then Inr (out, n) else
        rbind (go_slice (qbuf q) 0 (qtail q)) (\<lambda>s2.
        Inr (take n out @ go_copy (drop n out) s2, n + go_copy_count (drop n out) s2)))
      else
        rbind (go_slice (qbuf q) (qhead q) (qtail q)) (\<lambda>s.
        Inr (go_copy out s, go_copy_count out s)))"

definition Copy :: "'a \<Rightarrow> 'a deque \<Rightarrow> 'a deque \<Rightarrow> ('a deque \<times> nat) res option" where
  "Copy z q src =
     (case Clear z q of
        Inl e \<Rightarrow> Some (Inl e)
      | Inr q \<Rightarrow>
          (case Grow z q (int (qcount src)) of
             None \<Rightarrow> None
           | Some r \<Rightarrow>
               Some (rbind r (\<lambda>q.
                     rbind (CopyOutSlice src (qbuf q)) (\<lambda>(b, n).
                     Inr (q\<lparr>qbuf := b, qcount := n, qtail := n, qhead := 0\<rparr>, n))))))"

definition AppendToSlice :: "'a deque \<Rightarrow> 'a list \<Rightarrow> 'a list res" where
  "AppendToSlice q out =
     (if qcount q = 0 then Inr out else
      if qhead q \<ge> qtail q then
        rbind (go_slice (qbuf q) (qhead q) (length (qbuf q))) (\<lambda>s1.
        rbind (go_slice (qbuf q) 0 (qtail q)) (\<lambda>s2. Inr ((out @ s1) @ s2)))
      else rbind (go_slice (qbuf q) (qhead q) (qtail q)) (\<lambda>s. Inr (out @ s)))"

definition CopyInSlice :: "'a \<Rightarrow> 'a deque \<Rightarrow> 'a list \<Rightarrow> 'a deque res option" where
  "CopyInSlice z q inp =
     (case
        (if length (qbuf q) < length inp then
           (let newCap = (if length (qbuf q) = 0 then minCapacity else length (qbuf q));
                q = (if length (qbuf q) = 0 then q\<lparr>qminCap := minCapacity\<rparr> else q)
            in case shl_until newCap (length inp) of
                 None \<Rightarrow> None
               | Some c \<Rightarrow> Some (Inr (q\<lparr>qbuf := replicate c z\<rparr>)))
         else if length (qbuf q) > length inp then Some (Clear z q)
         else Some (Inr q))
      of None \<Rightarrow> None
       | Some r \<Rightarrow>
           Some (rbind r (\<lambda>q.
             let n = go_copy_count (qbuf q) inp in
             Inr (q\<lparr>qbuf := go_copy (qbuf q) inp, qcount := n, qtail := n, qhead := 0\<rparr>))))"

section \<open>Rotation, search, insertion and removal\<close>

primrec rotate_back_loop :: "'a \<Rightarrow> nat \<Rightarrow> 'a deque \<Rightarrow> 'a deque res" where
  "rotate_back_loop z 0 q = Inr q"
| "rotate_back_loop z (Suc n) q =
     (let h = mask_ix (int (qhead q) - 1) (length (qbuf q));
          t = mask_ix (int (qtail q) - 1) (length (qbuf q)) in
      rbind (go_nth (qbuf q) t) (\<lambda>v.
      rbind (go_set (qbuf q) h v) (\<lambda>b.
      rbind (go_set b t z) (\<lambda>b.
      rotate_back_loop z n (q\<lparr>qhead := h, qtail := t, qbuf := b\<rparr>)))))"

primrec rotate_front_loop :: "'a \<Rightarrow> nat \<Rightarrow> 'a deque \<Rightarrow> 'a deque res" where
  "rotate_front_loop z 0 q = Inr q"
| "rotate_front_loop z (Suc n) q =
     rbind (go_nth (qbuf q) (qhead q)) (\<lambda>v.
     rbind (go_set (qbuf q) (qtail q) v) (\<lambda>b.
     rbind (go_set b (qhead q) z) (\<lambda>b.
     rotate_front_loop z n
       (q\<lparr>qbuf := b,
          qhead := mask_ix (int (qhead q) + 1) (length (qbuf q)),
          qtail := mask_ix (int (qtail q) + 1) (length (qbuf q))\<rparr>))))"

definition Rotate :: "'a \<Rightarrow> 'a deque \<Rightarrow> int \<Rightarrow> 'a deque res" where
  "Rotate z q n =
     (if qcount q \<le> 1 then Inr q else
      (let n = go_rem n (int (qcount q)) in
       if n = 0 then Inr q
       else if qhead q = qtail q then
         (let h = mask_ix (int (qhead q) + n) (length (qbuf q))
          in Inr (q\<lparr>qhead := h, qtail := h\<rparr>))
       else if n < 0 then rotate_back_loop z (nat (- n)) q
       else rotate_front_loop z (nat n) q))"

fun Index_loop :: "('a \<Rightarrow> bool) \<Rightarrow> 'a deque \<Rightarrow> nat list \<Rightarrow> int res" where
  "Index_loop f q [] = Inr (-1)"
| "Index_loop f q (i # is) =
     rbind (go_nth (qbuf q) (real_ix q (int i))) (\<lambda>v. if f v then Inr (int i) else Index_loop f q is)"

definition Index :: "('a \<Rightarrow> bool) \<Rightarrow> 'a deque option \<Rightarrow> int res" where
  "Index f qo =
     (if Deque_Len qo > 0 then
        (case qo of None \<Rightarrow> Inl NilDereference | Some q \<Rightarrow> Index_loop f q [0..<qcount q])
      else Inr (-1))"

definition RIndex :: "('a \<Rightarrow> bool) \<Rightarrow> 'a deque option \<Rightarrow> int res" where
  "RIndex f qo =
     (if Deque_Len qo > 0 then
        (case qo of None \<Rightarrow> Inl NilDereference | Some q \<Rightarrow> Index_loop f q (rev [0..<qcount q]))
      else Inr (-1))"

primrec swap_forward :: "nat \<Rightarrow> 'a deque \<Rightarrow> nat \<Rightarrow> 'a deque res" where
  "swap_forward 0 q front = Inr q"
| "swap_forward (Suc n) q front =
     (let nx = dq_next q front in rbind (buf_swap q front nx) (\<lambda>q. swap_forward n q nx))"

primrec swap_backward :: "nat \<Rightarrow> 'a deque \<Rightarrow> nat \<Rightarrow> 'a deque res" where
  "swap_backward 0 q back = Inr q"
| "swap_backward (Suc n) q back =
     (let pv = dq_prev q back in rbind (buf_swap q back pv) (\<lambda>q. swap_backward n q pv))"

definition Insert :: "'a \<Rightarrow> 'a deque \<Rightarrow> int \<Rightarrow> 'a \<Rightarrow> 'a deque res" where
  "Insert z q at item =
     (if at \<le> 0 then PushFront z q item
      else if at \<ge> int (qcount q) then PushBack z q item
      else if at * 2 < int (qcount q) then
        rbind (PushFront z q item) (\<lambda>q. swap_forward (nat at) q (qhead q))
      else
        (let swaps = qcount q - nat at in
         rbind (PushBack z q item) (\<lambda>q. swap_backward swaps q (dq_prev q (qtail q)))))"

definition Remove :: "'a \<Rightarrow> 'a deque \<Rightarrow> int \<Rightarrow> ('a \<times> 'a deque) res" where
  "Remove z q at =
     rbind (checkRange q at) (\<lambda>_.
     let rm = real_ix q at in
     if at * 2 < int (qcount q) then
       rbind (swap_backward (nat at) q rm) (\<lambda>q. PopFront z q)
     else
       rbind (swap_forward (qcount q - nat at - 1) q rm) (\<lambda>q. PopBack z q))"

definition SetBaseCap :: "'a deque \<Rightarrow> int \<Rightarrow> 'a deque option" where
  "SetBaseCap q baseCap =
     (case shl_until minCapacity (nat baseCap) of
        None \<Rightarrow> None | Some m \<Rightarrow> Some (q\<lparr>qminCap := m\<rparr>))"

end
