(* ===== verification/Seq_Interfaces.thy ===== *)
theory Seq_Interfaces
  imports Hako_Prelude
begin

text \<open>
  The interfaces of the sequence containers: what a client of a queue or of a stack may
  rely on. A container has an abstraction \<open>elems\<close> to a list and an invariant; pushing appends,
  and popping takes from the front (\<open>fifo\<close>) or from the back (\<open>lifo\<close>). The client lemmas are
  about whole batches: everything pushed comes back, in order, and nothing panics.
\<close>

fun push_all :: "('q \<Rightarrow> 'a \<Rightarrow> 'q res) \<Rightarrow> 'a list \<Rightarrow> 'q \<Rightarrow> 'q res" where
  "push_all enq [] q = Inr q"
| "push_all enq (x # xs) q = rbind (enq q x) (push_all enq xs)"

fun pop_n :: "('q \<Rightarrow> ('a \<times> 'q) res) \<Rightarrow> nat \<Rightarrow> 'q \<Rightarrow> ('a list \<times> 'q) res" where
  "pop_n deq 0 q = Inr ([], q)"
| "pop_n deq (Suc n) q =
     rbind (deq q) (\<lambda>(x, q). rbind (pop_n deq n q) (\<lambda>(xs, q). Inr (x # xs, q)))"

locale pushable =
  fixes enq :: "'q \<Rightarrow> 'a \<Rightarrow> 'q res"
    and elems :: "'q \<Rightarrow> 'a list"
    and inv :: "'q \<Rightarrow> bool"
  assumes enq_ok: "inv q \<Longrightarrow> \<exists>q'. enq q x = Inr q' \<and> inv q' \<and> elems q' = elems q @ [x]"
begin

lemma push_all_ok:
  "inv q \<Longrightarrow> \<exists>q'. push_all enq xs q = Inr q' \<and> inv q' \<and> elems q' = elems q @ xs"
proof (induction xs arbitrary: q)
  case (Cons x xs)
  from enq_ok [OF Cons.prems, of x] obtain q1
    where q1: "enq q x = Inr q1" "inv q1" "elems q1 = elems q @ [x]" by auto
  with Cons.IH [OF q1(2)] show ?case by auto
qed auto

end

locale fifo = pushable enq elems inv
  for enq :: "'q \<Rightarrow> 'a \<Rightarrow> 'q res" and elems :: "'q \<Rightarrow> 'a list" and inv :: "'q \<Rightarrow> bool" +
  fixes deq :: "'q \<Rightarrow> ('a \<times> 'q) res"
  assumes deq_ok: "inv q \<Longrightarrow> elems q = x # xs \<Longrightarrow> \<exists>q'. deq q = Inr (x, q') \<and> inv q' \<and> elems q' = xs"
begin

lemma pop_n_ok:
  "inv q \<Longrightarrow> elems q = xs @ ys \<Longrightarrow>
     \<exists>q'. pop_n deq (length xs) q = Inr (xs, q') \<and> inv q' \<and> elems q' = ys"
proof (induction xs arbitrary: q)
  case (Cons x xs)
  from deq_ok [of q x "xs @ ys"] Cons.prems obtain q1
    where q1: "deq q = Inr (x, q1)" "inv q1" "elems q1 = xs @ ys" by auto
  with Cons.IH [OF q1(2,3)] show ?case by auto
qed auto

lemma push_pop_order:
  assumes "inv q"
  shows "\<exists>q' q''. push_all enq xs q = Inr q'
    \<and> pop_n deq (length (elems q) + length xs) q' = Inr (elems q @ xs, q'')
    \<and> inv q'' \<and> elems q'' = []"
proof -
  from push_all_ok [OF assms, of xs] obtain q'
    where q': "push_all enq xs q = Inr q'" "inv q'" "elems q' = elems q @ xs" by auto
  with pop_n_ok [OF q'(2), of "elems q @ xs" "[]"] show ?thesis by auto
qed

end

locale lifo = pushable enq elems inv
  for enq :: "'q \<Rightarrow> 'a \<Rightarrow> 'q res" and elems :: "'q \<Rightarrow> 'a list" and inv :: "'q \<Rightarrow> bool" +
  fixes deq :: "'q \<Rightarrow> ('a \<times> 'q) res"
  assumes deq_ok: "inv q \<Longrightarrow> elems q = xs @ [x] \<Longrightarrow> \<exists>q'. deq q = Inr (x, q') \<and> inv q' \<and> elems q' = xs"
begin

lemma pop_n_ok:
  "inv q \<Longrightarrow> elems q = ys @ rev xs \<Longrightarrow>
     \<exists>q'. pop_n deq (length xs) q = Inr (xs, q') \<and> inv q' \<and> elems q' = ys"
proof (induction xs arbitrary: q)
  case (Cons x xs)
  from deq_ok [of q "ys @ rev xs" x] Cons.prems obtain q1
    where q1: "deq q = Inr (x, q1)" "inv q1" "elems q1 = ys @ rev xs" by auto
  with Cons.IH [OF q1(2,3)] show ?case by auto
qed auto

lemma push_pop_reverse:
  assumes "inv q"
  shows "\<exists>q' q''. push_all enq xs q = Inr q' \<and> pop_n deq (length xs) q' = Inr (rev xs, q'')
    \<and> inv q'' \<and> elems q'' = elems q"
proof -
  from push_all_ok [OF assms, of xs] obtain q'
    where q': "push_all enq xs q = Inr q'" "inv q'" "elems q' = elems q @ xs" by auto
  with pop_n_ok [OF q'(2), of "elems q" "rev xs"] show ?thesis by auto
qed

end

end
