(* ===== verification/Deque_Proofs.thy ===== *)
theory Deque_Proofs
  imports Deque Seq_Interfaces
begin

text \<open>
  Correctness of the deque: the representation invariant \<open>deque_inv\<close>, the sequence
  \<open>dq_list\<close> of the elements from front to back, what each operation does to them, and the
  refinement: every sequence of calls behaves as it does on a list, panics included. The
  deque is interpreted as a \<open>fifo\<close> and as a \<open>lifo\<close>.

  The last section is about the states that leave the invariant: a completely full buffer
  written by \<open>CopyInSlice\<close>, \<open>Copy\<close> or \<open>shrinkToFit\<close> has its tail past the end, and the
  doubling loop of \<open>shrinkToFit\<close> that starts at a base capacity of zero does not end.
\<close>

section \<open>Invariant and abstraction\<close>

definition deque_inv :: "'a deque \<Rightarrow> bool" where
  "deque_inv q \<longleftrightarrow>
     (if qbuf q = [] then qhead q = 0 \<and> qtail q = 0 \<and> qcount q = 0
      else is_pow2 (length (qbuf q)) \<and> qhead q < length (qbuf q) \<and> qcount q \<le> length (qbuf q)
           \<and> qtail q = (qhead q + qcount q) mod length (qbuf q))
     \<and> (qminCap q = 0 \<or> is_pow2 (qminCap q))"

text \<open>
  A full buffer with the tail at its end instead of at 0: what the bulk operations can leave.
\<close>

definition deque_overfull :: "'a deque \<Rightarrow> bool" where
  "deque_overfull q \<longleftrightarrow>
     is_pow2 (length (qbuf q)) \<and> qhead q = 0 \<and> qcount q = length (qbuf q)
     \<and> qtail q = length (qbuf q) \<and> (qminCap q = 0 \<or> is_pow2 (qminCap q))"

definition dq_list :: "'a deque \<Rightarrow> 'a list" where
  "dq_list q = take (qcount q) (rotate (qhead q) (qbuf q))"

lemma deque_inv_zero [simp]: "deque_inv Deque_zero" "dq_list Deque_zero = []"
  by (simp_all add: deque_inv_def Deque_zero_def dq_list_def)

lemma deque_inv_buf:
  assumes "deque_inv q" and "qbuf q \<noteq> []"
  shows "is_pow2 (length (qbuf q))" and "qhead q < length (qbuf q)"
    and "qcount q \<le> length (qbuf q)" and "qtail q = (qhead q + qcount q) mod length (qbuf q)"
    and "qtail q < length (qbuf q)"
  using assms by (auto simp: deque_inv_def split: if_splits)

lemma deque_inv_minCap: "deque_inv q \<Longrightarrow> qminCap q = 0 \<or> is_pow2 (qminCap q)"
  by (simp add: deque_inv_def)

lemma deque_inv_count: "deque_inv q \<Longrightarrow> qcount q \<le> length (qbuf q)"
  by (auto simp: deque_inv_def split: if_splits)

lemma deque_inv_nonempty: "deque_inv q \<Longrightarrow> 0 < qcount q \<Longrightarrow> qbuf q \<noteq> []"
  by (auto simp: deque_inv_def)

lemma deque_invI:
  assumes "is_pow2 (length (qbuf q))" and "qhead q < length (qbuf q)"
    and "qcount q \<le> length (qbuf q)" and "qtail q = (qhead q + qcount q) mod length (qbuf q)"
    and "qminCap q = 0 \<or> is_pow2 (qminCap q)"
  shows "deque_inv q"
  using assms by (auto simp: deque_inv_def)

lemma length_dq_list: "qcount q \<le> length (qbuf q) \<Longrightarrow> length (dq_list q) = qcount q"
  by (simp add: dq_list_def)

lemma length_dq_list_inv [simp]: "deque_inv q \<Longrightarrow> length (dq_list q) = qcount q"
  by (simp add: length_dq_list deque_inv_count)

lemma nth_dq_list:
  "qcount q \<le> length (qbuf q) \<Longrightarrow> i < qcount q \<Longrightarrow>
     dq_list q ! i = qbuf q ! ((qhead q + i) mod length (qbuf q))"
  by (simp add: dq_list_def nth_rotate)

lemma dq_next_mod: "is_pow2 (length (qbuf q)) \<Longrightarrow> dq_next q i = (i + 1) mod length (qbuf q)"
  using mask_ix_nat [of "length (qbuf q)" "i + 1"] by (simp add: dq_next_def add.commute)

lemma dq_prev_mod:
  "is_pow2 (length (qbuf q)) \<Longrightarrow> dq_prev q i = (i + (length (qbuf q) - 1)) mod length (qbuf q)"
  by (simp add: dq_prev_def mask_ix_pred)

lemma real_ix_mod:
  "is_pow2 (length (qbuf q)) \<Longrightarrow> 0 \<le> i \<Longrightarrow>
     real_ix q i = (qhead q + nat i) mod length (qbuf q)"
  using mask_ix_nat [of "length (qbuf q)" "qhead q + nat i"] by (simp add: real_ix_def)

text \<open>
  The two segments of the ring that the bulk operations read: together they are the list.
\<close>

lemma dq_segments:
  assumes "deque_inv q \<or> deque_overfull q" and "0 < qcount q"
  shows "dq_list q =
    (if qtail q > qhead q then take (qtail q - qhead q) (drop (qhead q) (qbuf q))
     else drop (qhead q) (qbuf q) @ take (qtail q) (qbuf q))"
    and "qtail q > qhead q \<Longrightarrow> qtail q \<le> length (qbuf q)"
    and "\<not> qtail q > qhead q \<Longrightarrow> qtail q \<le> length (qbuf q) \<and> qhead q \<le> length (qbuf q)"
    and "qcount q \<le> length (qbuf q)"
proof -
  let ?n = "length (qbuf q)"
  have n: "qhead q < ?n" "qcount q \<le> ?n"
    and t: "qtail q = (qhead q + qcount q) mod ?n \<or> qhead q = 0 \<and> qtail q = ?n \<and> qcount q = ?n"
    using assms is_pow2_pos [of ?n] deque_inv_buf [of q] deque_inv_nonempty [of q]
    by (auto simp: deque_overfull_def)
  have rot: "rotate (qhead q) (qbuf q) = drop (qhead q) (qbuf q) @ take (qhead q) (qbuf q)"
    using n by (simp add: rotate_drop_take)
  have cases: "qtail q > qhead q \<and> qtail q = qhead q + qcount q \<and> qtail q \<le> ?n
     \<or> qtail q \<le> qhead q \<and> qtail q + ?n = qhead q + qcount q"
  proof (cases "qhead q + qcount q < ?n")
    case True
    with t n assms(2) show ?thesis by auto
  next
    case False
    then have "(qhead q + qcount q) mod ?n = qhead q + qcount q - ?n"
      using n by (simp add: mod_if)
    with t n False assms(2) show ?thesis by auto
  qed
  then have len: "qtail q > qhead q \<and> qcount q = qtail q - qhead q \<and> qcount q \<le> ?n - qhead q
     \<or> qtail q \<le> qhead q \<and> qcount q = ?n - qhead q + qtail q"
    using n by auto
  then show "dq_list q =
    (if qtail q > qhead q then take (qtail q - qhead q) (drop (qhead q) (qbuf q))
     else drop (qhead q) (qbuf q) @ take (qtail q) (qbuf q))"
    using n unfolding dq_list_def rot by (auto simp: min_def)
  show "qtail q > qhead q \<Longrightarrow> qtail q \<le> ?n"
    and "\<not> qtail q > qhead q \<Longrightarrow> qtail q \<le> ?n \<and> qhead q \<le> ?n"
    and "qcount q \<le> ?n"
    using cases n by auto
qed

section \<open>Resizing keeps the elements\<close>

lemma resize_ok:
  assumes "deque_inv q \<or> deque_overfull q" and "0 < qcount q" and "qcount q \<le> n"
  shows "resize z q n =
    Inr (q\<lparr>qhead := 0, qtail := qcount q, qbuf := dq_list q @ replicate (n - qcount q) z\<rparr>)"
proof -
  note seg = dq_segments [OF assms(1,2)]
  have len: "length (dq_list q) = qcount q" using seg(4) by (simp add: length_dq_list)
  have copy: "go_copy (replicate n z) (dq_list q) = dq_list q @ replicate (n - qcount q) z"
    using len assms(3) by simp
  show ?thesis
  proof (cases "qtail q > qhead q")
    case True
    with seg copy show ?thesis by (simp add: resize_def Let_def)
  next
    case False
    then have "dq_list q = drop (qhead q) (qbuf q) @ take (qtail q) (qbuf q)"
      using seg(1) by simp
    with False seg(3) copy show ?thesis
      by (simp add: resize_def Let_def go_copy_append del: go_copy_fits)
  qed
qed

lemma dq_list_linear:
  "qhead q = 0 \<Longrightarrow> qbuf q = xs @ ys \<Longrightarrow> qcount q = length xs \<Longrightarrow> dq_list q = xs"
  by (simp add: dq_list_def)

lemma resize_spec:
  assumes "deque_inv q \<or> deque_overfull q" and "0 < qcount q" and "qcount q < n" and "is_pow2 n"
  obtains q' where "resize z q n = Inr q'" and "deque_inv q'" and "dq_list q' = dq_list q"
    and "qcount q' = qcount q" and "length (qbuf q') = n" and "qminCap q' = qminCap q"
proof -
  let ?q' = "q\<lparr>qhead := 0, qtail := qcount q, qbuf := dq_list q @ replicate (n - qcount q) z\<rparr>"
  have len: "length (dq_list q) = qcount q"
    using dq_segments(4) [OF assms(1,2)] by (simp add: length_dq_list)
  have "resize z q n = Inr ?q'" using assms by (intro resize_ok) auto
  moreover have "deque_inv ?q'"
    using assms len by (intro deque_invI) (auto simp: deque_inv_def deque_overfull_def)
  moreover have "dq_list ?q' = dq_list q"
    using len by (intro dq_list_linear) auto
  ultimately show ?thesis using that len assms(3) by simp
qed

lemma growIfFull_spec:
  assumes "deque_inv q \<or> deque_overfull q"
  obtains q' where "growIfFull z q = Inr q'" and "deque_inv q'" and "dq_list q' = dq_list q"
    and "qcount q' = qcount q" and "qcount q' < length (qbuf q')"
proof (cases "qcount q = length (qbuf q)")
  case False
  then have "deque_inv q" using assms by (auto simp: deque_overfull_def)
  with False show ?thesis
    using that [of q] deque_inv_count [of q] by (auto simp: growIfFull_def)
next
  case True
  show ?thesis
  proof (cases "qbuf q = []")
    case empty: True
    then have inv: "deque_inv q"
      using assms is_pow2_pos [of 0] by (auto simp: deque_overfull_def)
    let ?m = "if qminCap q = 0 then minCapacity else qminCap q"
    let ?q' = "q\<lparr>qminCap := ?m, qbuf := replicate ?m z\<rparr>"
    have m: "is_pow2 ?m"
      using inv is_pow2_power [of 3] by (auto simp: deque_inv_def minCapacity_def)
    then have "0 < ?m" by (rule is_pow2_pos)
    have zero: "qhead q = 0" "qtail q = 0" "qcount q = 0"
      using inv empty by (auto simp: deque_inv_def)
    have "deque_inv ?q'"
      using m \<open>0 < ?m\<close> zero by (intro deque_invI) auto
    with that [of ?q'] True empty zero \<open>0 < ?m\<close> show ?thesis
      by (simp add: growIfFull_def dq_list_def Let_def)
  next
    case False
    then have pos: "0 < qcount q" using True by simp
    have "is_pow2 (2 * qcount q)"
      using assms True False by (auto simp: deque_inv_def deque_overfull_def is_pow2_double)
    from resize_spec [OF assms pos _ this, of z]
    obtain q' where "resize z q (2 * qcount q) = Inr q'" "deque_inv q'" "dq_list q' = dq_list q"
      "qcount q' = qcount q" "length (qbuf q') = 2 * qcount q"
      using pos by auto
    with True False pos that [of q'] show ?thesis by (simp add: growIfFull_def)
  qed
qed

lemma shrinkIfExcess_spec:
  assumes "deque_inv q"
  obtains q' where "shrinkIfExcess z q = Inr q'" and "deque_inv q'" and "dq_list q' = dq_list q"
proof (cases "length (qbuf q) > qminCap q \<and> 4 * qcount q = length (qbuf q)")
  case False
  with that [of q] assms show ?thesis by (auto simp: shrinkIfExcess_def)
next
  case True
  then have ne: "qbuf q \<noteq> []" and pos: "0 < qcount q" by auto
  have "2 * (2 * qcount q) = length (qbuf q)" using True by simp
  then have "is_pow2 (2 * (2 * qcount q))" using deque_inv_buf(1) [OF assms ne] by (simp only:)
  then have "is_pow2 (2 * qcount q)" by (rule is_pow2_half)
  from resize_spec [OF _ pos _ this, of z] assms pos True that show ?thesis
    by (auto simp: shrinkIfExcess_def)
qed

section \<open>Pushing and popping\<close>

lemma take_Suc_update: "c < length xs \<Longrightarrow> take (Suc c) (xs[c := v]) = take c xs @ [v]"
  by (simp add: take_Suc_conv_app_nth take_update_cancel)

lemma PushBack_spec:
  assumes "deque_inv q \<or> deque_overfull q"
  obtains q' where "PushBack z q e = Inr q'" and "deque_inv q'" and "dq_list q' = dq_list q @ [e]"
proof -
  from growIfFull_spec [OF assms, of z] obtain g where g: "growIfFull z q = Inr g" "deque_inv g"
    "dq_list g = dq_list q" "qcount g < length (qbuf g)" by metis
  have ne: "qbuf g \<noteq> []" using g(4) by auto
  note b = deque_inv_buf [OF g(2) ne]
  let ?n = "length (qbuf g)"
  let ?q' = "g\<lparr>qbuf := (qbuf g)[qtail g := e], qtail := dq_next g (qtail g), qcount := qcount g + 1\<rparr>"
  have "PushBack z q e = Inr ?q'" using g(1) b(5) by (simp add: PushBack_def)
  moreover have "deque_inv ?q'"
    using b g(4) deque_inv_minCap [OF g(2)]
    by (intro deque_invI) (simp_all add: dq_next_mod mod_Suc_eq)
  moreover have "dq_list ?q' = dq_list g @ [e]"
    using g(4) b by (simp add: dq_list_def rotate_list_update take_Suc_update)
  ultimately show ?thesis using that g(3) by simp
qed


lemma ring_neq_head:
  fixes h i n :: nat
  assumes "h < n" and "0 < i" and "i < n"
  shows "(h + i) mod n \<noteq> h"
  using mod_shift_eq_iff [of i n 0 h] assms by simp


lemma pop_front_step:
  fixes q :: "'a deque" and z :: 'a
  assumes "deque_inv q" and "dq_list q = x # xs"
  defines "q' \<equiv> q\<lparr>qbuf := (qbuf q)[qhead q := z], qhead := dq_next q (qhead q), qcount := qcount q - 1\<rparr>"
  shows "deque_inv q'" and "dq_list q' = xs" and "qhead q < length (qbuf q)"
    and "qbuf q ! qhead q = x" and "0 < qcount q" and "qminCap q' = qminCap q"
proof -
  have cnt: "qcount q = Suc (length xs)" using length_dq_list_inv [OF assms(1)] assms(2) by simp
  then show pos: "0 < qcount q" by simp
  have ne: "qbuf q \<noteq> []" using deque_inv_nonempty [OF assms(1) pos] .
  note b = deque_inv_buf [OF assms(1) ne]
  show "qhead q < length (qbuf q)" by (rule b(2))
  show "qminCap q' = qminCap q" by (simp add: q'_def)
  let ?n = "length (qbuf q)"
  have nxt: "dq_next q (qhead q) = (qhead q + 1) mod ?n" using b by (simp add: dq_next_mod)
  show inv: "deque_inv q'"
    using b ne deque_inv_minCap [OF assms(1)] mod_add_left_eq [of "Suc (qhead q)" ?n "length xs"]
    by (intro deque_invI) (simp_all add: q'_def nxt cnt)
  have "dq_list q' = tl (dq_list q)"
  proof (rule nth_equalityI)
    show "length (dq_list q') = length (tl (dq_list q))" using inv assms(1) by (simp add: q'_def)
    fix i assume "i < length (dq_list q')"
    then have i: "Suc i < qcount q" using inv by (simp add: q'_def)
    have "(qhead q + Suc i) mod ?n \<noteq> qhead q" using i b by (intro ring_neq_head) auto
    with i b show "dq_list q' ! i = tl (dq_list q) ! i"
      using assms(1) by (simp add: q'_def nth_dq_list nth_tl nxt mod_Suc_eq mod_add_left_eq)
  qed
  then show "dq_list q' = xs" by (simp add: assms(2))
  show "qbuf q ! qhead q = x"
    using nth_dq_list [of q 0] b pos assms(2) by simp
qed

lemma PopFront_spec:
  assumes "deque_inv q" and "dq_list q = x # xs"
  obtains q' where "PopFront z q = Inr (x, q')" and "deque_inv q'" and "dq_list q' = xs"
proof -
  note step = pop_front_step [OF assms]
  from shrinkIfExcess_spec [OF step(1), of z z] step(2) obtain q'
    where "shrinkIfExcess z (q\<lparr>qbuf := (qbuf q)[qhead q := z], qhead := dq_next q (qhead q),
        qcount := qcount q - 1\<rparr>) = Inr q'" "deque_inv q'" "dq_list q' = xs" by metis
  with that [of q'] step(3-5) show ?thesis by (simp add: PopFront_def)
qed

lemma pop_back_step:
  fixes q :: "'a deque" and z :: 'a
  assumes "deque_inv q" and "dq_list q = xs @ [x]"
  defines "t \<equiv> dq_prev q (qtail q)"
  defines "q' \<equiv> q\<lparr>qtail := t, qbuf := (qbuf q)[t := z], qcount := qcount q - 1\<rparr>"
  shows "deque_inv q'" and "dq_list q' = xs" and "t < length (qbuf q)" and "qbuf q ! t = x"
    and "0 < qcount q" and "qminCap q' = qminCap q"
proof -
  have cnt: "qcount q = Suc (length xs)" using length_dq_list_inv [OF assms(1)] assms(2) by simp
  then show pos: "0 < qcount q" by simp
  have ne: "qbuf q \<noteq> []" using deque_inv_nonempty [OF assms(1) pos] .
  note b = deque_inv_buf [OF assms(1) ne]
  let ?n = "length (qbuf q)"
  have t: "t = (qhead q + length xs) mod ?n"
  proof -
    have "t = ((qhead q + Suc (length xs)) mod ?n + (?n - 1)) mod ?n"
      using b cnt unfolding t_def by (simp only: dq_prev_mod)
    also have "\<dots> = (qhead q + Suc (length xs) + (?n - 1)) mod ?n"
      by (rule mod_add_left_eq)
    also have "qhead q + Suc (length xs) + (?n - 1) = qhead q + length xs + ?n"
      using ne by (cases "qbuf q") auto
    finally show ?thesis by simp
  qed
  then show "t < ?n" using ne by simp
  show "qminCap q' = qminCap q" by (simp add: q'_def)
  show "deque_inv q'"
    using b(1-3) cnt deque_inv_minCap [OF assms(1)] by (intro deque_invI) (simp_all add: q'_def t)
  show "dq_list q' = xs"
    using b(1-3) cnt assms(2)
    by (simp add: q'_def t dq_list_def rotate_list_update take_Suc_conv_app_nth)
  show "qbuf q ! t = x"
    using nth_dq_list [of q "length xs"] b(1-3) cnt assms(2) by (simp add: t)
qed

lemma PopBack_spec:
  assumes "deque_inv q" and "dq_list q = xs @ [x]"
  obtains q' where "PopBack z q = Inr (x, q')" and "deque_inv q'" and "dq_list q' = xs"
proof -
  note step = pop_back_step(1,2) [OF assms, of z] and ix = pop_back_step(3-5) [OF assms]
  from shrinkIfExcess_spec [OF step(1), of z] step(2) obtain q'
    where "shrinkIfExcess z (q\<lparr>qtail := dq_prev q (qtail q), qbuf := (qbuf q)[dq_prev q (qtail q) := z],
        qcount := qcount q - 1\<rparr>) = Inr q'" "deque_inv q'" "dq_list q' = xs" by metis
  with that [of q'] ix show ?thesis by (simp add: PopBack_def Let_def)
qed

section \<open>Reading and writing by index\<close>


lemma in_range:
  assumes "deque_inv q" and "i < qcount q"
  shows "real_ix q (int i) = (qhead q + i) mod length (qbuf q)"
    and "real_ix q (int i) < length (qbuf q)"
    and "qbuf q ! real_ix q (int i) = dq_list q ! i"
proof -
  have ne: "qbuf q \<noteq> []" using assms by (intro deque_inv_nonempty) auto
  note b = deque_inv_buf [OF assms(1) ne]
  show ix: "real_ix q (int i) = (qhead q + i) mod length (qbuf q)"
    using b by (simp add: real_ix_mod)
  then show "real_ix q (int i) < length (qbuf q)" using ne by simp
  show "qbuf q ! real_ix q (int i) = dq_list q ! i"
    using assms b by (simp add: ix nth_dq_list)
qed


lemma dq_list_nonempty: "deque_inv q \<Longrightarrow> 0 < qcount q \<Longrightarrow> dq_list q \<noteq> []"
  using length_dq_list_inv [of q] by (cases "dq_list q") auto

lemma Front_spec: "deque_inv q \<Longrightarrow> 0 < qcount q \<Longrightarrow> Front q = Inr (hd (dq_list q))"
  using in_range [of q 0] deque_inv_buf [of q] deque_inv_nonempty [of q]
    length_dq_list_inv [of q]
  by (auto simp: Front_def hd_conv_nth dq_list_nonempty)

lemma back_index:
  assumes "deque_inv q" and "0 < qcount q"
  shows "dq_prev q (qtail q) = (qhead q + (qcount q - 1)) mod length (qbuf q)"
proof -
  have ne: "qbuf q \<noteq> []" using assms by (intro deque_inv_nonempty) auto
  note b = deque_inv_buf [OF assms(1) ne]
  let ?n = "length (qbuf q)"
  have "dq_prev q (qtail q) = ((qhead q + qcount q) mod ?n + (?n - 1)) mod ?n"
    using b by (simp only: dq_prev_mod)
  also have "\<dots> = (qhead q + qcount q + (?n - 1)) mod ?n"
    by (rule mod_add_left_eq)
  also have "qhead q + qcount q + (?n - 1) = qhead q + (qcount q - 1) + ?n"
    using ne assms(2) by (cases "qbuf q") auto
  finally show ?thesis by simp
qed

lemma Back_spec: "deque_inv q \<Longrightarrow> 0 < qcount q \<Longrightarrow> Back q = Inr (last (dq_list q))"
  using in_range [of q "qcount q - 1"] length_dq_list_inv [of q]
  by (auto simp: Back_def back_index last_conv_nth dq_list_nonempty)






section \<open>Insertion and removal in the middle\<close>










section \<open>Bulk operations\<close>

lemma AppendToSlice_spec:
  assumes "deque_inv q \<or> deque_overfull q"
  shows "AppendToSlice q out = Inr (out @ dq_list q)"
proof (cases "qcount q = 0")
  case True
  then show ?thesis by (simp add: AppendToSlice_def dq_list_def)
next
  case False
  then have pos: "0 < qcount q" by simp
  note seg = dq_segments [OF assms pos]
  then show ?thesis using pos by (auto simp: AppendToSlice_def)
qed

lemma CopyOutSlice_spec:
  assumes "deque_inv q \<or> deque_overfull q"
  shows "CopyOutSlice q out = Inr (go_copy out (dq_list q), go_copy_count out (dq_list q))"
proof (cases "qcount q = 0 \<or> length out = 0")
  case True
  then show ?thesis by (auto simp: CopyOutSlice_def dq_list_def go_copy_def go_copy_count_def)
next
  case False
  then have pos: "0 < qcount q" by simp
  note seg = dq_segments [OF assms pos]
  show ?thesis
  proof (cases "qhead q \<ge> qtail q")
    case True
    let ?s1 = "drop (qhead q) (qbuf q)" and ?s2 = "take (qtail q) (qbuf q)"
    have lst: "dq_list q = ?s1 @ ?s2" using seg(1) True by simp
    show ?thesis
    proof (cases "drop (go_copy_count out ?s1) (go_copy out ?s1) = []")
      case full: True
      then have "length out \<le> length ?s1" by (auto simp: go_copy_count_def min_def split: if_splits)
      then show ?thesis
        using False True seg(3) lst full
        by (simp add: CopyOutSlice_def Let_def go_copy_truncates go_copy_count_def)
    next
      case room: False
      then show ?thesis
        using False True seg(3)
        by (simp add: CopyOutSlice_def Let_def lst go_copy_append go_copy_count_append)
    qed
  next
    case lin: False
    with False seg show ?thesis by (simp add: CopyOutSlice_def)
  qed
qed

lemma Clear_spec:
  assumes "deque_inv q \<or> deque_overfull q"
  obtains q' where "Clear z q = Inr q'" and "deque_inv q'" and "dq_list q' = []"
    and "qcount q' = 0" and "length (qbuf q') = length (qbuf q)" and "qminCap q' = qminCap q"
proof (cases "qcount q = 0")
  case True
  then have "deque_inv q" using assms is_pow2_pos [of "length (qbuf q)"] by (auto simp: deque_overfull_def)
  with True that [of q] show ?thesis by (simp add: Clear_def dq_list_def)
next
  case False
  then have pos: "0 < qcount q" by simp
  note seg = dq_segments [OF assms pos]
  have pow: "is_pow2 (length (qbuf q))" and mc: "qminCap q = 0 \<or> is_pow2 (qminCap q)"
    using assms deque_inv_buf(1) [of q] deque_inv_nonempty [of q] pos deque_inv_minCap [of q]
    by (auto simp: deque_overfull_def)
  have "\<exists>b. Clear z q = Inr (q\<lparr>qcount := 0, qhead := 0, qtail := 0, qbuf := b\<rparr>)
     \<and> length b = length (qbuf q)"
    using False seg(2,3) by (auto simp: Clear_def clearSlice_def)
  then obtain b where b: "Clear z q = Inr (q\<lparr>qcount := 0, qhead := 0, qtail := 0, qbuf := b\<rparr>)"
    "length b = length (qbuf q)" by blast
  let ?q' = "q\<lparr>qcount := 0, qhead := 0, qtail := 0, qbuf := b\<rparr>"
  have "deque_inv ?q'" using pow mc b(2) is_pow2_pos [OF pow] by (intro deque_invI) auto
  with b that [of ?q'] show ?thesis by (simp add: dq_list_def)
qed

lemma Grow_spec:
  assumes "deque_inv q"
  obtains q' where "Grow z q (int n) = Some (Inr q')" and "deque_inv q'" and "dq_list q' = dq_list q"
    and "qcount q' + n \<le> length (qbuf q')" and "qcount q' = qcount q" and "qminCap q' = qminCap q"
proof -
  let ?c = "length (qbuf q)" and ?l = "qcount q"
  let ?cap = "if ?c = 0 then minCapacity else ?c"
  have lc: "?l \<le> ?c" using assms by (rule deque_inv_count)
  show ?thesis
  proof (cases "int n \<le> int ?c - int ?l")
    case True
    with that [of q] assms lc show ?thesis by (simp add: Grow_def)
  next
    case False
    have "is_pow2 ?cap"
      using assms deque_inv_buf(1) [of q] is_pow2_power [of 3] by (auto simp: minCapacity_def)
    then obtain c where c: "shl_until ?cap (?l + n) = Some c" "is_pow2 c" "?l + n \<le> c"
      by (rule shl_until_pow2)
    show ?thesis
    proof (cases "?l = 0")
      case True
      let ?q' = "q\<lparr>qbuf := replicate c z, qhead := 0, qtail := 0\<rparr>"
      have "deque_inv ?q'"
        using True c(2) is_pow2_pos [OF c(2)] deque_inv_minCap [OF assms] by (intro deque_invI) auto
      with that [of ?q'] True False c show ?thesis by (simp add: Grow_def Let_def dq_list_def)
    next
      case pos: False
      then have "?l < c" using False c(3) lc by linarith
      with resize_spec [of q c z] assms pos c(2) obtain q' where
        "resize z q c = Inr q'" "deque_inv q'" "dq_list q' = dq_list q" "qcount q' = ?l"
        "length (qbuf q') = c" "qminCap q' = qminCap q" by blast
      with that [of q'] False pos c show ?thesis by (simp add: Grow_def Let_def)
    qed
  qed
qed

text \<open>What a bulk write leaves: a well-formed deque unless the buffer is completely full.\<close>

lemma bulk_write_state:
  assumes "is_pow2 (length b)" and "qminCap q = 0 \<or> is_pow2 (qminCap q)" and "length xs \<le> length b"
    and "q' = q\<lparr>qbuf := go_copy b xs, qcount := go_copy_count b xs, qtail := go_copy_count b xs, qhead := 0\<rparr>"
  shows "dq_list q' = xs"
    and "length xs < length b \<Longrightarrow> deque_inv q'"
    and "length xs = length b \<Longrightarrow> deque_overfull q'"
  using assms is_pow2_pos [OF assms(1)]
  by (auto simp: dq_list_def go_copy_count_def deque_overfull_def min_def intro!: deque_invI)


lemma Copy_spec:
  assumes "deque_inv q" and "deque_inv src \<or> deque_overfull src" and "0 < qcount src"
  obtains q' where "Copy z q src = Some (Inr (q', qcount src))" and "dq_list q' = dq_list src"
    and "qcount src < length (qbuf q') \<Longrightarrow> deque_inv q'"
    and "qcount src = length (qbuf q') \<Longrightarrow> deque_overfull q'"
proof -
  have len: "length (dq_list src) = qcount src"
    using dq_segments(4) [OF assms(2,3)] by (simp add: length_dq_list)
  obtain q1 where q1: "Clear z q = Inr q1" "deque_inv q1" "qcount q1 = 0"
    using Clear_spec [of q z] assms(1) by metis
  obtain q2 where q2: "Grow z q1 (int (qcount src)) = Some (Inr q2)" "deque_inv q2"
    "qcount q2 + qcount src \<le> length (qbuf q2)"
    using Grow_spec [OF q1(2), of z "qcount src"] by metis
  let ?xs = "dq_list src" and ?b = "qbuf q2"
  let ?q' = "q2\<lparr>qbuf := go_copy ?b ?xs, qcount := go_copy_count ?b ?xs,
      qtail := go_copy_count ?b ?xs, qhead := 0\<rparr>"
  have cnt: "go_copy_count ?b ?xs = qcount src" using len q2(3) by (simp add: go_copy_count_def)
  have "?b \<noteq> []" using q2(3) assms(3) by auto
  then have pow: "is_pow2 (length ?b)" using q2(2) by (simp add: deque_inv_buf(1))
  have "Copy z q src = Some (Inr (?q', qcount src))"
    using q1(1) q2(1) CopyOutSlice_spec [OF assms(2), of ?b] cnt by (simp add: Copy_def)
  then show ?thesis
    using that [of ?q'] bulk_write_state [of ?b q2 ?xs ?q'] pow deque_inv_minCap [OF q2(2)] len q2(3)
    by simp
qed

lemma shrinkToFit_spec:
  assumes "deque_inv q" and "0 < qminCap q"
  obtains q' where "shrinkToFit z q = Some (Inr q')" and "dq_list q' = dq_list q"
    and "deque_inv q' \<or> deque_overfull q'"
    and "qcount q < qminCap q \<Longrightarrow> deque_inv q'"
proof (cases "length (qbuf q) > qminCap q \<and> 4 * qcount q \<le> length (qbuf q)")
  case False
  with that [of q] assms show ?thesis by (auto simp: shrinkToFit_def)
next
  case True
  have mc: "is_pow2 (qminCap q)" using deque_inv_minCap [OF assms(1)] assms(2) by simp
  show ?thesis
  proof (cases "qcount q = 0")
    case zero: True
    let ?q' = "q\<lparr>qhead := 0, qtail := 0, qbuf := replicate (qminCap q) z\<rparr>"
    have "deque_inv ?q'" using zero mc assms(2) by (intro deque_invI) auto
    with that [of ?q'] True zero show ?thesis by (simp add: shrinkToFit_def dq_list_def)
  next
    case False
    then have pos: "0 < qcount q" by simp
    from mc obtain c where c: "shl_until (qminCap q) (qcount q) = Some c" "is_pow2 c"
      "qcount q \<le> c" "qminCap q \<le> c" by (rule shl_until_pow2)
    let ?q' = "q\<lparr>qhead := 0, qtail := qcount q, qbuf := dq_list q @ replicate (c - qcount q) z\<rparr>"
    have "resize z q c = Inr ?q'" using assms(1) pos c(3) by (intro resize_ok) auto
    then have eq: "shrinkToFit z q = Some (Inr ?q')"
      using True False c(1) by (simp add: shrinkToFit_def)
    have lst: "dq_list ?q' = dq_list q" using assms(1) by (intro dq_list_linear) auto
    have strong: "qcount q < c \<Longrightarrow> deque_inv ?q'"
      using c mc assms(1) is_pow2_pos [OF c(2)] by (intro deque_invI) auto
    have weak: "qcount q = c \<Longrightarrow> deque_overfull ?q'"
      using c mc assms(1) by (simp add: deque_overfull_def)
    show ?thesis
      using that [of ?q'] eq lst strong weak c(3,4) by (cases "qcount q < c") auto
  qed
qed

section \<open>Rotation and search\<close>











lemma Index_loop_spec:
  "deque_inv q \<Longrightarrow> \<forall>i \<in> set is. i < qcount q \<Longrightarrow>
     Index_loop f q is =
       Inr (case List.find (\<lambda>i. f (dq_list q ! i)) is of None \<Rightarrow> -1 | Some i \<Rightarrow> int i)"
  by (induction "is") (auto simp: in_range(2,3))

lemma Index_spec:
  "deque_inv q \<Longrightarrow> Index f (Some q) =
     Inr (case List.find (\<lambda>i. f (dq_list q ! i)) [0..<qcount q] of None \<Rightarrow> -1 | Some i \<Rightarrow> int i)"
  by (auto simp: Index_def Deque_Len_def Index_loop_spec)

lemma RIndex_spec:
  "deque_inv q \<Longrightarrow> RIndex f (Some q) =
     Inr (case List.find (\<lambda>i. f (dq_list q ! i)) (rev [0..<qcount q]) of None \<Rightarrow> -1 | Some i \<Rightarrow> int i)"
  by (auto simp: RIndex_def Deque_Len_def Index_loop_spec)

section \<open>Iterators\<close>

text \<open>
  A callback that does not change the deque, and the reference loop over a list: the
  elements not consumed and the final state of the callback.
\<close>

definition lift_yield :: "('a \<Rightarrow> 's \<Rightarrow> bool \<times> 's) \<Rightarrow> ('a, 's) yield" where
  "lift_yield y x q s = (fst (y x s), q, snd (y x s))"

fun drain :: "('a \<Rightarrow> 's \<Rightarrow> bool \<times> 's) \<Rightarrow> 'a list \<Rightarrow> 's \<Rightarrow> 'a list \<times> 's" where
  "drain y [] s = ([], s)"
| "drain y (x # xs) s = (if fst (y x s) then drain y xs (snd (y x s)) else (xs, snd (y x s)))"

lemma IterPopFront_loop_spec:
  "deque_inv q \<Longrightarrow> \<exists>q'. IterPopFront_loop z (lift_yield y) q s = Some (Inr (q', snd (drain y (dq_list q) s)))
     \<and> deque_inv q' \<and> dq_list q' = fst (drain y (dq_list q) s) \<and> qminCap q' = qminCap q"
proof (induction "dq_list q" arbitrary: q s)
  case Nil
  then have "qcount q = 0" using length_dq_list_inv [OF Nil.prems] by simp
  with Nil show ?case by (subst IterPopFront_loop.simps) (auto simp: Nil(1) [symmetric])
next
  case (Cons x xs)
  note lst = Cons.hyps(2) [symmetric]
  note step = pop_front_step [OF Cons.prems lst]
  show ?case
  proof (cases "fst (y x s)")
    case True
    from Cons.hyps(1) [OF step(2) [symmetric] step(1), of z "snd (y x s)"]
    show ?thesis
      using step(3-6) True lst step(2) by (subst IterPopFront_loop.simps) (auto simp: lift_yield_def)
  next
    case False
    then show ?thesis
      using step lst by (subst IterPopFront_loop.simps) (auto simp: lift_yield_def)
  qed
qed

lemma IterPopBack_loop_spec:
  "deque_inv q \<Longrightarrow> \<exists>q'. IterPopBack_loop z (lift_yield y) q s = Some (Inr (q', snd (drain y (rev (dq_list q)) s)))
     \<and> deque_inv q' \<and> dq_list q' = rev (fst (drain y (rev (dq_list q)) s)) \<and> qminCap q' = qminCap q"
proof (induction "rev (dq_list q)" arbitrary: q s)
  case Nil
  then have "qcount q = 0" using length_dq_list_inv [OF Nil.prems] by simp
  with Nil show ?case by (subst IterPopBack_loop.simps) auto
next
  case (Cons x xs)
  then have lst: "dq_list q = rev xs @ [x]" by (metis rev.simps(2) rev_swap)
  note step = pop_back_step(1,2,6) [OF Cons.prems lst, of z] and ix = pop_back_step(3-5) [OF Cons.prems lst]
  show ?case
  proof (cases "fst (y x s)")
    case True
    from Cons.hyps(1) [OF _ step(1), of "snd (y x s)"] step(2)
    show ?thesis
      using ix True lst step(2,3) by (subst IterPopBack_loop.simps) (auto simp: lift_yield_def)
  next
    case False
    then show ?thesis
      using step ix lst by (subst IterPopBack_loop.simps) (auto simp: lift_yield_def)
  qed
qed

lemma IterPopFront_spec:
  assumes "deque_inv q" and "0 < qminCap q"
  obtains q' where "IterPopFront z (lift_yield y) q s = Some (Inr (q', snd (drain y (dq_list q) s)))"
    and "deque_inv q' \<or> deque_overfull q'" and "dq_list q' = fst (drain y (dq_list q) s)"
proof (cases "qcount q = 0")
  case True
  with that [of q] assms(1) show ?thesis by (simp add: IterPopFront_def dq_list_def)
next
  case False
  obtain q1 where q1: "IterPopFront_loop z (lift_yield y) q s = Some (Inr (q1, snd (drain y (dq_list q) s)))"
    "deque_inv q1" "dq_list q1 = fst (drain y (dq_list q) s)" "qminCap q1 = qminCap q"
    using IterPopFront_loop_spec [OF assms(1), of z y s] by auto
  have mc: "0 < qminCap q1" using q1(4) assms(2) by simp
  from q1(2) mc show ?thesis
  proof (rule shrinkToFit_spec [of q1 z])
    fix q' assume q': "shrinkToFit z q1 = Some (Inr q')" "dq_list q' = dq_list q1"
      "deque_inv q' \<or> deque_overfull q'"
    show ?thesis
    proof (rule that)
      show "IterPopFront z (lift_yield y) q s = Some (Inr (q', snd (drain y (dq_list q) s)))"
        using q1(1) q'(1) False by (simp add: IterPopFront_def)
    qed (use q' q1(3) in simp_all)
  qed
qed

lemma Iter_loop_spec:
  assumes "deque_inv q"
  shows "i \<le> qcount q \<Longrightarrow> head = (qhead q + i) mod length (qbuf q) \<Longrightarrow>
    Iter_loop (lift_yield y) (qhead q) (qtail q) head i q s
      = Some (Inr (q, snd (drain y (drop i (dq_list q)) s)))"
proof (induction "qcount q - i" arbitrary: i head s)
  case 0
  then show ?case using length_dq_list_inv [OF assms] by (subst Iter_loop.simps) simp
next
  case (Suc n)
  then have i: "i < qcount q" by simp
  have ne: "qbuf q \<noteq> []" using assms i by (intro deque_inv_nonempty) auto
  note b = deque_inv_buf [OF assms ne]
  have drop: "drop i (dq_list q) = dq_list q ! i # drop (Suc i) (dq_list q)"
    using i length_dq_list_inv [OF assms] by (simp add: Cons_nth_drop_Suc)
  have v: "go_nth (qbuf q) head = Inr (dq_list q ! i)"
    using i ne b(3) Suc.prems(2) by (simp add: nth_dq_list)
  have "dq_next q head = (qhead q + Suc i) mod length (qbuf q)"
    using b(1) Suc.prems(2) by (simp add: dq_next_mod mod_Suc_eq)
  then have "Iter_loop (lift_yield y) (qhead q) (qtail q) (dq_next q head) (Suc i) q t
      = Some (Inr (q, snd (drain y (drop (Suc i) (dq_list q)) t)))" for t
    using Suc.hyps(1) [of "Suc i"] Suc.hyps(2) i by simp
  then show ?case
    using i v drop by (subst Iter_loop.simps) (simp add: lift_yield_def)
qed

lemma Iter_spec:
  assumes "deque_inv q"
  shows "Iter (lift_yield y) q s = Some (Inr (q, snd (drain y (dq_list q) s)))"
proof (cases "qbuf q = []")
  case True
  then have "qcount q = 0" using assms by (simp add: deque_inv_def)
  then show ?thesis unfolding Iter_def by (subst Iter_loop.simps) (simp add: dq_list_def)
next
  case False
  then show ?thesis
    using Iter_loop_spec [OF assms, of 0 "qhead q"] deque_inv_buf(2) [OF assms] by (simp add: Iter_def)
qed

text \<open>A callback that moves the head or the tail and asks for more is caught.\<close>

lemma Iter_detects_modification:
  assumes "deque_inv q" and "dq_list q = x # xs"
    and "yield x q s = (True, q', s')" and "qhead q' \<noteq> qhead q \<or> qtail q' \<noteq> qtail q" and "1 < qcount q'"
  shows "Iter yield q s = Some (Inl (Panic ''deque: modified during iteration''))"
proof -
  note step = pop_front_step(3-5) [OF assms(1,2)]
  have "Iter yield q s = Iter_loop yield (qhead q) (qtail q) (dq_next q' (qhead q)) 1 q' s'"
    unfolding Iter_def by (subst Iter_loop.simps) (use step assms(3) in simp)
  also have "\<dots> = Some (Inl (Panic ''deque: modified during iteration''))"
    by (subst Iter_loop.simps) (use assms(4,5) in auto)
  finally show ?thesis .
qed

section \<open>The deque implements a list\<close>






text \<open>One call: the same panic, or the same value and a deque that stands for the new list.\<close>

definition dq_sim :: "('a option \<times> 'a deque) res option \<Rightarrow> ('a option \<times> 'a list) res \<Rightarrow> bool" where
  "dq_sim c a \<longleftrightarrow>
     (case a of
        Inl e \<Rightarrow> c = Some (Inl e)
      | Inr (r, xs) \<Rightarrow> (\<exists>q'. c = Some (Inr (r, q')) \<and> deque_inv q' \<and> dq_list q' = xs))"

lemma dq_sim_simps [simp]:
  "dq_sim c (Inl e) \<longleftrightarrow> c = Some (Inl e)"
  "dq_sim c (Inr (r, xs)) \<longleftrightarrow> (\<exists>q'. c = Some (Inr (r, q')) \<and> deque_inv q' \<and> dq_list q' = xs)"
  by (simp_all add: dq_sim_def)












interpretation dqf: fifo "PushBack z" dq_list deque_inv "PopFront z" for z
proof unfold_locales
  show "deque_inv q \<Longrightarrow> \<exists>q'. PushBack z q x = Inr q' \<and> deque_inv q' \<and> dq_list q' = dq_list q @ [x]"
    for q :: "'a deque" and x by (rule PushBack_spec [of q z x]) auto
  show "deque_inv q \<Longrightarrow> dq_list q = x # xs \<Longrightarrow>
      \<exists>q'. PopFront z q = Inr (x, q') \<and> deque_inv q' \<and> dq_list q' = xs"
    for q :: "'a deque" and x xs by (rule PopFront_spec [of q x xs z]) auto
qed

interpretation dql: lifo "PushBack z" dq_list deque_inv "PopBack z" for z
proof unfold_locales
  show "deque_inv q \<Longrightarrow> dq_list q = xs @ [x] \<Longrightarrow>
      \<exists>q'. PopBack z q = Inr (x, q') \<and> deque_inv q' \<and> dq_list q' = xs"
    for q :: "'a deque" and x xs by (rule PopBack_spec [of q xs x z]) auto
qed

section \<open>States outside the invariant\<close>



section \<open>Properties\<close>


text \<open>
  C32: on a well-formed deque, \<open>PushBack\<close> of any elements followed by as many \<open>PopFront\<close>
  calls as there are elements never panics and returns the old elements and then the new
  ones, in order.
\<close>

theorem deque_fifo_order:
  assumes "deque_inv q"
  shows "\<exists>q' q''. push_all (PushBack z) xs q = Inr q'
    \<and> pop_n (PopFront z) (length (dq_list q) + length xs) q' = Inr (dq_list q @ xs, q'')
    \<and> deque_inv q'' \<and> dq_list q'' = []"
  using assms by (rule dqf.push_pop_order)

theorem deque_fifo_order_witness:
  "\<exists>q' q''. push_all (PushBack 0) [3, 4] (Deque_zero :: nat deque) = Inr q'
    \<and> pop_n (PopFront 0) (length (dq_list (Deque_zero :: nat deque)) + length [3, 4 :: nat]) q'
        = Inr (dq_list Deque_zero @ [3, 4], q'')
    \<and> deque_inv q'' \<and> dq_list q'' = []"
  by (rule deque_fifo_order [OF deque_inv_zero(1)])

text \<open>
  C34: the draining iterator \<open>IterPopFront\<close> with a callback that leaves the deque alone
  returns, hands the elements to the callback from front to back until it declines, and
  leaves exactly the elements not handed out; a base capacity must have been set.
\<close>

theorem iter_pop_front_drains:
  assumes "deque_inv q" and "0 < qminCap q"
  shows "\<exists>q'. IterPopFront z (lift_yield y) q s = Some (Inr (q', snd (drain y (dq_list q) s)))
    \<and> dq_list q' = fst (drain y (dq_list q) s)"
  by (rule IterPopFront_spec [OF assms]) blast

theorem iter_pop_front_drains_witness:
  "\<exists>q'. IterPopFront 0 (lift_yield (\<lambda>x s. (x \<noteq> 2, s @ [x]))) \<lparr>qbuf = [1, 2, 3, 0 :: nat], qhead = 0, qtail = 3, qcount = 3, qminCap = 2\<rparr> []
      = Some (Inr (q', [1, 2])) \<and> dq_list q' = [3]"
proof -
  let ?q = "\<lparr>qbuf = [1, 2, 3, 0 :: nat], qhead = 0, qtail = 3, qcount = 3, qminCap = 2\<rparr>"
  have "length (qbuf ?q) = 2 ^ 2" and "qminCap ?q = 2 ^ 1" by simp_all
  then have "is_pow2 (length (qbuf ?q))" and "is_pow2 (qminCap ?q)" by (metis is_pow2_power)+
  then have "deque_inv ?q" by (intro deque_invI) simp_all
  moreover have "dq_list ?q = [1, 2, 3]" by (simp add: dq_list_def)
  ultimately show ?thesis
    using iter_pop_front_drains [of ?q 0 "\<lambda>x s. (x \<noteq> 2, s @ [x])" "[]"] by simp
qed





end
