(* ===== verification/Go_Queue.thy ===== *)
theory Go_Queue
  imports Seq_Interfaces
begin

text \<open>
  The queue of \<open>src/common/queue/queue.go\<close>: a slice behind a read-write lock, used for the
  delay history of a proxy. \<open>Pop\<close> tests for emptiness before it takes the lock, so it is
  modelled in the two steps the scheduler can separate: \<open>Queue_Pop_check\<close> and
  \<open>Queue_Pop_locked\<close>. Run without interference the queue is a \<open>fifo\<close>; with two concurrent
  \<open>Pop\<close> calls on a queue of one element the second one panics.
\<close>

record 'a queue = items :: "'a list"

definition Queue_New :: "'a queue" where
  "Queue_New = \<lparr>items = []\<rparr>"

definition Queue_Put :: "'a queue \<Rightarrow> 'a list \<Rightarrow> 'a queue" where
  "Queue_Put q new = (if length new = 0 then q else q\<lparr>items := items q @ new\<rparr>)"

definition Queue_Pop_check :: "'a queue \<Rightarrow> bool" where
  "Queue_Pop_check q \<longleftrightarrow> length (items q) = 0"

definition Queue_Pop_locked :: "'a queue \<Rightarrow> ('a \<times> 'a queue) res" where
  "Queue_Pop_locked q =
     rbind (go_nth (items q) 0) (\<lambda>hd.
     rbind (go_slice (items q) 1 (length (items q))) (\<lambda>rest. Inr (hd, q\<lparr>items := rest\<rparr>)))"

definition Queue_Pop :: "'a \<Rightarrow> 'a queue \<Rightarrow> ('a \<times> 'a queue) res" where
  "Queue_Pop z q = (if Queue_Pop_check q then Inr (z, q) else Queue_Pop_locked q)"

definition Queue_Last :: "'a \<Rightarrow> 'a queue \<Rightarrow> 'a res" where
  "Queue_Last z q = (if length (items q) = 0 then Inr z else go_nth (items q) (length (items q) - 1))"

definition Queue_Copy :: "'a queue \<Rightarrow> 'a list" where
  "Queue_Copy q = [] @ items q"

definition Queue_Len :: "'a queue \<Rightarrow> nat" where
  "Queue_Len q = length (items q)"

lemma Queue_Pop_empty: "items q = [] \<Longrightarrow> Queue_Pop z q = Inr (z, q)"
  by (simp add: Queue_Pop_def Queue_Pop_check_def)

lemma Queue_Pop_Cons: "items q = x # xs \<Longrightarrow> Queue_Pop z q = Inr (x, q\<lparr>items := xs\<rparr>)"
  by (simp add: Queue_Pop_def Queue_Pop_check_def Queue_Pop_locked_def)

lemma Queue_Last_eq: "Queue_Last z q = Inr (if items q = [] then z else last (items q))"
  by (auto simp: Queue_Last_def last_conv_nth)

interpretation queue: fifo "\<lambda>q x. Inr (Queue_Put q [x])" items "\<lambda>_. True" "Queue_Pop z" for z
  by unfold_locales (auto simp: Queue_Put_def Queue_Pop_Cons)

text \<open>
  Two goroutines call \<open>Pop\<close> on the same queue: each first runs its unlocked test, then its
  critical section. \<open>pop_pc\<close> says how far a goroutine is.
\<close>

datatype 'a pop_pc = Start | Tested bool | Done 'a | Crashed go_panic

fun pop_advance :: "'a \<Rightarrow> 'a pop_pc \<Rightarrow> 'a queue \<Rightarrow> 'a pop_pc \<times> 'a queue" where
  "pop_advance z Start q = (Tested (Queue_Pop_check q), q)"
| "pop_advance z (Tested True) q = (Done z, q)"
| "pop_advance z (Tested False) q =
     (case Queue_Pop_locked q of Inl e \<Rightarrow> (Crashed e, q) | Inr (x, q') \<Rightarrow> (Done x, q'))"
| "pop_advance z pc q = (pc, q)"

text \<open>A schedule is a list of booleans: \<open>True\<close> lets the first goroutine take its next step.\<close>

fun pop_race :: "'a \<Rightarrow> bool list \<Rightarrow> 'a pop_pc \<times> 'a pop_pc \<times> 'a queue \<Rightarrow> 'a pop_pc \<times> 'a pop_pc \<times> 'a queue" where
  "pop_race z [] st = st"
| "pop_race z (True # sch) (p1, p2, q) = (case pop_advance z p1 q of (p1', q') \<Rightarrow> pop_race z sch (p1', p2, q'))"
| "pop_race z (False # sch) (p1, p2, q) = (case pop_advance z p2 q of (p2', q') \<Rightarrow> pop_race z sch (p1, p2', q'))"

lemma pop_sequential:
  "items q = x # xs \<Longrightarrow> pop_race z [True, True] (Start, p, q) = (Done x, p, q\<lparr>items := xs\<rparr>)"
  by (simp add: Queue_Pop_check_def Queue_Pop_locked_def)

text \<open>
  C29: one goroutine alone reads the queue in the order it was filled: from any queue,
  \<open>Put\<close> of the elements one by one and as many \<open>Pop\<close> calls as there are elements return the
  old elements followed by the new ones and leave the queue empty.
\<close>

theorem queue_fifo_order:
  "\<exists>q' q''. push_all (\<lambda>q x. Inr (Queue_Put q [x])) xs q = Inr q'
    \<and> pop_n (Queue_Pop z) (length (items q) + length xs) q' = Inr (items q @ xs, q'')
    \<and> items q'' = []"
  using queue.push_pop_order [where q = q and xs = xs and z = z] by simp


end
