(* ===== verification/Lru_Cache.thy ===== *)
theory Lru_Cache
  imports Hako_Prelude "HOL-Library.Monad_Syntax"
begin

text \<open>
  The cache of \<open>src/common/lru/lrucache.go\<close>: a map from keys to elements of a doubly linked
  list of entries, least recently used first.

  The linked list is the package \<open>generic-list-go\<close>, which is not part of the repository: its
  operations are the record \<open>list_ops\<close>, an argument of every definition, and what its
  documentation promises is the locale \<open>glist\<close> of \<open>Lru_Spec\<close>. A list element carries an immutable
  value (\<open>l_Value\<close>), here the address of an entry: entries are shared, mutable objects
  (\<open>CloneTo\<close> puts the same entries into another cache), so they live in an explicit heap.
  The eviction callback works on a state of its own (\<open>env\<close>).

  Time is in nanoseconds, as in \<open>time.Time\<close>; \<open>Unix\<close> gives seconds. Each reading of
  \<open>time.Now().Unix()\<close> in a call is an argument of its own (\<open>t0\<close>, \<open>t1\<close>, \dots), in the order
  the code reads the clock. The loops follow list pointers, so the operations are partial:
  \<open>None\<close> is a call that does not return (an endless loop, or \<open>Remove\<close> on a nil element).
  \<open>Lru_Spec\<close> proves that every call returns.
\<close>

record ('l, 'el, 'e) list_ops =
  l_New :: 'l
  l_PushBack :: "'l \<Rightarrow> 'e \<Rightarrow> 'el \<times> 'l"
  l_MoveToBack :: "'l \<Rightarrow> 'el \<Rightarrow> 'l"
  l_Remove :: "'l \<Rightarrow> 'el \<Rightarrow> 'l"
  l_Front :: "'l \<Rightarrow> 'el option"
  l_Next :: "'l \<Rightarrow> 'el \<Rightarrow> 'el option"
  l_Value :: "'el \<Rightarrow> 'e"
  l_Len :: "'l \<Rightarrow> nat"

record ('k, 'v) entry =
  ekey :: 'k
  evalue :: 'v
  eexpires :: int

record ('k, 'v, 's) world =
  heap :: "('k, 'v) entry list"
  env :: 's

record ('k, 'v, 's, 'l, 'el) LruCache =
  maxAge :: int
  maxSize :: int
  cache :: "'k \<Rightarrow> 'el option"
  lru :: 'l
  updateAgeOnGet :: bool
  staleReturn :: bool
  onEvict :: "('k \<Rightarrow> 'v \<Rightarrow> 's \<Rightarrow> 's) option"

section \<open>Time\<close>

definition Unix :: "int \<Rightarrow> int" where
  "Unix t = t div 10 ^ 9"

definition time_Unix :: "int \<Rightarrow> int" where
  "time_Unix sec = sec * 10 ^ 9"

text \<open>The zero \<open>time.Time\<close>: January 1, year 1.\<close>

definition zero_time :: int where
  "zero_time = -62135596800 * 10 ^ 9"

lemma Unix_time_Unix [simp]: "Unix (time_Unix s) = s"
  by (simp add: Unix_def time_Unix_def)

section \<open>Construction\<close>

definition WithEvict :: "('k \<Rightarrow> 'v \<Rightarrow> 's \<Rightarrow> 's) \<Rightarrow> ('k, 'v, 's, 'l, 'el) LruCache \<Rightarrow> ('k, 'v, 's, 'l, 'el) LruCache" where
  "WithEvict cb l = l\<lparr>onEvict := Some cb\<rparr>"

definition WithUpdateAgeOnGet :: "('k, 'v, 's, 'l, 'el) LruCache \<Rightarrow> ('k, 'v, 's, 'l, 'el) LruCache" where
  "WithUpdateAgeOnGet l = l\<lparr>updateAgeOnGet := True\<rparr>"

definition WithAge :: "int \<Rightarrow> ('k, 'v, 's, 'l, 'el) LruCache \<Rightarrow> ('k, 'v, 's, 'l, 'el) LruCache" where
  "WithAge a l = l\<lparr>maxAge := a\<rparr>"

definition WithSize :: "int \<Rightarrow> ('k, 'v, 's, 'l, 'el) LruCache \<Rightarrow> ('k, 'v, 's, 'l, 'el) LruCache" where
  "WithSize n l = l\<lparr>maxSize := n\<rparr>"

definition WithStale :: "bool \<Rightarrow> ('k, 'v, 's, 'l, 'el) LruCache \<Rightarrow> ('k, 'v, 's, 'l, 'el) LruCache" where
  "WithStale stale l = l\<lparr>staleReturn := stale\<rparr>"

definition LruCache_Clear ::
  "('l, 'el, nat) list_ops \<Rightarrow> ('k, 'v, 's, 'l, 'el) LruCache \<Rightarrow> ('k, 'v, 's, 'l, 'el) LruCache" where
  "LruCache_Clear L c = c\<lparr>lru := l_New L, cache := (\<lambda>_. None)\<rparr>"

definition LruCache_New ::
  "('l, 'el, nat) list_ops \<Rightarrow> (('k, 'v, 's, 'l, 'el) LruCache \<Rightarrow> ('k, 'v, 's, 'l, 'el) LruCache) list
     \<Rightarrow> ('k, 'v, 's, 'l, 'el) LruCache" where
  "LruCache_New L options =
     (let lc = LruCache_Clear L
        \<lparr>maxAge = 0, maxSize = 0, cache = (\<lambda>_. None), lru = l_New L, updateAgeOnGet = False,
         staleReturn = False, onEvict = None\<rparr>
      in fold (\<lambda>opt c. opt c) options lc)"

section \<open>Removal and expiry\<close>

type_synonym ('k, 'v, 's, 'l, 'el) lru_state = "('k, 'v, 's) world \<times> ('k, 'v, 's, 'l, 'el) LruCache"

definition deleteElement ::
  "('l, 'el, nat) list_ops \<Rightarrow> 'el \<Rightarrow> ('k, 'v, 's) world \<Rightarrow> ('k, 'v, 's, 'l, 'el) LruCache
     \<Rightarrow> ('k, 'v, 's, 'l, 'el) lru_state" where
  "deleteElement L le w c =
     (let c = c\<lparr>lru := l_Remove L (lru c) le\<rparr>;
          e = heap w ! l_Value L le;
          c = c\<lparr>cache := (cache c)(ekey e := None)\<rparr>
      in (case onEvict c of
            None \<Rightarrow> (w, c)
          | Some cb \<Rightarrow> (w\<lparr>env := cb (ekey e) (evalue e) (env w)\<rparr>, c)))"

partial_function (option) delete_oldest_loop ::
  "('l, 'el, nat) list_ops \<Rightarrow> int \<Rightarrow> ('k, 'v, 's) world \<Rightarrow> ('k, 'v, 's, 'l, 'el) LruCache
     \<Rightarrow> ('k, 'v, 's, 'l, 'el) lru_state option" where
  "delete_oldest_loop L now w c =
     (case l_Front L (lru c) of
        None \<Rightarrow> Some (w, c)
      | Some le \<Rightarrow>
          if eexpires (heap w ! l_Value L le) \<le> now
          then (case deleteElement L le w c of (w, c) \<Rightarrow> delete_oldest_loop L now w c)
          else Some (w, c))"

definition maybeDeleteOldest ::
  "('l, 'el, nat) list_ops \<Rightarrow> int \<Rightarrow> ('k, 'v, 's) world \<Rightarrow> ('k, 'v, 's, 'l, 'el) LruCache
     \<Rightarrow> ('k, 'v, 's, 'l, 'el) lru_state option" where
  "maybeDeleteOldest L now w c =
     (if \<not> staleReturn c \<and> maxAge c > 0 then delete_oldest_loop L now w c else Some (w, c))"

definition lru_delete ::
  "('l, 'el, nat) list_ops \<Rightarrow> 'k \<Rightarrow> ('k, 'v, 's) world \<Rightarrow> ('k, 'v, 's, 'l, 'el) LruCache
     \<Rightarrow> ('k, 'v, 's, 'l, 'el) lru_state" where
  "lru_delete L key w c = (case cache c key of None \<Rightarrow> (w, c) | Some le \<Rightarrow> deleteElement L le w c)"

definition LruCache_Delete ::
  "('l, 'el, nat) list_ops \<Rightarrow> 'k \<Rightarrow> ('k, 'v, 's) world \<Rightarrow> ('k, 'v, 's, 'l, 'el) LruCache
     \<Rightarrow> ('k, 'v, 's, 'l, 'el) lru_state" where
  "LruCache_Delete L key w c = lru_delete L key w c"

section \<open>Reading\<close>

text \<open>The address of the live entry of \<open>key\<close>; \<open>None\<close> is the nil pointer.\<close>

definition lru_get ::
  "('l, 'el, nat) list_ops \<Rightarrow> int \<Rightarrow> int \<Rightarrow> 'k \<Rightarrow> ('k, 'v, 's) world \<Rightarrow> ('k, 'v, 's, 'l, 'el) LruCache
     \<Rightarrow> (nat option \<times> ('k, 'v, 's, 'l, 'el) lru_state) option" where
  "lru_get L t0 t1 key w c =
     (case cache c key of
        None \<Rightarrow> Some (None, w, c)
      | Some le \<Rightarrow>
          if \<not> staleReturn c \<and> maxAge c > 0 \<and> eexpires (heap w ! l_Value L le) \<le> t0 then
            (case deleteElement L le w c of (w, c) \<Rightarrow>
             do { st \<leftarrow> maybeDeleteOldest L t1 w c; Some (None, st) })
          else
            (let c = c\<lparr>lru := l_MoveToBack L (lru c) le\<rparr>;
                 el = l_Value L le;
                 w = (if maxAge c > 0 \<and> updateAgeOnGet c
                      then w\<lparr>heap := (heap w)[el := (heap w ! el)\<lparr>eexpires := t1 + maxAge c\<rparr>]\<rparr>
                      else w)
             in Some (Some el, w, c)))"

definition LruCache_Get ::
  "('l, 'el, nat) list_ops \<Rightarrow> 'v \<Rightarrow> int \<Rightarrow> int \<Rightarrow> 'k \<Rightarrow> ('k, 'v, 's) world \<Rightarrow> ('k, 'v, 's, 'l, 'el) LruCache
     \<Rightarrow> (('v \<times> bool) \<times> ('k, 'v, 's, 'l, 'el) lru_state) option" where
  "LruCache_Get L z t0 t1 key w c = do {
     (el, w, c) \<leftarrow> lru_get L t0 t1 key w c;
     Some (case el of None \<Rightarrow> (z, False) | Some a \<Rightarrow> (evalue (heap w ! a), True), w, c) }"

definition LruCache_GetWithExpire ::
  "('l, 'el, nat) list_ops \<Rightarrow> 'v \<Rightarrow> int \<Rightarrow> int \<Rightarrow> 'k \<Rightarrow> ('k, 'v, 's) world \<Rightarrow> ('k, 'v, 's, 'l, 'el) LruCache
     \<Rightarrow> (('v \<times> int \<times> bool) \<times> ('k, 'v, 's, 'l, 'el) lru_state) option" where
  "LruCache_GetWithExpire L z t0 t1 key w c = do {
     (el, w, c) \<leftarrow> lru_get L t0 t1 key w c;
     Some (case el of
             None \<Rightarrow> (z, zero_time, False)
           | Some a \<Rightarrow> (evalue (heap w ! a), time_Unix (eexpires (heap w ! a)), True), w, c) }"

definition LruCache_Exist :: "'k \<Rightarrow> ('k, 'v, 's, 'l, 'el) LruCache \<Rightarrow> bool" where
  "LruCache_Exist key c = (case cache c key of None \<Rightarrow> False | Some _ \<Rightarrow> True)"

section \<open>Writing\<close>

definition setWithExpire ::
  "('l, 'el, nat) list_ops \<Rightarrow> int \<Rightarrow> 'k \<Rightarrow> 'v \<Rightarrow> int \<Rightarrow> ('k, 'v, 's) world \<Rightarrow> ('k, 'v, 's, 'l, 'el) LruCache
     \<Rightarrow> ('k, 'v, 's, 'l, 'el) lru_state option" where
  "setWithExpire L t key value expires w c =
     (case cache c key of
        Some le \<Rightarrow>
          (let c = c\<lparr>lru := l_MoveToBack L (lru c) le\<rparr>;
               a = l_Value L le;
               w = w\<lparr>heap := (heap w)[a := (heap w ! a)\<lparr>evalue := value, eexpires := Unix expires\<rparr>]\<rparr>
           in maybeDeleteOldest L t w c)
      | None \<Rightarrow>
          (let a = length (heap w);
               w = w\<lparr>heap := heap w @ [\<lparr>ekey = key, evalue = value, eexpires = Unix expires\<rparr>]\<rparr>
           in case l_PushBack L (lru c) a of (el, l) \<Rightarrow>
              (let c = c\<lparr>lru := l, cache := (cache c)(key \<mapsto> el)\<rparr> in do {
                 (w, c) \<leftarrow> (if maxSize c > 0 \<and> int (l_Len L (lru c)) > maxSize c
                            then (case l_Front L (lru c) of
                                    None \<Rightarrow> None
                                  | Some fr \<Rightarrow> Some (deleteElement L fr w c))
                            else Some (w, c));
                 maybeDeleteOldest L t w c })))"

definition lru_set ::
  "('l, 'el, nat) list_ops \<Rightarrow> int \<Rightarrow> int \<Rightarrow> 'k \<Rightarrow> 'v \<Rightarrow> ('k, 'v, 's) world \<Rightarrow> ('k, 'v, 's, 'l, 'el) LruCache
     \<Rightarrow> ('k, 'v, 's, 'l, 'el) lru_state option" where
  "lru_set L t0 t1 key value w c =
     (let expires = (if maxAge c > 0 then t0 + maxAge c else 0)
      in setWithExpire L t1 key value (time_Unix expires) w c)"

definition LruCache_Set ::
  "('l, 'el, nat) list_ops \<Rightarrow> int \<Rightarrow> int \<Rightarrow> 'k \<Rightarrow> 'v \<Rightarrow> ('k, 'v, 's) world \<Rightarrow> ('k, 'v, 's, 'l, 'el) LruCache
     \<Rightarrow> ('k, 'v, 's, 'l, 'el) lru_state option" where
  "LruCache_Set L t0 t1 key value w c = lru_set L t0 t1 key value w c"

definition LruCache_SetWithExpire ::
  "('l, 'el, nat) list_ops \<Rightarrow> int \<Rightarrow> 'k \<Rightarrow> 'v \<Rightarrow> int \<Rightarrow> ('k, 'v, 's) world \<Rightarrow> ('k, 'v, 's, 'l, 'el) LruCache
     \<Rightarrow> ('k, 'v, 's, 'l, 'el) lru_state option" where
  "LruCache_SetWithExpire L t key value expires w c = setWithExpire L t key value expires w c"

definition LruCache_GetOrStore ::
  "('l, 'el, nat) list_ops \<Rightarrow> int \<Rightarrow> int \<Rightarrow> int \<Rightarrow> int \<Rightarrow> 'k \<Rightarrow> 'v \<Rightarrow> ('k, 'v, 's) world
     \<Rightarrow> ('k, 'v, 's, 'l, 'el) LruCache \<Rightarrow> (('v \<times> bool) \<times> ('k, 'v, 's, 'l, 'el) lru_state) option" where
  "LruCache_GetOrStore L t0 t1 t2 t3 key constructed w c = do {
     (el, w, c) \<leftarrow> lru_get L t0 t1 key w c;
     case el of
       None \<Rightarrow> do { st \<leftarrow> lru_set L t2 t3 key constructed w c; Some ((constructed, False), st) }
     | Some a \<Rightarrow> Some ((evalue (heap w ! a), True), w, c) }"

definition LruCache_Compute ::
  "('l, 'el, nat) list_ops \<Rightarrow> 'v \<Rightarrow> int \<Rightarrow> int \<Rightarrow> int \<Rightarrow> int \<Rightarrow> 'k \<Rightarrow> ('v \<Rightarrow> bool \<Rightarrow> 'v \<times> bool)
     \<Rightarrow> ('k, 'v, 's) world \<Rightarrow> ('k, 'v, 's, 'l, 'el) LruCache
     \<Rightarrow> (('v \<times> bool) \<times> ('k, 'v, 's, 'l, 'el) lru_state) option" where
  "LruCache_Compute L z t0 t1 t2 t3 key valueFn w c = do {
     (el, w, c) \<leftarrow> lru_get L t0 t1 key w c;
     let (actual, ok) = (case el of None \<Rightarrow> (z, False) | Some a \<Rightarrow> (evalue (heap w ! a), True));
     case valueFn actual ok of (newValue, del) \<Rightarrow>
       if del then Some ((z, False), if ok then lru_delete L key w c else (w, c))
       else do { st \<leftarrow> lru_set L t2 t3 key newValue w c; Some ((newValue, True), st) } }"

section \<open>Cloning\<close>

text \<open>The entries themselves are shared: only their addresses are pushed to the other list.\<close>

partial_function (option) clone_loop ::
  "('l, 'el, nat) list_ops \<Rightarrow> ('k, 'v, 's) world \<Rightarrow> 'l \<Rightarrow> 'el option
     \<Rightarrow> ('k, 'v, 's, 'l, 'el) LruCache \<Rightarrow> ('k, 'v, 's, 'l, 'el) LruCache option" where
  "clone_loop L w src e n =
     (case e of
        None \<Rightarrow> Some n
      | Some x \<Rightarrow>
          (let elm = l_Value L x in
           case l_PushBack L (lru n) elm of (el, l) \<Rightarrow>
             clone_loop L w src (l_Next L src x)
               (n\<lparr>lru := l, cache := (cache n)(ekey (heap w ! elm) \<mapsto> el)\<rparr>)))"

definition CloneTo ::
  "('l, 'el, nat) list_ops \<Rightarrow> ('k, 'v, 's) world \<Rightarrow> ('k, 'v, 's, 'l, 'el) LruCache
     \<Rightarrow> ('k, 'v, 's, 'l, 'el) LruCache \<Rightarrow> ('k, 'v, 's, 'l, 'el) LruCache option" where
  "CloneTo L w c n =
     clone_loop L w (lru c) (l_Front L (lru c)) (n\<lparr>lru := l_New L, cache := (\<lambda>_. None)\<rparr>)"

end
