(* ===== verification/Lru_Spec.thy ===== *)
theory Lru_Spec
  imports Lru_Cache
begin

text \<open>
  What the cache of \<open>Lru_Cache\<close> promises: the specification on the list of entries ordered from
  the least to the most recently used, the interface \<open>glist\<close> of the linked list package it is
  built on, and the proof, once for every list that keeps that interface, that every operation
  returns and does what the specification says, with the callback run once for every entry
  that leaves.
\<close>

section \<open>The specification\<close>

definition spec_delete :: "'k \<Rightarrow> ('k, 'v) entry list \<Rightarrow> ('k, 'v) entry list" where
  "spec_delete k xs = filter (\<lambda>e. ekey e \<noteq> k) xs"

definition spec_lookup :: "'k \<Rightarrow> ('k, 'v) entry list \<Rightarrow> ('k, 'v) entry option" where
  "spec_lookup k xs = find (\<lambda>e. ekey e = k) xs"

definition ages :: "('k, 'v, 's, 'l, 'el) LruCache \<Rightarrow> bool" where
  "ages c \<longleftrightarrow> \<not> staleReturn c \<and> maxAge c > 0"

text \<open>The remaining entries and the evicted ones.\<close>

definition spec_expire ::
  "('k, 'v, 's, 'l, 'el) LruCache \<Rightarrow> int \<Rightarrow> ('k, 'v) entry list \<Rightarrow> ('k, 'v) entry list \<times> ('k, 'v) entry list" where
  "spec_expire c t xs =
     (if ages c then (dropWhile (\<lambda>e. eexpires e \<le> t) xs, takeWhile (\<lambda>e. eexpires e \<le> t) xs) else (xs, []))"

definition spec_get ::
  "('k, 'v, 's, 'l, 'el) LruCache \<Rightarrow> int \<Rightarrow> int \<Rightarrow> 'k \<Rightarrow> ('k, 'v) entry list
     \<Rightarrow> ('k, 'v) entry option \<times> ('k, 'v) entry list \<times> ('k, 'v) entry list" where
  "spec_get c t0 t1 k xs =
     (case spec_lookup k xs of
        None \<Rightarrow> (None, xs, [])
      | Some e \<Rightarrow>
          if ages c \<and> eexpires e \<le> t0 then
            (case spec_expire c t1 (spec_delete k xs) of (ys, ev) \<Rightarrow> (None, ys, e # ev))
          else
            (let e = (if maxAge c > 0 \<and> updateAgeOnGet c then e\<lparr>eexpires := t1 + maxAge c\<rparr> else e)
             in (Some e, spec_delete k xs @ [e], [])))"

definition spec_set ::
  "('k, 'v, 's, 'l, 'el) LruCache \<Rightarrow> int \<Rightarrow> 'k \<Rightarrow> 'v \<Rightarrow> int \<Rightarrow> ('k, 'v) entry list
     \<Rightarrow> ('k, 'v) entry list \<times> ('k, 'v) entry list" where
  "spec_set c t k v exp xs =
     (let ys = spec_delete k xs @ [\<lparr>ekey = k, evalue = v, eexpires = exp\<rparr>] in
      if spec_lookup k xs = None \<and> maxSize c > 0 \<and> int (length ys) > maxSize c
      then (case spec_expire c t (tl ys) of (zs, ev) \<Rightarrow> (zs, hd ys # ev))
      else spec_expire c t ys)"

definition evict_all ::
  "('k, 'v, 's, 'l, 'el) LruCache \<Rightarrow> ('k, 'v) entry list \<Rightarrow> 's \<Rightarrow> 's" where
  "evict_all c ev s =
     (case onEvict c of None \<Rightarrow> s | Some cb \<Rightarrow> fold (\<lambda>e. cb (ekey e) (evalue e)) ev s)"

lemma evict_all_Nil [simp]: "evict_all c [] s = s"
  by (simp add: evict_all_def split: option.splits)

lemma evict_all_append: "evict_all c (a @ b) s = evict_all c b (evict_all c a s)"
  by (simp add: evict_all_def split: option.splits)

lemma spec_lookup_None_iff: "spec_lookup k xs = None \<longleftrightarrow> k \<notin> ekey ` set xs"
  by (auto simp: spec_lookup_def find_None_iff)

lemma spec_lookup_SomeD: "spec_lookup k xs = Some e \<Longrightarrow> e \<in> set xs \<and> ekey e = k"
  by (auto simp: spec_lookup_def find_Some_iff)

lemma spec_lookup_eq_Some:
  assumes "distinct (map ekey xs)" and "e \<in> set xs"
  shows "spec_lookup (ekey e) xs = Some e"
  using assms by (induction xs) (auto simp: spec_lookup_def)

lemma spec_lookup_append [simp]:
  "spec_lookup k (xs @ ys) = (case spec_lookup k xs of None \<Rightarrow> spec_lookup k ys | Some e \<Rightarrow> Some e)"
  by (induction xs) (auto simp: spec_lookup_def)

lemma spec_lookup_delete [simp]: "spec_lookup k (spec_delete k xs) = None"
  by (auto simp: spec_lookup_None_iff spec_delete_def)

lemma spec_lookup_delete_other [simp]: "k \<noteq> k' \<Longrightarrow> spec_lookup k (spec_delete k' xs) = spec_lookup k xs"
  by (induction xs) (auto simp: spec_lookup_def spec_delete_def)

lemma spec_delete_absent: "spec_lookup k xs = None \<Longrightarrow> spec_delete k xs = xs"
  by (auto simp: spec_lookup_None_iff spec_delete_def filter_id_conv)

section \<open>The interface of the linked list\<close>

locale glist =
  fixes L :: "('l, 'el, nat) list_ops" and labs :: "'l \<Rightarrow> 'el list" and linv :: "'l \<Rightarrow> bool"
  assumes l_New_law: "linv (l_New L)" "labs (l_New L) = []"
    and l_PushBack_law: "linv l \<Longrightarrow> l_PushBack L l v = (el, l') \<Longrightarrow>
      linv l' \<and> labs l' = labs l @ [el] \<and> el \<notin> set (labs l) \<and> l_Value L el = v"
    and l_MoveToBack_law: "linv l \<Longrightarrow> el \<in> set (labs l) \<Longrightarrow>
      linv (l_MoveToBack L l el) \<and> labs (l_MoveToBack L l el) = remove1 el (labs l) @ [el]"
    and l_Remove_law: "linv l \<Longrightarrow> el \<in> set (labs l) \<Longrightarrow>
      linv (l_Remove L l el) \<and> labs (l_Remove L l el) = remove1 el (labs l)"
    and l_Front_law: "linv l \<Longrightarrow> l_Front L l = (case labs l of [] \<Rightarrow> None | x # _ \<Rightarrow> Some x)"
    and l_Next_law: "linv l \<Longrightarrow> labs l = xs @ x # ys \<Longrightarrow>
      l_Next L l x = (case ys of [] \<Rightarrow> None | y # _ \<Rightarrow> Some y)"
    and l_Len_law: "linv l \<Longrightarrow> l_Len L l = length (labs l)"
    and l_distinct_law: "linv l \<Longrightarrow> distinct (labs l)"

text \<open>The entries of a cache in list order, and what relates the map, the list and the heap.\<close>

definition lru_view ::
  "('l, 'el, nat) list_ops \<Rightarrow> ('l \<Rightarrow> 'el list) \<Rightarrow> ('k, 'v, 's) world \<Rightarrow> ('k, 'v, 's, 'l, 'el) LruCache
     \<Rightarrow> ('k, 'v) entry list" where
  "lru_view L labs w c = map (\<lambda>el. heap w ! l_Value L el) (labs (lru c))"

definition lru_inv ::
  "('l, 'el, nat) list_ops \<Rightarrow> ('l \<Rightarrow> 'el list) \<Rightarrow> ('l \<Rightarrow> bool) \<Rightarrow> ('k, 'v, 's) world
     \<Rightarrow> ('k, 'v, 's, 'l, 'el) LruCache \<Rightarrow> bool" where
  "lru_inv L labs linv w c \<longleftrightarrow>
     linv (lru c) \<and> (\<forall>el\<in>set (labs (lru c)). l_Value L el < length (heap w))
     \<and> distinct (map (l_Value L) (labs (lru c))) \<and> distinct (map ekey (lru_view L labs w c))
     \<and> (\<forall>k el. cache c k = Some el \<longleftrightarrow> el \<in> set (labs (lru c)) \<and> ekey (heap w ! l_Value L el) = k)"

definition same_cfg :: "('k, 'v, 's, 'l, 'el) LruCache \<Rightarrow> ('k, 'v, 's, 'l, 'el) LruCache \<Rightarrow> bool" where
  "same_cfg c c' \<longleftrightarrow> maxAge c' = maxAge c \<and> maxSize c' = maxSize c \<and> updateAgeOnGet c' = updateAgeOnGet c
     \<and> staleReturn c' = staleReturn c \<and> onEvict c' = onEvict c"

text \<open>
  The state \<open>(w', c')\<close> after a call on \<open>(w, c)\<close>: well-formed, with the entries \<open>ys\<close>, the callback
  run on \<open>ev\<close> and the options kept.
\<close>

definition lru_post ::
  "('l, 'el, nat) list_ops \<Rightarrow> ('l \<Rightarrow> 'el list) \<Rightarrow> ('l \<Rightarrow> bool) \<Rightarrow> ('k, 'v, 's) world
     \<Rightarrow> ('k, 'v, 's, 'l, 'el) LruCache \<Rightarrow> ('k, 'v) entry list \<times> ('k, 'v) entry list
     \<Rightarrow> ('k, 'v, 's) world \<Rightarrow> ('k, 'v, 's, 'l, 'el) LruCache \<Rightarrow> bool" where
  "lru_post L labs linv w c r w' c' \<longleftrightarrow>
     lru_inv L labs linv w' c' \<and> lru_view L labs w' c' = fst r
     \<and> env w' = evict_all c (snd r) (env w) \<and> same_cfg c c'"

lemma same_cfg_trans: "same_cfg a b \<Longrightarrow> same_cfg b c \<Longrightarrow> same_cfg a c"
  by (simp add: same_cfg_def)

lemma same_cfg_refl [simp]: "same_cfg a a"
  by (simp add: same_cfg_def)

lemma same_cfg_ages: "same_cfg a b \<Longrightarrow> ages b = ages a"
  by (simp add: same_cfg_def ages_def)

lemma same_cfg_evict: "same_cfg a b \<Longrightarrow> evict_all b = evict_all a"
  by (simp add: same_cfg_def evict_all_def fun_eq_iff)

lemma same_cfg_expire: "same_cfg a b \<Longrightarrow> spec_expire b = spec_expire a"
  by (simp add: spec_expire_def same_cfg_ages fun_eq_iff)

lemma same_cfg_size: "same_cfg a b \<Longrightarrow> maxSize b = maxSize a"
  by (simp add: same_cfg_def)

lemma same_cfg_set:
  assumes "same_cfg a b"
  shows "spec_set b = spec_set a"
  unfolding fun_eq_iff spec_set_def same_cfg_expire [OF assms] same_cfg_size [OF assms] by simp

lemma lru_post_refl: "lru_inv L labs linv w c \<Longrightarrow> lru_post L labs linv w c (lru_view L labs w c, []) w c"
  by (simp add: lru_post_def)

lemma lru_post_trans:
  assumes "lru_post L labs linv w c (ys, ev) w1 c1" and "lru_post L labs linv w1 c1 (zs, ev') w2 c2"
  shows "lru_post L labs linv w c (zs, ev @ ev') w2 c2"
  using assms by (auto simp: lru_post_def evict_all_append same_cfg_evict intro: same_cfg_trans)

section \<open>The operations keep the specification\<close>

context glist
begin

abbreviation "cview \<equiv> lru_view L labs"
abbreviation "cinv \<equiv> lru_inv L labs linv"
abbreviation "cpost \<equiv> lru_post L labs linv"

lemma invD:
  assumes "cinv w c"
  shows "linv (lru c)" and "distinct (labs (lru c))"
    and "el \<in> set (labs (lru c)) \<Longrightarrow> l_Value L el < length (heap w)"
    and "inj_on (l_Value L) (set (labs (lru c)))"
    and "distinct (map ekey (cview w c))"
    and "cache c k = Some el \<longleftrightarrow> el \<in> set (labs (lru c)) \<and> ekey (heap w ! l_Value L el) = k"
  using assms l_distinct_law by (auto simp: lru_inv_def distinct_map)

lemma cache_lookup:
  assumes "cinv w c"
  shows "spec_lookup k (cview w c) = map_option (\<lambda>el. heap w ! l_Value L el) (cache c k)"
proof (cases "cache c k")
  case None
  then show ?thesis
    using invD(6) [OF assms, of k] by (auto simp: spec_lookup_None_iff lru_view_def)
next
  case (Some el)
  then have el: "el \<in> set (labs (lru c))" "ekey (heap w ! l_Value L el) = k"
    using invD(6) [OF assms] by auto
  then have "heap w ! l_Value L el \<in> set (cview w c)" by (auto simp: lru_view_def)
  from spec_lookup_eq_Some [OF invD(5) [OF assms] this] el(2) Some show ?thesis by simp
qed

lemma view_delete:
  assumes "cinv w c" and "el \<in> set (labs (lru c))"
  shows "map (\<lambda>el. heap w ! l_Value L el) (remove1 el (labs (lru c)))
    = spec_delete (ekey (heap w ! l_Value L el)) (cview w c)"
proof -
  let ?e = "\<lambda>el. heap w ! l_Value L el"
  have inj: "inj_on (\<lambda>el. ekey (?e el)) (set (labs (lru c)))"
    using invD(5) [OF assms(1)] by (auto simp: lru_view_def distinct_map comp_def)
  have "remove1 el (labs (lru c)) = filter (\<lambda>x. x \<noteq> el) (labs (lru c))"
    using invD(2) [OF assms(1)] by (rule distinct_remove1_removeAll [unfolded removeAll_filter_not_eq, THEN trans])
      (auto intro: filter_cong)
  also have "\<dots> = filter (\<lambda>x. ekey (?e x) \<noteq> ekey (?e el)) (labs (lru c))"
    using inj assms(2) by (intro filter_cong) (auto dest: inj_onD)
  finally show ?thesis by (simp add: spec_delete_def lru_view_def filter_map comp_def)
qed

lemma deleteElement_ok:
  assumes "cinv w c" and "el \<in> set (labs (lru c))"
  shows "\<exists>w' c'. deleteElement L el w c = (w', c')
    \<and> cpost w c (spec_delete (ekey (heap w ! l_Value L el)) (cview w c), [heap w ! l_Value L el]) w' c'
    \<and> heap w' = heap w \<and> labs (lru c') = remove1 el (labs (lru c))"
proof -
  let ?e = "heap w ! l_Value L el"
  let ?c = "c\<lparr>lru := l_Remove L (lru c) el, cache := (cache c)(ekey ?e := None)\<rparr>"
  let ?w = "w\<lparr>env := evict_all c [?e] (env w)\<rparr>"
  have l: "linv (lru ?c)" "labs (lru ?c) = remove1 el (labs (lru c))"
    using l_Remove_law [OF invD(1) [OF assms(1)] assms(2)] by auto
  have set: "set (labs (lru ?c)) = set (labs (lru c)) - {el}"
    using l(2) invD(2) [OF assms(1)] by simp
  have view: "cview ?w ?c = spec_delete (ekey ?e) (cview w c)"
    using view_delete [OF assms] l(2) by (simp add: lru_view_def)
  have "cinv ?w ?c"
    unfolding lru_inv_def
  proof (intro conjI allI)
    show "distinct (map ekey (cview ?w ?c))"
      using invD(5) [OF assms(1)] by (simp add: view spec_delete_def distinct_map_filter)
    show "distinct (map (l_Value L) (labs (lru ?c)))"
      using invD(4) [OF assms(1)] invD(2) [OF assms(1)] l(2) set
      by (auto simp: distinct_map intro: inj_on_subset)
    show "cache ?c k = Some x \<longleftrightarrow> x \<in> set (labs (lru ?c)) \<and> ekey (heap ?w ! l_Value L x) = k" for k x
      using invD(6) [OF assms(1), of k x] invD(6) [OF assms(1), of "ekey ?e" x] invD(6) [OF assms(1), of "ekey ?e" el]
        assms(2) set by auto
  qed (use l(1) set invD(3) [OF assms(1)] in auto)
  moreover have "deleteElement L el w c = (?w, ?c)"
    by (simp add: deleteElement_def evict_all_def Let_def split: option.splits)
  ultimately show ?thesis
    using view l(2) by (auto simp: lru_post_def same_cfg_def)
qed

lemma delete_oldest_loop_ok:
  "cinv w c \<Longrightarrow> ages c \<Longrightarrow>
     \<exists>w' c'. delete_oldest_loop L t w c = Some (w', c') \<and> cpost w c (spec_expire c t (cview w c)) w' c'
       \<and> heap w' = heap w"
proof (induction "length (labs (lru c))" arbitrary: w c rule: less_induct)
  case less
  show ?case
  proof (cases "labs (lru c)")
    case Nil
    then have "delete_oldest_loop L t w c = Some (w, c)"
      using l_Front_law [OF invD(1) [OF less.prems(1)]] by (subst delete_oldest_loop.simps) simp
    with Nil less.prems show ?thesis
      using lru_post_refl [of L labs linv w c] by (auto simp: spec_expire_def lru_view_def)
  next
    case (Cons el els)
    let ?e = "heap w ! l_Value L el"
    have front: "l_Front L (lru c) = Some el" and el: "el \<in> set (labs (lru c))"
      using l_Front_law [OF invD(1) [OF less.prems(1)]] Cons by auto
    have view: "cview w c = ?e # map (\<lambda>el. heap w ! l_Value L el) els"
      using Cons by (simp add: lru_view_def)
    have del: "spec_delete (ekey ?e) (cview w c) = tl (cview w c)"
      using view_delete [OF less.prems(1) el] Cons view by simp
    show ?thesis
    proof (cases "eexpires ?e \<le> t")
      case False
      then have "delete_oldest_loop L t w c = Some (w, c)"
        using front by (subst delete_oldest_loop.simps) simp
      with False view less.prems show ?thesis
        using lru_post_refl [of L labs linv w c] by (auto simp: spec_expire_def)
    next
      case True
      from deleteElement_ok [OF less.prems(1) el] obtain w1 c1 where
        d: "deleteElement L el w c = (w1, c1)" "cpost w c (tl (cview w c), [?e]) w1 c1"
        "heap w1 = heap w" "labs (lru c1) = els"
        using Cons del by auto
      from d(2) have i1: "cinv w1 c1" "cview w1 c1 = tl (cview w c)" "same_cfg c c1"
        by (auto simp: lru_post_def)
      then obtain w2 c2 where r: "delete_oldest_loop L t w1 c1 = Some (w2, c2)"
        "cpost w1 c1 (spec_expire c t (tl (cview w c))) w2 c2" "heap w2 = heap w1"
        using less.hyps [of c1 w1] less.prems(2) d(4) Cons same_cfg_ages [OF i1(3)]
          same_cfg_expire [OF i1(3)] by auto
      have "delete_oldest_loop L t w c = Some (w2, c2)"
        using front True d(1) r(1) by (subst delete_oldest_loop.simps) simp
      moreover have "spec_expire c t (cview w c)
          = (fst (spec_expire c t (tl (cview w c))), [?e] @ snd (spec_expire c t (tl (cview w c))))"
        using True view less.prems(2) by (simp add: spec_expire_def)
      moreover have "cpost w c \<dots> w2 c2"
        using lru_post_trans [OF d(2), of "fst (spec_expire c t (tl (cview w c)))" "snd (spec_expire c t (tl (cview w c)))"] r(2)
        by simp
      ultimately show ?thesis using r(3) d(3) by metis
    qed
  qed
qed

lemma maybeDeleteOldest_ok:
  "cinv w c \<Longrightarrow> \<exists>w' c'. maybeDeleteOldest L t w c = Some (w', c')
     \<and> cpost w c (spec_expire c t (cview w c)) w' c' \<and> heap w' = heap w"
  using delete_oldest_loop_ok [of w c t] lru_post_refl [of L labs linv w c]
  by (cases "ages c") (auto simp: maybeDeleteOldest_def ages_def spec_expire_def)

text \<open>Moving an entry to the back while replacing its value or its expiry.\<close>

lemma touch_ok:
  assumes "cinv w c" and "el \<in> set (labs (lru c))" and "ekey e' = ekey (heap w ! l_Value L el)"
  defines "w' \<equiv> w\<lparr>heap := (heap w)[l_Value L el := e']\<rparr>"
    and "c' \<equiv> c\<lparr>lru := l_MoveToBack L (lru c) el\<rparr>"
  shows "cpost w c (spec_delete (ekey e') (cview w c) @ [e'], []) w' c'"
proof -
  have l: "linv (lru c')" "labs (lru c') = remove1 el (labs (lru c)) @ [el]"
    using l_MoveToBack_law [OF invD(1) [OF assms(1)] assms(2)] by (auto simp: c'_def)
  have set: "set (labs (lru c')) = set (labs (lru c))"
    using l(2) assms(2) invD(2) [OF assms(1)] by auto
  have bound: "l_Value L el < length (heap w)" using invD(3) [OF assms(1,2)] .
  have at: "heap w' ! l_Value L x = (if x = el then e' else heap w ! l_Value L x)"
    if "x \<in> set (labs (lru c))" for x
    using that bound inj_onD [OF invD(4) [OF assms(1)], of x el] assms(2)
    by (auto simp: w'_def nth_list_update)
  have "cview w' c' = map (\<lambda>x. heap w ! l_Value L x) (remove1 el (labs (lru c))) @ [e']"
    using at invD(2) [OF assms(1)] assms(2) by (auto simp: lru_view_def l(2) set_remove1_eq)
  then have view: "cview w' c' = spec_delete (ekey e') (cview w c) @ [e']"
    using view_delete [OF assms(1,2)] assms(3) by simp
  have "cinv w' c'"
    unfolding lru_inv_def
  proof (intro conjI allI)
    show "distinct (map ekey (cview w' c'))"
      using invD(5) [OF assms(1)] by (auto simp: view spec_delete_def distinct_map_filter)
    show "distinct (map (l_Value L) (labs (lru c')))"
      using invD(4) [OF assms(1)] set l_distinct_law [OF l(1)] by (auto simp: distinct_map)
    show "cache c' k = Some x \<longleftrightarrow> x \<in> set (labs (lru c')) \<and> ekey (heap w' ! l_Value L x) = k" for k x
      using invD(6) [OF assms(1), of k x] at [of x] set assms(3) by (auto simp: c'_def split: if_splits)
  qed (use l(1) set invD(3) [OF assms(1)] in \<open>auto simp: w'_def\<close>)
  with view show ?thesis by (simp add: lru_post_def w'_def c'_def same_cfg_def)
qed

lemma push_ok:
  assumes "cinv w c" and "cache c (ekey e) = None" and "l_PushBack L (lru c) (length (heap w)) = (el, l)"
  defines "w' \<equiv> w\<lparr>heap := heap w @ [e]\<rparr>"
    and "c' \<equiv> c\<lparr>lru := l, cache := (cache c)(ekey e \<mapsto> el)\<rparr>"
  shows "cpost w c (cview w c @ [e], []) w' c'"
proof -
  have l: "linv l" "labs l = labs (lru c) @ [el]" "el \<notin> set (labs (lru c))" "l_Value L el = length (heap w)"
    using l_PushBack_law [OF invD(1) [OF assms(1)] assms(3)] by auto
  have at: "heap w' ! l_Value L x = (if x = el then e else heap w ! l_Value L x)"
    if "x \<in> set (labs l)" for x
    using that l invD(3) [OF assms(1), of x] by (auto simp: w'_def nth_append)
  have view: "cview w' c' = cview w c @ [e]"
    using at l(2,3) by (auto simp: lru_view_def c'_def)
  have fresh: "ekey e \<notin> ekey ` set (cview w c)"
    using cache_lookup [OF assms(1), of "ekey e"] assms(2) by (simp add: spec_lookup_None_iff)
  have "cinv w' c'"
    unfolding lru_inv_def
  proof (intro conjI allI)
    show "distinct (map ekey (cview w' c'))"
      using invD(5) [OF assms(1)] fresh by (auto simp: view)
    show "distinct (map (l_Value L) (labs (lru c')))"
      using invD(2,4) [OF assms(1)] invD(3) [OF assms(1)] l by (fastforce simp: c'_def distinct_map)
    show "cache c' k = Some x \<longleftrightarrow> x \<in> set (labs (lru c')) \<and> ekey (heap w' ! l_Value L x) = k" for k x
      using invD(6) [OF assms(1), of k x] at [of x] l(2,3) assms(2) fresh
      by (auto simp: c'_def lru_view_def split: if_splits)
  qed (use l invD(3) [OF assms(1)] in \<open>auto simp: w'_def c'_def less_SucI\<close>)
  with view show ?thesis by (simp add: lru_post_def w'_def c'_def same_cfg_def)
qed

lemma lru_delete_ok:
  assumes "cinv w c"
  shows "\<exists>w' c'. lru_delete L k w c = (w', c')
    \<and> cpost w c (spec_delete k (cview w c), case spec_lookup k (cview w c) of None \<Rightarrow> [] | Some e \<Rightarrow> [e]) w' c'"
proof (cases "cache c k")
  case None
  then have "spec_lookup k (cview w c) = None" using cache_lookup [OF assms] by simp
  with None show ?thesis
    using lru_post_refl [OF assms] by (simp add: lru_delete_def spec_delete_absent)
next
  case (Some el)
  then have "el \<in> set (labs (lru c))" "ekey (heap w ! l_Value L el) = k"
    using invD(6) [OF assms, of k el] by auto
  with deleteElement_ok [OF assms, of el] Some cache_lookup [OF assms, of k] show ?thesis
    by (auto simp: lru_delete_def)
qed

lemma lru_get_ok:
  assumes "cinv w c"
  shows "\<exists>a w' c'. lru_get L t0 t1 k w c = Some (a, w', c')
    \<and> map_option ((!) (heap w')) a = fst (spec_get c t0 t1 k (cview w c))
    \<and> cpost w c (snd (spec_get c t0 t1 k (cview w c))) w' c'"
proof (cases "cache c k")
  case None
  then have "spec_lookup k (cview w c) = None" using cache_lookup [OF assms] by simp
  with None show ?thesis
    using lru_post_refl [OF assms] by (simp add: lru_get_def spec_get_def)
next
  case (Some el)
  let ?e = "heap w ! l_Value L el"
  have el: "el \<in> set (labs (lru c))" "ekey ?e = k"
    using invD(6) [OF assms, of k el] Some by auto
  have look: "spec_lookup k (cview w c) = Some ?e" using cache_lookup [OF assms] Some by simp
  show ?thesis
  proof (cases "ages c \<and> eexpires ?e \<le> t0")
    case True
    from deleteElement_ok [OF assms el(1)] el(2) obtain w1 c1 where
      d: "deleteElement L el w c = (w1, c1)" "cpost w c (spec_delete k (cview w c), [?e]) w1 c1" by auto
    then have i1: "cinv w1 c1" "cview w1 c1 = spec_delete k (cview w c)" "same_cfg c c1"
      by (auto simp: lru_post_def)
    let ?x = "spec_expire c t1 (spec_delete k (cview w c))"
    from maybeDeleteOldest_ok [OF i1(1), of t1] same_cfg_expire [OF i1(3)] i1(2) obtain w2 c2 where
      m: "maybeDeleteOldest L t1 w1 c1 = Some (w2, c2)" "cpost w1 c1 (fst ?x, snd ?x) w2 c2" by auto
    from lru_post_trans [OF d(2) m(2)] m(1) d(1) True look Some show ?thesis
      by (auto simp: lru_get_def spec_get_def ages_def split: prod.splits)
  next
    case False
    let ?e' = "if maxAge c > 0 \<and> updateAgeOnGet c then ?e\<lparr>eexpires := t1 + maxAge c\<rparr> else ?e"
    have key: "ekey ?e' = ekey ?e" by simp
    have bound: "l_Value L el < length (heap w)" using invD(3) [OF assms el(1)] .
    have "lru_get L t0 t1 k w c = Some (Some (l_Value L el),
        w\<lparr>heap := (heap w)[l_Value L el := ?e']\<rparr>, c\<lparr>lru := l_MoveToBack L (lru c) el\<rparr>)"
      using Some False bound by (auto simp: lru_get_def Let_def ages_def)
    moreover have "spec_get c t0 t1 k (cview w c) = (Some ?e', spec_delete k (cview w c) @ [?e'], [])"
      unfolding spec_get_def look using False by (simp only: Let_def option.case if_False)
    ultimately show ?thesis
      using touch_ok [OF assms el(1) key] el(2) bound unfolding key by auto
  qed
qed

lemma setWithExpire_ok:
  assumes "cinv w c"
  shows "\<exists>w' c'. setWithExpire L t k v x w c = Some (w', c')
    \<and> cpost w c (spec_set c t k v (Unix x) (cview w c)) w' c'"
proof -
  let ?e = "\<lparr>ekey = k, evalue = v, eexpires = Unix x\<rparr>"
  let ?ys = "spec_delete k (cview w c) @ [?e]"
  have fin: "\<exists>w' c'. maybeDeleteOldest L t w1 c1 = Some (w', c')
      \<and> cpost w c (fst (spec_expire c t ys), ev @ snd (spec_expire c t ys)) w' c'"
    if p: "cpost w c (ys, ev) w1 c1" for ys ev w1 c1
  proof -
    from p have i1: "cinv w1 c1" "cview w1 c1 = ys" "same_cfg c c1" by (auto simp: lru_post_def)
    from maybeDeleteOldest_ok [OF i1(1), of t] same_cfg_expire [OF i1(3)] i1(2) obtain w2 c2 where
      m: "maybeDeleteOldest L t w1 c1 = Some (w2, c2)"
      "cpost w1 c1 (fst (spec_expire c t ys), snd (spec_expire c t ys)) w2 c2" by auto
    from lru_post_trans [OF p m(2)] m(1) show ?thesis by blast
  qed
  show ?thesis
  proof (cases "cache c k")
    case (Some el)
    let ?e' = "(heap w ! l_Value L el)\<lparr>evalue := v, eexpires := Unix x\<rparr>"
    have el: "el \<in> set (labs (lru c))" "ekey (heap w ! l_Value L el) = k"
      using invD(6) [OF assms, of k el] Some by auto
    have eq: "?e' = ?e" using el(2) by (cases "heap w ! l_Value L el") simp
    have "cpost w c (?ys, []) (w\<lparr>heap := (heap w)[l_Value L el := ?e]\<rparr>) (c\<lparr>lru := l_MoveToBack L (lru c) el\<rparr>)"
      using touch_ok [OF assms el(1), of ?e] el(2) by simp
    from fin [OF this] Some cache_lookup [OF assms, of k] show ?thesis
      by (auto simp: setWithExpire_def spec_set_def Let_def eq)
  next
    case None
    have look: "spec_lookup k (cview w c) = None" using cache_lookup [OF assms] None by simp
    obtain el l where pb: "l_PushBack L (lru c) (length (heap w)) = (el, l)" by fastforce
    let ?w1 = "w\<lparr>heap := heap w @ [?e]\<rparr>" and ?c1 = "c\<lparr>lru := l, cache := (cache c)(k \<mapsto> el)\<rparr>"
    have p: "cpost w c (?ys, []) ?w1 ?c1"
      using push_ok [OF assms, of ?e el l] None pb look by (simp add: spec_delete_absent)
    then have i1: "cinv ?w1 ?c1" "cview ?w1 ?c1 = ?ys" by (auto simp: lru_post_def)
    have len: "l_Len L l = length ?ys"
      using l_Len_law [OF invD(1) [OF i1(1)]] i1(2) by (simp add: lru_view_def) (metis length_map length_append_singleton)
    show ?thesis
    proof (cases "maxSize c > 0 \<and> int (length ?ys) > maxSize c")
      case False
      with fin [OF p] None pb len look show ?thesis
        by (auto simp: setWithExpire_def spec_set_def Let_def)
    next
      case True
      obtain fr els where fr: "labs l = fr # els"
        using i1(2) by (cases "labs l") (auto simp: lru_view_def)
      then have front: "l_Front L l = Some fr" "fr \<in> set (labs l)"
        using l_Front_law [OF invD(1) [OF i1(1)]] by auto
      let ?f = "(heap w @ [?e]) ! l_Value L fr"
      have ys: "?ys = ?f # map (\<lambda>el. (heap w @ [?e]) ! l_Value L el) els"
        using i1(2) fr by (simp add: lru_view_def)
      have tl: "spec_delete (ekey ?f) ?ys = tl ?ys"
        using view_delete [OF i1(1), of fr] fr i1(2) ys by simp
      from deleteElement_ok [OF i1(1), of fr] front(2) i1(2) tl obtain w2 c2 where
        d: "deleteElement L fr ?w1 ?c1 = (w2, c2)" "cpost ?w1 ?c1 (tl ?ys, [?f]) w2 c2" by auto
      have "cpost w c (tl ?ys, [hd ?ys]) w2 c2"
        using lru_post_trans [OF p d(2)] ys by (metis append_Nil list.sel(1))
      from fin [OF this] True None pb len look front(1) d(1) show ?thesis
        by (auto simp: setWithExpire_def spec_set_def Let_def split: prod.splits)
    qed
  qed
qed

lemma lru_set_ok:
  assumes "cinv w c"
  shows "\<exists>w' c'. lru_set L t0 t1 k v w c = Some (w', c')
    \<and> cpost w c (spec_set c t1 k v (if maxAge c > 0 then t0 + maxAge c else 0) (cview w c)) w' c'"
  using setWithExpire_ok [OF assms, of t1 k v "time_Unix (if maxAge c > 0 then t0 + maxAge c else 0)"]
  by (simp add: lru_set_def Let_def)

lemma Clear_ok: "cinv w (LruCache_Clear L c)" "cview w (LruCache_Clear L c) = []" "same_cfg c (LruCache_Clear L c)"
  using l_New_law by (simp_all add: lru_inv_def lru_view_def LruCache_Clear_def same_cfg_def)

lemma Exist_ok: "cinv w c \<Longrightarrow> LruCache_Exist k c \<longleftrightarrow> spec_lookup k (cview w c) \<noteq> None"
  using cache_lookup [of w c k] by (auto simp: LruCache_Exist_def split: option.splits)

text \<open>Cloning: the loop pushes the entries that follow, in order.\<close>

lemma clone_loop_ok:
  assumes "cinv w c"
  shows "labs (lru c) = xs @ ys \<Longrightarrow> cinv w n \<Longrightarrow> map (l_Value L) (labs (lru n)) = map (l_Value L) xs \<Longrightarrow>
    \<exists>n'. clone_loop L w (lru c) (case ys of [] \<Rightarrow> None | y # _ \<Rightarrow> Some y) n = Some n' \<and> cinv w n'
      \<and> map (l_Value L) (labs (lru n')) = map (l_Value L) (labs (lru c)) \<and> same_cfg n n'"
proof (induction ys arbitrary: xs n)
  case Nil
  then show ?case by (subst clone_loop.simps) auto
next
  case (Cons y ys)
  let ?a = "l_Value L y"
  obtain el l where pb: "l_PushBack L (lru n) ?a = (el, l)" by fastforce
  have l: "linv l" "labs l = labs (lru n) @ [el]" "el \<notin> set (labs (lru n))" "l_Value L el = ?a"
    using l_PushBack_law [OF invD(1) [OF Cons.prems(2)] pb] by auto
  let ?n = "n\<lparr>lru := l, cache := (cache n)(ekey (heap w ! ?a) \<mapsto> el)\<rparr>"
  have vals: "map (l_Value L) (labs (lru ?n)) = map (l_Value L) (xs @ [y])"
    using Cons.prems(3) l by simp
  have sub: "distinct (map (l_Value L) (xs @ [y]))" "distinct (map (\<lambda>v. ekey (heap w ! v)) (map (l_Value L) (xs @ [y])))"
    "?a < length (heap w)"
    using assms Cons.prems(1) by (auto simp: lru_inv_def lru_view_def comp_def)
  have view: "map ekey (cview w ?n) = map (\<lambda>v. ekey (heap w ! v)) (map (l_Value L) (xs @ [y]))"
    unfolding vals [symmetric] by (simp add: lru_view_def)
  have "cinv w ?n"
    unfolding lru_inv_def
  proof (intro conjI allI)
    show "distinct (map (l_Value L) (labs (lru ?n)))" using sub(1) vals by metis
    show "distinct (map ekey (cview w ?n))" using sub(2) view by metis
    show "cache ?n k = Some x \<longleftrightarrow> x \<in> set (labs (lru ?n)) \<and> ekey (heap w ! l_Value L x) = k" for k x
    proof -
      have "distinct (map (\<lambda>x. ekey (heap w ! l_Value L x)) (labs (lru n) @ [el]))"
        using sub(2) view l(2) by (simp add: lru_view_def comp_def)
      then have "x \<in> set (labs (lru n)) \<Longrightarrow> ekey (heap w ! l_Value L x) \<noteq> ekey (heap w ! l_Value L el)"
        by (auto simp: image_iff)
      with invD(6) [OF Cons.prems(2), of k x] l(2,3,4) show ?thesis by auto
    qed
  qed (use l sub(3) invD(3) [OF Cons.prems(2)] in auto)
  moreover have "l_Next L (lru c) y = (case ys of [] \<Rightarrow> None | y # _ \<Rightarrow> Some y)"
    using l_Next_law [OF invD(1) [OF assms] Cons.prems(1)] .
  ultimately obtain n' where "clone_loop L w (lru c) (l_Next L (lru c) y) ?n = Some n'" "cinv w n'"
    "map (l_Value L) (labs (lru n')) = map (l_Value L) (labs (lru c))" "same_cfg ?n n'"
    using Cons.IH [of "xs @ [y]" ?n] Cons.prems(1) vals by auto
  then show ?case using pb by (subst clone_loop.simps) (auto simp: same_cfg_def)
qed

lemma CloneTo_ok:
  assumes "cinv w c"
  shows "\<exists>n'. CloneTo L w c n = Some n' \<and> cinv w n'
    \<and> map (l_Value L) (labs (lru n')) = map (l_Value L) (labs (lru c)) \<and> same_cfg n n'"
proof -
  have "cinv w (n\<lparr>lru := l_New L, cache := (\<lambda>_. None)\<rparr>)" "labs (lru (n\<lparr>lru := l_New L, cache := (\<lambda>_. None)\<rparr>)) = []"
    using Clear_ok(1) [of w n] l_New_law by (simp_all add: LruCache_Clear_def)
  from clone_loop_ok [OF assms, of "[]", OF _ this(1)] this(2) show ?thesis
    using l_Front_law [OF invD(1) [OF assms]] by (auto simp: CloneTo_def same_cfg_def)
qed

lemma view_of_values: "cview w c = map ((!) (heap w)) (map (l_Value L) (labs (lru c)))"
  by (simp add: lru_view_def)

end

end
