(* ===== verification/Lru_Properties.thy ===== *)
theory Lru_Properties
  imports Lru_Spec
begin

text \<open>
  Runs of the cache: sequences of calls against the specification, the size bound, the recency
  order, and the entries that a clone shares with its source. An instance of the list
  interface (a counter and a list of numbered elements) shows that it can be met.
\<close>

section \<open>Sequences of calls\<close>

datatype ('k, 'v) lru_op =
  OGet 'k | OGetWithExpire 'k | OExist 'k | OSet 'k 'v | OSetWithExpire 'k 'v int | ODelete 'k
  | OGetOrStore 'k 'v | OCompute 'k "'v \<Rightarrow> bool \<Rightarrow> 'v \<times> bool" | OClear

datatype 'v lru_res = RVal 'v bool | RExp 'v int bool | RBool bool | RUnit

text \<open>Every call comes with the clock readings it may make.\<close>

type_synonym times = "int \<times> int \<times> int \<times> int"

fun lru_step ::
  "('l, 'el, nat) list_ops \<Rightarrow> 'v \<Rightarrow> ('k, 'v) lru_op \<Rightarrow> times \<Rightarrow> ('k, 'v, 's) world \<Rightarrow> ('k, 'v, 's, 'l, 'el) LruCache
     \<Rightarrow> ('v lru_res \<times> ('k, 'v, 's, 'l, 'el) lru_state) option" where
  "lru_step L z (OGet k) (t0, t1, t2, t3) w c =
     do { ((v, ok), st) \<leftarrow> LruCache_Get L z t0 t1 k w c; Some (RVal v ok, st) }"
| "lru_step L z (OGetWithExpire k) (t0, t1, t2, t3) w c =
     do { ((v, x, ok), st) \<leftarrow> LruCache_GetWithExpire L z t0 t1 k w c; Some (RExp v x ok, st) }"
| "lru_step L z (OExist k) ts w c = Some (RBool (LruCache_Exist k c), w, c)"
| "lru_step L z (OSet k v) (t0, t1, t2, t3) w c =
     do { st \<leftarrow> LruCache_Set L t0 t1 k v w c; Some (RUnit, st) }"
| "lru_step L z (OSetWithExpire k v x) (t0, t1, t2, t3) w c =
     do { st \<leftarrow> LruCache_SetWithExpire L t0 k v x w c; Some (RUnit, st) }"
| "lru_step L z (ODelete k) ts w c = Some (RUnit, LruCache_Delete L k w c)"
| "lru_step L z (OGetOrStore k v) (t0, t1, t2, t3) w c =
     do { ((v, ok), st) \<leftarrow> LruCache_GetOrStore L t0 t1 t2 t3 k v w c; Some (RVal v ok, st) }"
| "lru_step L z (OCompute k f) (t0, t1, t2, t3) w c =
     do { ((v, ok), st) \<leftarrow> LruCache_Compute L z t0 t1 t2 t3 k f w c; Some (RVal v ok, st) }"
| "lru_step L z OClear ts w c = Some (RUnit, w, LruCache_Clear L c)"

definition spec_expiry :: "('k, 'v, 's, 'l, 'el) LruCache \<Rightarrow> int \<Rightarrow> int" where
  "spec_expiry c t = (if maxAge c > 0 then t + maxAge c else 0)"

definition spec_value :: "'v \<Rightarrow> ('k, 'v) entry option \<Rightarrow> 'v" where
  "spec_value z e = (case e of None \<Rightarrow> z | Some e \<Rightarrow> evalue e)"

text \<open>The result, the entries after the call and the evicted entries.\<close>

fun spec_step ::
  "('k, 'v, 's, 'l, 'el) LruCache \<Rightarrow> 'v \<Rightarrow> ('k, 'v) lru_op \<Rightarrow> times \<Rightarrow> ('k, 'v) entry list
     \<Rightarrow> 'v lru_res \<times> ('k, 'v) entry list \<times> ('k, 'v) entry list" where
  "spec_step c z (OGet k) (t0, t1, t2, t3) xs =
     (case spec_get c t0 t1 k xs of (e, r) \<Rightarrow> (RVal (spec_value z e) (e \<noteq> None), r))"
| "spec_step c z (OGetWithExpire k) (t0, t1, t2, t3) xs =
     (case spec_get c t0 t1 k xs of (e, r) \<Rightarrow>
       (case e of None \<Rightarrow> RExp z zero_time False | Some e \<Rightarrow> RExp (evalue e) (time_Unix (eexpires e)) True, r))"
| "spec_step c z (OExist k) ts xs = (RBool (spec_lookup k xs \<noteq> None), xs, [])"
| "spec_step c z (OSet k v) (t0, t1, t2, t3) xs = (RUnit, spec_set c t1 k v (spec_expiry c t0) xs)"
| "spec_step c z (OSetWithExpire k v x) (t0, t1, t2, t3) xs = (RUnit, spec_set c t0 k v (Unix x) xs)"
| "spec_step c z (ODelete k) ts xs =
     (RUnit, spec_delete k xs, case spec_lookup k xs of None \<Rightarrow> [] | Some e \<Rightarrow> [e])"
| "spec_step c z (OGetOrStore k v) (t0, t1, t2, t3) xs =
     (case spec_get c t0 t1 k xs of
        (None, ys, ev) \<Rightarrow>
          (case spec_set c t3 k v (spec_expiry c t2) ys of (zs, ev') \<Rightarrow> (RVal v False, zs, ev @ ev'))
      | (Some e, r) \<Rightarrow> (RVal (evalue e) True, r))"
| "spec_step c z (OCompute k f) (t0, t1, t2, t3) xs =
     (case spec_get c t0 t1 k xs of (e, ys, ev) \<Rightarrow>
       (case f (spec_value z e) (e \<noteq> None) of (v, del) \<Rightarrow>
          if del then (RVal z False, spec_delete k ys, ev @ (case e of None \<Rightarrow> [] | Some e \<Rightarrow> [e]))
          else (case spec_set c t3 k v (spec_expiry c t2) ys of (zs, ev') \<Rightarrow> (RVal v True, zs, ev @ ev'))))"
| "spec_step c z OClear ts xs = (RUnit, [], [])"

fun lru_run ::
  "('l, 'el, nat) list_ops \<Rightarrow> 'v \<Rightarrow> (('k, 'v) lru_op \<times> times) list \<Rightarrow> ('k, 'v, 's) world
     \<Rightarrow> ('k, 'v, 's, 'l, 'el) LruCache \<Rightarrow> ('v lru_res list \<times> ('k, 'v, 's, 'l, 'el) lru_state) option" where
  "lru_run L z [] w c = Some ([], w, c)"
| "lru_run L z ((op, ts) # ops) w c = do {
     (r, w, c) \<leftarrow> lru_step L z op ts w c;
     (rs, st) \<leftarrow> lru_run L z ops w c;
     Some (r # rs, st) }"

fun spec_run ::
  "('k, 'v, 's, 'l, 'el) LruCache \<Rightarrow> 'v \<Rightarrow> (('k, 'v) lru_op \<times> times) list \<Rightarrow> ('k, 'v) entry list
     \<Rightarrow> 'v lru_res list \<times> ('k, 'v) entry list \<times> ('k, 'v) entry list" where
  "spec_run c z [] xs = ([], xs, [])"
| "spec_run c z ((op, ts) # ops) xs =
     (case spec_step c z op ts xs of (r, ys, ev) \<Rightarrow>
       (case spec_run c z ops ys of (rs, zs, ev') \<Rightarrow> (r # rs, zs, ev @ ev')))"

lemma same_cfg_get:
  assumes "same_cfg a b"
  shows "spec_get b = spec_get a"
proof -
  have m: "maxAge b = maxAge a" "updateAgeOnGet b = updateAgeOnGet a" using assms by (simp_all add: same_cfg_def)
  show ?thesis
    unfolding fun_eq_iff spec_get_def same_cfg_expire [OF assms] same_cfg_ages [OF assms] m by simp
qed

lemma same_cfg_expiry: "same_cfg a b \<Longrightarrow> spec_expiry b = spec_expiry a"
  by (simp add: same_cfg_def spec_expiry_def fun_eq_iff)

lemma same_cfg_step:
  assumes "same_cfg a b"
  shows "spec_step b z op ts xs = spec_step a z op ts xs"
  by (cases ts; cases op)
    (simp_all only: spec_step.simps same_cfg_get [OF assms] same_cfg_set [OF assms] same_cfg_expiry [OF assms])

lemma same_cfg_run:
  assumes "same_cfg a b"
  shows "spec_run b z ops xs = spec_run a z ops xs"
proof (induction ops arbitrary: xs)
  case (Cons o' ops)
  then show ?case
    by (cases o') (simp add: same_cfg_step [OF assms] split: prod.splits)
qed simp

lemma spec_get_hit: "spec_get c t0 t1 k xs = (Some e, r) \<Longrightarrow> ekey e = k \<and> spec_lookup k (fst r) = Some e"
  using spec_lookup_SomeD [of k xs] spec_lookup_eq_Some [of "[e]" e]
  by (auto simp: spec_get_def Let_def spec_lookup_def [of _ "[_]"] split: option.splits if_splits prod.splits)

section \<open>Every run refines the specification\<close>

context glist
begin

lemma getter_ok:
  assumes "cinv w c"
  obtains a w' c' e r where "lru_get L t0 t1 k w c = Some (a, w', c')"
    and "spec_get c t0 t1 k (cview w c) = (e, r)" and "e = map_option ((!) (heap w')) a"
    and "cpost w c r w' c'"
  using lru_get_ok [OF assms, of t0 t1 k] by (metis prod.collapse)

lemma get_then_set_ok:
  assumes "cpost w c (ys, ev) w1 c1"
  shows "\<exists>w' c'. lru_set L t2 t3 k v w1 c1 = Some (w', c')
    \<and> cpost w c (case spec_set c t3 k v (spec_expiry c t2) ys of (zs, ev') \<Rightarrow> (zs, ev @ ev')) w' c'"
proof -
  have i: "cinv w1 c1" "cview w1 c1 = ys" "same_cfg c c1" using assms by (auto simp: lru_post_def)
  from lru_set_ok [OF i(1), of t2 t3 k v] obtain w' c' where
    "lru_set L t2 t3 k v w1 c1 = Some (w', c')" "cpost w1 c1 (spec_set c t3 k v (spec_expiry c t2) ys) w' c'"
    using i(2) same_cfg_set [OF i(3)] same_cfg_expiry [OF i(3)] by (auto simp: spec_expiry_def fun_eq_iff)
  then show ?thesis using lru_post_trans [OF assms] by (auto split: prod.splits)
qed

lemma GetOrStore_ok:
  assumes "cinv w c"
  shows "\<exists>w' c'. lru_step L z (OGetOrStore k v) (t0, t1, t2, t3) w c
      = Some (fst (spec_step c z (OGetOrStore k v) (t0, t1, t2, t3) (cview w c)), w', c')
    \<and> cpost w c (snd (spec_step c z (OGetOrStore k v) (t0, t1, t2, t3) (cview w c))) w' c'"
proof -
  from assms show ?thesis
  proof (rule getter_ok [where ?t0.0 = t0 and ?t1.0 = t1 and k = k])
    fix a w1 c1 e r
    assume g: "lru_get L t0 t1 k w c = Some (a, w1, c1)" "spec_get c t0 t1 k (cview w c) = (e, r)"
      "e = map_option ((!) (heap w1)) a" "cpost w c r w1 c1"
    obtain ys ev where r: "r = (ys, ev)" by fastforce
    show ?thesis
    proof (cases a)
      case None
      with get_then_set_ok [of w c ys ev w1 c1 t2 t3 k v] g r show ?thesis
        by (auto simp: LruCache_GetOrStore_def split: prod.splits)
    qed (use g r in \<open>auto simp: LruCache_GetOrStore_def\<close>)
  qed
qed

lemma Compute_ok:
  assumes "cinv w c"
  shows "\<exists>w' c'. lru_step L z (OCompute k f) (t0, t1, t2, t3) w c
      = Some (fst (spec_step c z (OCompute k f) (t0, t1, t2, t3) (cview w c)), w', c')
    \<and> cpost w c (snd (spec_step c z (OCompute k f) (t0, t1, t2, t3) (cview w c))) w' c'"
proof -
  from assms show ?thesis
  proof (rule getter_ok [where ?t0.0 = t0 and ?t1.0 = t1 and k = k])
    fix a w1 c1 e r
    assume g: "lru_get L t0 t1 k w c = Some (a, w1, c1)" "spec_get c t0 t1 k (cview w c) = (e, r)"
      "e = map_option ((!) (heap w1)) a" "cpost w c r w1 c1"
    obtain ys ev where r: "r = (ys, ev)" by fastforce
    have i: "cinv w1 c1" "cview w1 c1 = ys" using g(4) r by (auto simp: lru_post_def)
    obtain v del where f: "f (spec_value z e) (e \<noteq> None) = (v, del)" by fastforce
    have "(case a of None \<Rightarrow> (z, False) | Some a \<Rightarrow> (evalue (heap w1 ! a), True)) = (spec_value z e, e \<noteq> None)"
      using g(3) by (cases a) (simp_all add: spec_value_def)
    then have comp: "LruCache_Compute L z t0 t1 t2 t3 k f w c =
        (if del then Some ((z, False), if e \<noteq> None then lru_delete L k w1 c1 else (w1, c1))
         else do { st \<leftarrow> lru_set L t2 t3 k v w1 c1; Some ((v, True), st) })"
      using g(1) f by (simp add: LruCache_Compute_def)
    show ?thesis
    proof (cases del)
      case False
      with get_then_set_ok [of w c ys ev w1 c1 t2 t3 k v] g(2,4) r comp f show ?thesis
        by (auto split: prod.splits)
    next
      case True
      show ?thesis
      proof (cases e)
        case None
        have "spec_lookup k ys = None"
          using g(2) None r by (auto simp: spec_get_def spec_expire_def Let_def spec_lookup_None_iff spec_delete_def
              split: option.splits if_splits prod.splits dest: set_dropWhileD)
        with None True comp f g(2,4) r show ?thesis by (auto simp: spec_delete_absent)
      next
        case (Some e')
        then have "spec_lookup k ys = Some e'" using spec_get_hit [of c t0 t1 k "cview w c" e' r] g(2) r by simp
        with lru_delete_ok [OF i(1), of k] i(2) obtain w2 c2 where
          "lru_delete L k w1 c1 = (w2, c2)" "cpost w1 c1 (spec_delete k ys, [e']) w2 c2" by auto
        with lru_post_trans [of L labs linv w c ys ev w1 c1 "spec_delete k ys" "[e']" w2 c2] Some True comp f g(2,4) r
        show ?thesis by auto
      qed
    qed
  qed
qed

lemma lru_step_ok:
  assumes "cinv w c"
  shows "\<exists>w' c'. lru_step L z op ts w c = Some (fst (spec_step c z op ts (cview w c)), w', c')
    \<and> cpost w c (snd (spec_step c z op ts (cview w c))) w' c'"
proof -
  obtain t0 t1 t2 t3 where ts: "ts = (t0, t1, t2, t3)" by (cases ts) auto
  show ?thesis
  proof (cases op)
    case (OGet k)
    from assms show ?thesis
      by (rule getter_ok [where ?t0.0 = t0 and ?t1.0 = t1 and k = k])
        (auto simp: OGet ts LruCache_Get_def spec_value_def split: option.splits)
  next
    case (OGetWithExpire k)
    from assms show ?thesis
      by (rule getter_ok [where ?t0.0 = t0 and ?t1.0 = t1 and k = k])
        (auto simp: OGetWithExpire ts LruCache_GetWithExpire_def split: option.splits)
  next
    case (OExist k)
    then show ?thesis using Exist_ok [OF assms, of k] lru_post_refl [OF assms] by auto
  next
    case (OSet k v)
    then show ?thesis
      using lru_set_ok [OF assms, of t0 t1 k v] by (auto simp: ts LruCache_Set_def spec_expiry_def)
  next
    case (OSetWithExpire k v x)
    then show ?thesis
      using setWithExpire_ok [OF assms, of t0 k v x] by (auto simp: ts LruCache_SetWithExpire_def)
  next
    case (ODelete k)
    then show ?thesis using lru_delete_ok [OF assms, of k] by (auto simp: LruCache_Delete_def)
  next
    case OClear
    then show ?thesis using Clear_ok(1,2) [of w c] Clear_ok(3) [of c] by (simp add: lru_post_def)
  qed (use GetOrStore_ok [OF assms] Compute_ok [OF assms] ts in blast)+
qed

lemma lru_run_ok:
  "cinv w c \<Longrightarrow> \<exists>w' c'. lru_run L z ops w c = Some (fst (spec_run c z ops (cview w c)), w', c')
    \<and> cpost w c (snd (spec_run c z ops (cview w c))) w' c'"
proof (induction ops arbitrary: w c)
  case Nil
  then show ?case using lru_post_refl by simp
next
  case (Cons o' ops)
  obtain op ts where o: "o' = (op, ts)" by (cases o')
  obtain r ys ev where s: "spec_step c z op ts (cview w c) = (r, ys, ev)" by (metis prod.collapse)
  with lru_step_ok [OF Cons.prems, of z op ts] obtain w1 c1 where
    st: "lru_step L z op ts w c = Some (r, w1, c1)" "cpost w c (ys, ev) w1 c1" by auto
  then have i: "cinv w1 c1" "cview w1 c1 = ys" "same_cfg c c1" by (auto simp: lru_post_def)
  obtain rs zs ev' where t: "spec_run c z ops ys = (rs, zs, ev')" by (metis prod.collapse)
  with Cons.IH [OF i(1)] i(2) same_cfg_run [OF i(3)] obtain w2 c2 where
    "lru_run L z ops w1 c1 = Some (rs, w2, c2)" "cpost w1 c1 (zs, ev') w2 c2" by auto
  with lru_post_trans [OF st(2)] st(1) s t o show ?case by auto
qed

end

section \<open>Facts about the specification\<close>








lemma dropWhile_snoc_keep: "\<not> P x \<Longrightarrow> dropWhile P (xs @ [x]) = dropWhile P xs @ [x]"
  by (induction xs) auto

lemma spec_set_lookup:
  assumes "ages c \<Longrightarrow> t < x"
  shows "spec_lookup k (fst (spec_set c t k v x xs)) = Some \<lparr>ekey = k, evalue = v, eexpires = x\<rparr>"
proof -
  let ?e = "\<lparr>ekey = k, evalue = v, eexpires = x\<rparr>"
  have fin: "spec_lookup k (fst (spec_expire c t (ys @ [?e]))) = Some ?e" if "k \<notin> ekey ` set ys" for ys
  proof -
    have "k \<notin> ekey ` set (dropWhile (\<lambda>e. eexpires e \<le> t) ys)" using that set_dropWhileD by fastforce
    moreover have "ages c \<Longrightarrow> \<not> eexpires ?e \<le> t" using assms by simp
    ultimately show ?thesis
      using that by (auto simp: spec_expire_def dropWhile_snoc_keep spec_lookup_None_iff [symmetric]) (simp_all add: spec_lookup_def)
  qed
  have k: "k \<notin> ekey ` set (spec_delete k xs)" by (auto simp: spec_delete_def)
  show ?thesis
  proof (cases "spec_lookup k xs = None \<and> maxSize c > 0 \<and> int (length (spec_delete k xs @ [?e])) > maxSize c")
    case True
    then obtain y ys where "spec_delete k xs = y # ys" by (cases "spec_delete k xs") auto
    with True fin [of ys] k show ?thesis by (auto simp: spec_set_def Let_def split: prod.splits)
  next
    case False
    with fin [OF k] show ?thesis by (auto simp: spec_set_def Let_def)
  qed
qed

text \<open>Recency: the last \<open>n\<close> elements of a list.\<close>

definition last_n :: "nat \<Rightarrow> 'a list \<Rightarrow> 'a list" where
  "last_n n xs = drop (length xs - n) xs"

lemma last_n_append: "length ys \<le> n \<Longrightarrow> last_n n (xs @ ys) = last_n (n - length ys) xs @ ys"
  by (simp add: last_n_def)

lemma last_n_tl: "length s = Suc m \<Longrightarrow> last_n m (a @ s) = tl s"
  by (simp add: last_n_def drop_Suc)

lemma last_n_split: obtains pre where "xs = pre @ last_n n xs" and "pre \<noteq> [] \<Longrightarrow> length (last_n n xs) = n"
proof
  show "xs = take (length xs - n) xs @ last_n n xs" by (simp add: last_n_def)
  show "take (length xs - n) xs \<noteq> [] \<Longrightarrow> length (last_n n xs) = n" by (auto simp: last_n_def)
qed

lemma remdups_snoc: "remdups (xs @ [k]) = filter (\<lambda>x. x \<noteq> k) (remdups xs) @ [k]"
  by (induction xs) auto

lemma last_n_move:
  assumes "distinct r" and "0 < n"
  shows "last_n n (filter (\<lambda>x. x \<noteq> k) r @ [k]) =
    (let s = last_n n r in
     if k \<in> set s then filter (\<lambda>x. x \<noteq> k) s @ [k]
     else if length s < n then s @ [k] else tl s @ [k])"
proof -
  obtain pre where pre: "r = pre @ last_n n r" "pre \<noteq> [] \<Longrightarrow> length (last_n n r) = n" by (rule last_n_split [of r n]) blast
  let ?s = "last_n n r" and ?f = "filter (\<lambda>x. x \<noteq> k)"
  have eq: "last_n n (?f r @ [k]) = last_n (n - 1) (?f r) @ [k]" using assms(2) by (simp add: last_n_append)
  have r: "?f r = ?f pre @ ?f ?s" using pre(1) by (metis filter_append)
  have len_s: "length ?s \<le> n" by (simp add: last_n_def)
  show ?thesis
  proof (cases "k \<in> set ?s")
    case True
    have "distinct ?s" using assms(1) pre(1) by (metis distinct_append)
    then have "remove1 k ?s = removeAll k ?s" by (rule distinct_remove1_removeAll)
    also have "\<dots> = ?f ?s" unfolding removeAll_filter_not_eq by (rule filter_cong) auto
    finally have len: "length (?f ?s) = length ?s - 1" using True by (metis length_remove1)
    have "last_n (n - 1) (?f r) = ?f ?s"
    proof (cases "pre = []")
      case True
      then show ?thesis using r len len_s by (simp add: last_n_def)
    next
      case False
      then have "length (?f ?s) = n - 1" using pre(2) len by simp
      then show ?thesis using r by (simp add: last_n_def)
    qed
    with eq True show ?thesis by (simp add: Let_def)
  next
    case False
    then have fs: "?f ?s = ?s" by (auto simp: filter_id_conv)
    have "last_n (n - 1) (?f r) = (if length ?s < n then ?s else tl ?s)"
    proof (cases "length ?s < n")
      case True
      then have "pre = []" using pre(2) by auto
      then have "length r < n" using True pre(1) by (metis append_Nil)
      with True r fs \<open>pre = []\<close> show ?thesis by (simp add: last_n_def)
    next
      case False
      then have "length ?s = n" using len_s by simp
      with assms(2) last_n_tl [of ?s "n - 1" "?f pre"] show ?thesis unfolding r fs by simp
    qed
    with eq False show ?thesis by (simp add: Let_def)
  qed
qed

lemma spec_set_keys:
  assumes "\<not> ages c" and "maxSize c = int n" and "0 < n" and "map ekey xs = last_n n (remdups h)"
  shows "map ekey (fst (spec_set c t k v x xs)) = last_n n (remdups (h @ [k]))"
proof -
  have known: "spec_lookup k xs = None \<longleftrightarrow> k \<notin> set (last_n n (remdups h))"
    using assms(4) by (metis list.set_map spec_lookup_None_iff)
  have del: "map ekey (spec_delete k xs) = filter (\<lambda>y. y \<noteq> k) (map ekey xs)"
    by (simp add: spec_delete_def filter_map comp_def)
  have len: "length xs = length (last_n n (remdups h))" using assms(4) by (metis length_map)
  show ?thesis
  proof (cases "spec_lookup k xs = None")
    case False
    then show ?thesis
      using assms known del last_n_move [OF distinct_remdups assms(3), of k h]
      by (auto simp: spec_set_def spec_expire_def remdups_snoc Let_def)
  next
    case True
    have "xs \<noteq> [] \<Longrightarrow> map ekey (tl xs) = tl (last_n n (remdups h))" using assms(4) by (metis map_tl)
    moreover have "length xs \<le> n" by (simp add: len last_n_def)
    ultimately show ?thesis
      using True assms known len spec_delete_absent [OF True] last_n_move [OF distinct_remdups assms(3), of k h]
      by (cases xs) (auto simp: spec_set_def spec_expire_def remdups_snoc Let_def)
  qed
qed

lemma spec_run_sets_keys:
  assumes "\<not> ages c" and "maxSize c = int n" and "0 < n"
  shows "map ekey xs = last_n n (remdups h) \<Longrightarrow>
    map ekey (fst (snd (spec_run c z (map (\<lambda>(k, v, ts). (OSet k v, ts)) sets) xs)))
      = last_n n (remdups (h @ map fst sets))"
proof (induction sets arbitrary: xs h)
  case (Cons s sets)
  obtain k v t0 t1 t2 t3 where s: "s = (k, v, t0, t1, t2, t3)" by (cases s) auto
  have "map ekey (fst (spec_set c t1 k v (spec_expiry c t0) xs)) = last_n n (remdups (h @ [k]))"
    using spec_set_keys [OF assms Cons.prems] .
  from Cons.IH [OF this] show ?case by (auto simp: s split: prod.splits)
qed simp

section \<open>Properties\<close>

text \<open>The options of the constructor change no entries.\<close>

definition is_Option :: "(('k, 'v, 's, 'l, 'el) LruCache \<Rightarrow> ('k, 'v, 's, 'l, 'el) LruCache) \<Rightarrow> bool" where
  "is_Option f \<longleftrightarrow> (\<exists>cb. f = WithEvict cb) \<or> f = WithUpdateAgeOnGet \<or> (\<exists>a. f = WithAge a)
     \<or> (\<exists>n. f = WithSize n) \<or> (\<exists>b. f = WithStale b)"

lemma is_Option_simps [simp]:
  "is_Option (WithEvict cb)" "is_Option WithUpdateAgeOnGet" "is_Option (WithAge a)" "is_Option (WithSize n)"
  "is_Option (WithStale b)"
  by (auto simp: is_Option_def)

lemma New_fold:
  "list_all is_Option opts \<Longrightarrow> lru (fold (\<lambda>opt c. opt c) opts c) = lru c \<and> cache (fold (\<lambda>opt c. opt c) opts c) = cache c"
  by (induction opts arbitrary: c)
    (auto simp: is_Option_def WithEvict_def WithUpdateAgeOnGet_def WithAge_def WithSize_def WithStale_def)

lemma New_ok:
  assumes "glist L labs linv" and "list_all is_Option opts"
  shows "lru_inv L labs linv w (LruCache_New L opts)" and "lru_view L labs w (LruCache_New L opts) = []"
  using New_fold [OF assms(2)] glist.l_New_law [OF assms(1)]
  by (simp_all add: lru_inv_def lru_view_def LruCache_New_def LruCache_Clear_def)

text \<open>An implementation of the list: a counter, and the elements numbered by it.\<close>

definition counted_list :: "(nat \<times> (nat \<times> nat) list, nat \<times> nat, nat) list_ops" where
  "counted_list =
     \<lparr>l_New = (0, []),
      l_PushBack = (\<lambda>(n, xs) v. ((n, v), (Suc n, xs @ [(n, v)]))),
      l_MoveToBack = (\<lambda>(n, xs) el. (n, remove1 el xs @ [el])),
      l_Remove = (\<lambda>(n, xs) el. (n, remove1 el xs)),
      l_Front = (\<lambda>(n, xs). case xs of [] \<Rightarrow> None | x # _ \<Rightarrow> Some x),
      l_Next = (\<lambda>(n, xs) x. case dropWhile (\<lambda>y. y \<noteq> x) xs of _ # y # _ \<Rightarrow> Some y | _ \<Rightarrow> None),
      l_Value = snd,
      l_Len = (\<lambda>(n, xs). length xs)\<rparr>"

definition counted_inv :: "nat \<times> (nat \<times> nat) list \<Rightarrow> bool" where
  "counted_inv l \<longleftrightarrow> distinct (snd l) \<and> (\<forall>x\<in>set (snd l). fst x < fst l)"

lemma counted_next:
  "distinct (xs @ x # ys) \<Longrightarrow> dropWhile (\<lambda>y. y \<noteq> x) (xs @ x # ys) = x # ys"
  by (induction xs) auto

interpretation counted: glist counted_list snd counted_inv
proof
  fix l :: "nat \<times> (nat \<times> nat) list" and xs x ys
  assume l: "counted_inv l" "snd l = xs @ x # ys"
  then have "distinct (xs @ x # ys)" unfolding counted_inv_def by metis
  from counted_next [OF this] have "dropWhile (\<lambda>y. y \<noteq> x) (snd l) = x # ys" unfolding l(2) .
  then show "l_Next counted_list l x = (case ys of [] \<Rightarrow> None | y # _ \<Rightarrow> Some y)"
    by (cases l) (auto simp: counted_list_def split: list.splits)
qed (auto simp: counted_list_def counted_inv_def split: list.splits dest: in_set_remove1, force+)





text \<open>
  C14: a cache of size \<open>n\<close> without expiry keeps exactly the \<open>n\<close> most recently set keys, in the
  order of their last \<open>Set\<close>: the key that leaves is always the least recently used one.
\<close>

theorem lru_keeps_most_recent:
  assumes "glist L labs linv" and "0 < n"
  shows "\<exists>rs w' c'. lru_run L z (map (\<lambda>(k, v, ts). (OSet k v, ts)) sets) \<lparr>heap = [], env = s\<rparr>
      (LruCache_New L [WithSize (int n)]) = Some (rs, w', c')
    \<and> map ekey (lru_view L labs w' c') = last_n n (remdups (map fst sets))
    \<and> (\<forall>k. LruCache_Exist k c' \<longleftrightarrow> k \<in> set (last_n n (remdups (map fst sets))))"
    (is "\<exists>rs w' c'. lru_run L z ?ops ?w ?c = _ \<and> _")
proof -
  have new: "lru_inv L labs linv ?w ?c" "lru_view L labs ?w ?c = []" by (rule New_ok [OF assms(1)], simp)+
  from glist.lru_run_ok [OF assms(1) new(1), of z ?ops] obtain rs w' c' where
    r: "lru_run L z ?ops ?w ?c = Some (rs, w', c')"
    "lru_post L labs linv ?w ?c (snd (spec_run ?c z ?ops [])) w' c'" using new(2) by auto
  have cfg: "\<not> ages ?c" "maxSize ?c = int n"
    by (simp_all add: ages_def LruCache_New_def LruCache_Clear_def WithSize_def)
  have keys: "map ekey (lru_view L labs w' c') = last_n n (remdups (map fst sets))"
    using r(2) spec_run_sets_keys [OF cfg assms(2), of "[]" "[]" z sets] by (simp add: lru_post_def last_n_def)
  moreover have "LruCache_Exist k c' \<longleftrightarrow> k \<in> set (last_n n (remdups (map fst sets)))" for k
    using glist.Exist_ok [OF assms(1), of w' c' k] r(2) keys
    by (metis (no_types, lifting) list.set_map lru_post_def spec_lookup_None_iff)
  ultimately show ?thesis using r(1) by auto
qed

theorem lru_keeps_most_recent_witness:
  "\<exists>rs w' c'. lru_run counted_list (0 :: nat)
      (map (\<lambda>(k, v, ts). (OSet k v, ts)) [(''a'', 1, 0, 0, 0, 0), (''b'', 2, 0, 0, 0, 0), (''a'', 3, 0, 0, 0, 0), (''c'', 4, 0, 0, 0, 0)])
      \<lparr>heap = [], env = ()\<rparr> (LruCache_New counted_list [WithSize (int 2)]) = Some (rs, w', c')
    \<and> map ekey (lru_view counted_list snd w' c') = [''a'', ''c'']
    \<and> (\<forall>k. LruCache_Exist k c' \<longleftrightarrow> k \<in> {''a'', ''c''})"
  using lru_keeps_most_recent [OF counted.glist_axioms, of 2 "0 :: nat"
      "[(''a'', 1, 0, 0, 0, 0), (''b'', 2, 0, 0, 0, 0), (''a'', 3, 0, 0, 0, 0), (''c'', 4, 0, 0, 0, 0)]" "()"]
  by (simp add: last_n_def)

text \<open>
  C37: a clone holds the source's entries, in the same order and whatever its own maximal size,
  but the entries are shared: a \<open>Set\<close> of a present key on the source is seen by \<open>Get\<close> on the
  clone.
\<close>

theorem clone_shares_entries:
  assumes "glist L labs linv" and "lru_inv L labs linv w c" and "maxAge c = 0" and "maxAge n = 0"
    and "LruCache_Exist k c"
  shows "\<exists>n' w1 c1 w2 n2. CloneTo L w c n = Some n' \<and> lru_view L labs w n' = lru_view L labs w c
    \<and> LruCache_Set L t0 t1 k v w c = Some (w1, c1) \<and> LruCache_Get L z t2 t3 k w1 n' = Some ((v, True), w2, n2)"
proof -
  from glist.CloneTo_ok [OF assms(1,2), of n] obtain n' where
    n': "CloneTo L w c n = Some n'" "lru_inv L labs linv w n'" "same_cfg n n'"
    "map (l_Value L) (labs (lru n')) = map (l_Value L) (labs (lru c))" by auto
  have view: "lru_view L labs w n' = lru_view L labs w c"
    using n'(4) by (simp add: glist.view_of_values [OF assms(1)])
  obtain el where el: "cache c k = Some el" using assms(5) by (auto simp: LruCache_Exist_def split: option.splits)
  then have mem: "el \<in> set (labs (lru c))" "ekey (heap w ! l_Value L el) = k"
    using glist.invD(6) [OF assms(1,2)] by auto
  then have "l_Value L el \<in> set (map (l_Value L) (labs (lru n')))" using n'(4) by simp
  then obtain el' where el': "el' \<in> set (labs (lru n'))" "l_Value L el' = l_Value L el" by auto
  then have cn: "cache n' k = Some el'" using glist.invD(6) [OF assms(1) n'(2)] mem(2) by simp
  have bound: "l_Value L el < length (heap w)" using glist.invD(3) [OF assms(1,2) mem(1)] .
  have age: "maxAge n' = 0" using n'(3) assms(4) by (simp add: same_cfg_def)
  let ?w = "w\<lparr>heap := (heap w)[l_Value L el := (heap w ! l_Value L el)\<lparr>evalue := v, eexpires := 0\<rparr>]\<rparr>"
  have "LruCache_Set L t0 t1 k v w c = Some (?w, c\<lparr>lru := l_MoveToBack L (lru c) el\<rparr>)"
    using el assms(3) by (simp add: LruCache_Set_def lru_set_def setWithExpire_def maybeDeleteOldest_def Let_def)
  moreover have "LruCache_Get L z t2 t3 k ?w n' = Some ((v, True), ?w, n'\<lparr>lru := l_MoveToBack L (lru n') el'\<rparr>)"
    using cn age el'(2) bound by (simp add: LruCache_Get_def lru_get_def Let_def)
  ultimately show ?thesis using n'(1) view by blast
qed

theorem clone_shares_entries_witness:
  "\<exists>w c n' w1 c1 w2 n2. LruCache_Set counted_list 0 0 ''a'' (1 :: nat) \<lparr>heap = [], env = ()\<rparr> (LruCache_New counted_list [WithSize 4]) = Some (w, c)
    \<and> CloneTo counted_list w c (LruCache_New counted_list [WithSize 4]) = Some n'
    \<and> LruCache_Set counted_list 0 0 ''a'' 2 w c = Some (w1, c1)
    \<and> LruCache_Get counted_list 0 0 0 ''a'' w1 n' = Some ((2, True), w2, n2)"
    (is "\<exists>w c n' w1 c1 w2 n2. LruCache_Set _ _ _ _ _ ?w ?c = _ \<and> _")
proof -
  have new: "lru_inv counted_list snd counted_inv ?w ?c" "lru_view counted_list snd ?w ?c = []"
    by (rule New_ok [OF counted.glist_axioms], simp)+
  have age: "maxAge ?c = 0" by (simp add: LruCache_New_def LruCache_Clear_def WithSize_def)
  from counted.lru_set_ok [OF new(1), of 0 0 "''a''" "1 :: nat"] obtain w c where
    s: "LruCache_Set counted_list 0 0 ''a'' 1 ?w ?c = Some (w, c)"
    "lru_post counted_list snd counted_inv ?w ?c (spec_set ?c 0 ''a'' 1 0 []) w c"
    unfolding new(2) age LruCache_Set_def by auto
  have "spec_set ?c 0 ''a'' 1 0 [] = ([\<lparr>ekey = ''a'', evalue = 1, eexpires = 0\<rparr>], [])"
    by (simp add: spec_set_def spec_expire_def spec_delete_def spec_lookup_def ages_def
        LruCache_New_def LruCache_Clear_def WithSize_def)
  with s(2) have i: "lru_inv counted_list snd counted_inv w c" "LruCache_Exist ''a'' c" "maxAge c = 0"
    using counted.Exist_ok [of w c "''a''"]
    by (auto simp: lru_post_def spec_lookup_def same_cfg_def LruCache_New_def LruCache_Clear_def WithSize_def)
  have "maxAge (LruCache_New counted_list [WithSize 4]) = 0"
    by (simp add: LruCache_New_def LruCache_Clear_def WithSize_def)
  from clone_shares_entries [OF counted.glist_axioms i(1,3) this i(2), of 0 0 2 0 0 0] s(1) show ?thesis by blast
qed

end
