(* ===== verification/Netip.thy ===== *)
theory Netip
  imports Hako_Prelude
begin

text \<open>
  The part of Go's \<open>net/netip\<close> that the sources use: addresses without zone, their order and
  successors, prefixes, and the byte encoding. The zero \<open>Addr\<close> is \<open>AddrZero\<close>; an IPv4 address
  is a 32-bit word and an IPv6 address a 128-bit word.
\<close>

datatype addr = AddrZero | Addr4 "32 word" | Addr6 "128 word"

definition addr_IsValid :: "addr \<Rightarrow> bool" where
  "addr_IsValid a \<longleftrightarrow> a \<noteq> AddrZero"

fun addr_BitLen :: "addr \<Rightarrow> int" where
  "addr_BitLen AddrZero = 0"
| "addr_BitLen (Addr4 _) = 32"
| "addr_BitLen (Addr6 _) = 128"

fun addr_num :: "addr \<Rightarrow> nat" where
  "addr_num AddrZero = 0"
| "addr_num (Addr4 w) = unat w"
| "addr_num (Addr6 w) = unat w"

definition addr_Is4 :: "addr \<Rightarrow> bool" where
  "addr_Is4 a \<longleftrightarrow> (case a of Addr4 _ \<Rightarrow> True | _ \<Rightarrow> False)"

definition addr_Is6 :: "addr \<Rightarrow> bool" where
  "addr_Is6 a \<longleftrightarrow> (case a of Addr6 _ \<Rightarrow> True | _ \<Rightarrow> False)"

text \<open>\<open>Next\<close> and \<open>Prev\<close> give the zero address past either end.\<close>

fun addr_Next :: "addr \<Rightarrow> addr" where
  "addr_Next AddrZero = AddrZero"
| "addr_Next (Addr4 w) = (if w + 1 = 0 then AddrZero else Addr4 (w + 1))"
| "addr_Next (Addr6 w) = (if w + 1 = 0 then AddrZero else Addr6 (w + 1))"

fun addr_Prev :: "addr \<Rightarrow> addr" where
  "addr_Prev AddrZero = AddrZero"
| "addr_Prev (Addr4 w) = (if w = 0 then AddrZero else Addr4 (w - 1))"
| "addr_Prev (Addr6 w) = (if w = 0 then AddrZero else Addr6 (w - 1))"

definition addr_Less :: "addr \<Rightarrow> addr \<Rightarrow> bool" where
  "addr_Less a b \<longleftrightarrow> addr_BitLen a < addr_BitLen b \<or> (addr_BitLen a = addr_BitLen b \<and> addr_num a < addr_num b)"

text \<open>A prefix with \<open>bits = -1\<close> is the invalid one.\<close>

record prefix =
  pfx_ip :: addr
  pfx_bits :: int

definition prefix_IsValid :: "prefix \<Rightarrow> bool" where
  "prefix_IsValid p \<longleftrightarrow> 0 \<le> pfx_bits p \<and> pfx_bits p \<le> addr_BitLen (pfx_ip p) \<and> addr_IsValid (pfx_ip p)"

fun addr_masked :: "addr \<Rightarrow> nat \<Rightarrow> addr" where
  "addr_masked AddrZero n = AddrZero"
| "addr_masked (Addr4 w) n = Addr4 (push_bit (32 - n) (drop_bit (32 - n) w))"
| "addr_masked (Addr6 w) n = Addr6 (push_bit (128 - n) (drop_bit (128 - n) w))"

definition prefix_Masked :: "prefix \<Rightarrow> prefix" where
  "prefix_Masked p =
     (if prefix_IsValid p then p\<lparr>pfx_ip := addr_masked (pfx_ip p) (nat (pfx_bits p))\<rparr>
      else \<lparr>pfx_ip = AddrZero, pfx_bits = -1\<rparr>)"

definition prefix_Contains :: "prefix \<Rightarrow> addr \<Rightarrow> bool" where
  "prefix_Contains p a \<longleftrightarrow> prefix_IsValid p \<and>
     (case (pfx_ip p, a) of
        (Addr4 v, Addr4 w) \<Rightarrow> drop_bit (32 - nat (pfx_bits p)) (v XOR w) = 0
      | (Addr6 v, Addr6 w) \<Rightarrow> drop_bit (128 - nat (pfx_bits p)) (v XOR w) = 0
      | _ \<Rightarrow> False)"

section \<open>Bytes\<close>

primrec bytes_be :: "nat \<Rightarrow> nat \<Rightarrow> string" where
  "bytes_be 0 n = []"
| "bytes_be (Suc k) n = bytes_be k (n div 256) @ [char_of (n mod 256)]"

definition be_bytes :: "string \<Rightarrow> nat" where
  "be_bytes bs = foldl (\<lambda>a c. 256 * a + of_char c) 0 bs"

fun addr_AsSlice :: "addr \<Rightarrow> string" where
  "addr_AsSlice AddrZero = []"
| "addr_AsSlice (Addr4 w) = bytes_be 4 (unat w)"
| "addr_AsSlice (Addr6 w) = bytes_be 16 (unat w)"

definition AddrFromSlice :: "string \<Rightarrow> addr \<times> bool" where
  "AddrFromSlice bs =
     (if length bs = 4 then (Addr4 (of_nat (be_bytes bs)), True)
      else if length bs = 16 then (Addr6 (of_nat (be_bytes bs)), True)
      else (AddrZero, False))"

lemma length_bytes_be [simp]: "length (bytes_be k n) = k"
  by (induction k arbitrary: n) simp_all

lemma be_bytes_snoc [simp]: "be_bytes (bs @ [c]) = 256 * be_bytes bs + of_char c"
  by (simp add: be_bytes_def)

lemma be_bytes_bytes_be: "be_bytes (bytes_be k n) = n mod 256 ^ k"
proof (induction k arbitrary: n)
  case 0
  then show ?case by (simp add: be_bytes_def)
next
  case (Suc k)
  have "of_char (char_of (n mod 256) :: char) = n mod 256" by simp
  then show ?case
    using Suc [of "n div 256"] mod_mult2_eq [of n 256 "256 ^ k"] by (simp add: algebra_simps)
qed

lemma AddrFromSlice_AsSlice:
  assumes "addr_IsValid a"
  shows "AddrFromSlice (addr_AsSlice a) = (a, True)"
proof (cases a)
  case (Addr4 w)
  have "unat w < 2 ^ LENGTH(32)" by (rule unsigned_less)
  then have "unat w < 256 ^ 4" by simp
  then show ?thesis by (simp add: Addr4 AddrFromSlice_def be_bytes_bytes_be)
next
  case (Addr6 w)
  have "unat w < 2 ^ LENGTH(128)" by (rule unsigned_less)
  then have "unat w < 256 ^ 16" by simp
  then show ?thesis by (simp add: Addr6 AddrFromSlice_def be_bytes_bytes_be)
qed (use assms in \<open>simp add: addr_IsValid_def\<close>)

lemma addr_AsSlice_inject:
  "addr_IsValid a \<Longrightarrow> addr_IsValid b \<Longrightarrow> addr_AsSlice a = addr_AsSlice b \<longleftrightarrow> a = b"
  using AddrFromSlice_AsSlice [of a] AddrFromSlice_AsSlice [of b] by (metis prod.inject)

section \<open>Order and successors\<close>

lemma addr_Less_irrefl [simp]: "\<not> addr_Less a a"
  by (simp add: addr_Less_def)

lemma addr_Less_trans: "addr_Less a b \<Longrightarrow> addr_Less b c \<Longrightarrow> addr_Less a c"
  by (auto simp: addr_Less_def)

lemma addr_Less_linear: "\<not> addr_Less a b \<Longrightarrow> a = b \<or> addr_Less b a"
proof -
  have eq: "v = w" if "\<not> unat v < unat w" "\<not> unat w < unat v" for v w :: "'a::len word"
    using that by (simp add: word_less_nat_alt [symmetric])
  assume "\<not> addr_Less a b"
  then show ?thesis by (cases a; cases b) (auto simp: addr_Less_def intro: eq)
qed

lemma addr_Next_num:
  assumes "addr_IsValid (addr_Next a)"
  shows "addr_num (addr_Next a) = Suc (addr_num a)" and "addr_BitLen (addr_Next a) = addr_BitLen a"
proof -
  have "unat (w + 1) = Suc (unat w)" if "w + 1 \<noteq> 0" for w :: "'a::len word"
    using that by (metis Suc_eq_plus1 unatSuc add.commute)
  then show "addr_num (addr_Next a) = Suc (addr_num a)" "addr_BitLen (addr_Next a) = addr_BitLen a"
    using assms by (cases a; auto simp: addr_IsValid_def split: if_splits)+
qed

lemma addr_Less_Next: "addr_IsValid (addr_Next a) \<Longrightarrow> addr_Less a (addr_Next a)"
  by (simp add: addr_Less_def addr_Next_num)

lemma addr_Less_Next_le: "addr_Less a b \<Longrightarrow> addr_BitLen a = addr_BitLen b \<Longrightarrow> addr_IsValid a
    \<Longrightarrow> addr_IsValid (addr_Next a) \<and> \<not> addr_Less b (addr_Next a)"
proof -
  assume less: "addr_Less a b" and len: "addr_BitLen a = addr_BitLen b" and val: "addr_IsValid a"
  have top: "w + 1 \<noteq> 0" if "unat w < unat v" for v w :: "'a::len word"
  proof
    assume "w + 1 = 0"
    then have "w = - 1" by (simp add: eq_neg_iff_add_eq_0)
    then have "v \<le> w" by simp
    then show False using that by (simp add: word_le_nat_alt)
  qed
  have "addr_IsValid (addr_Next a)"
    using less len val top by (cases a; cases b) (auto simp: addr_Less_def addr_IsValid_def)
  with less len show ?thesis by (simp add: addr_Less_def addr_Next_num)
qed

lemma addr_Next_Prev: "addr_IsValid (addr_Prev a) \<Longrightarrow> addr_Next (addr_Prev a) = a"
  by (cases a) (auto simp: addr_IsValid_def)

lemma addr_Prev_Next: "addr_IsValid (addr_Next a) \<Longrightarrow> addr_Prev (addr_Next a) = a"
  by (cases a) (auto simp: addr_IsValid_def split: if_splits)

lemma addr_Next_BitLen_valid: "addr_IsValid (addr_Next a) \<Longrightarrow> addr_IsValid a"
  by (cases a) (auto simp: addr_IsValid_def)

section \<open>Membership in a prefix\<close>

lemma xor_zero_iff: "v XOR w = 0 \<longleftrightarrow> v = (w :: 'a::len word)"
  by (auto simp: bit_eq_iff bit_xor_iff)

lemma drop_bit_xor_zero: "drop_bit k (v XOR w) = 0 \<longleftrightarrow> drop_bit k v = drop_bit k (w :: 'a::len word)"
  by (simp add: drop_bit_xor xor_zero_iff)

lemma unat_drop_bit: "unat (drop_bit k (w :: 'a::len word)) = unat w div 2 ^ k"
proof -
  have "unat (drop_bit k w) = drop_bit k (take_bit LENGTH('a) (unat w))" by (rule unsigned_drop_bit_eq)
  also have "take_bit LENGTH('a) (unat w) = unat w" by (simp add: take_bit_nat_eq_self unsigned_less)
  finally show ?thesis by (simp add: drop_bit_eq_div)
qed

lemma drop_bit_eq_iff: "drop_bit k v = drop_bit k (w :: 'a::len word) \<longleftrightarrow> unat v div 2 ^ k = unat w div 2 ^ k"
  by (metis unat_drop_bit word_eq_iff_unsigned)

lemma drop_bit_or_mask: "drop_bit k (w OR mask k) = drop_bit k (w :: 'a::len word)"
  by (auto simp: bit_eq_iff bit_drop_bit_eq bit_or_iff bit_mask_iff)

lemma word_le_or: "w \<le> w OR (v :: 'a::len word)"
  by (simp add: word_le_def unsigned_or_eq or_greater_eq)

lemma or_mask_greatest:
  fixes v w :: "'a::len word"
  assumes "drop_bit k v = drop_bit k w"
  shows "\<not> unat (v OR mask k) < unat w"
proof -
  have bits: "bit v n \<longleftrightarrow> bit w n" if "k \<le> n" for n
    using assms that by (metis bit_drop_bit_eq comp_apply le_add_diff_inverse)
  have "w OR (v OR mask k) = v OR mask k"
    by (rule bit_word_eqI) (auto simp: bit_or_iff bit_mask_iff not_le bits)
  then have "w \<le> v OR mask k" using word_le_or [of w "v OR mask k"] by simp
  then show ?thesis by (simp add: word_le_nat_alt)
qed

lemma contains_BitLen: "prefix_Contains p a \<Longrightarrow> addr_BitLen a = addr_BitLen (pfx_ip p)"
  by (auto simp: prefix_Contains_def split: addr.splits)

lemma contains4_iff:
  assumes "prefix_IsValid p" and "pfx_ip p = Addr4 v"
  shows "prefix_Contains p (Addr4 w) \<longleftrightarrow>
    unat v div 2 ^ (32 - nat (pfx_bits p)) = unat w div 2 ^ (32 - nat (pfx_bits p))"
  unfolding prefix_Contains_def using assms drop_bit_xor_zero [of "32 - nat (pfx_bits p)" v w]
  by (simp add: drop_bit_eq_iff)

lemma unat_masked4: "addr_num (addr_masked (Addr4 v) b) = unat v div 2 ^ (32 - b) * 2 ^ (32 - b)"
proof -
  have "unat (push_bit k (drop_bit k v)) = unat v div 2 ^ k * 2 ^ k" for k
  proof -
    have "unat (push_bit k (drop_bit k v)) = take_bit 32 (push_bit k (unat (drop_bit k v)))"
      by (simp add: unsigned_push_bit_eq)
    also have "\<dots> = take_bit 32 (unat v div 2 ^ k * 2 ^ k)" by (simp add: push_bit_eq_mult unat_drop_bit)
    also have "\<dots> = unat v div 2 ^ k * 2 ^ k"
    proof (rule take_bit_nat_eq_self)
      have "unat v div 2 ^ k * 2 ^ k \<le> unat v" by (rule div_times_less_eq_dividend)
      also have "unat v < 2 ^ LENGTH(32)" by (rule unsigned_less)
      finally show "unat v div 2 ^ k * 2 ^ k < 2 ^ 32" by simp
    qed
    finally show ?thesis .
  qed
  then show ?thesis by simp
qed

lemma masked_BitLen [simp]: "addr_BitLen (addr_masked a n) = addr_BitLen a"
  by (cases a) simp_all

end
