(* ===== verification/Netip_Text.thy ===== *)
theory Netip_Text
  imports Netip Go_Strings
begin

text \<open>
  The text side of Go's \<open>net/netip\<close> that the rules use: \<open>ParseAddr\<close>, \<open>ParsePrefix\<close>, the \<open>String\<close>
  methods, \<open>Unmap\<close> and the classification of addresses. \<open>parse6\<close> is the loop of \<open>parseIPv6\<close> over
  the groups of an address; parse errors are \<open>None\<close>.
\<close>

section \<open>Classes of addresses\<close>

definition addr_Is4In6 :: "addr \<Rightarrow> bool" where
  "addr_Is4In6 a \<longleftrightarrow> (case a of Addr6 w \<Rightarrow> drop_bit 32 w = 0xffff | _ \<Rightarrow> False)"

definition addr_Unmap :: "addr \<Rightarrow> addr" where
  "addr_Unmap a = (case a of Addr6 w \<Rightarrow> if addr_Is4In6 a then Addr4 (ucast w) else a | _ \<Rightarrow> a)"

definition addr_IsUnspecified :: "addr \<Rightarrow> bool" where
  "addr_IsUnspecified a \<longleftrightarrow> a = Addr4 0 \<or> a = Addr6 0"

definition addr_IsLoopback :: "addr \<Rightarrow> bool" where
  "addr_IsLoopback a =
     (case addr_Unmap a of Addr4 w \<Rightarrow> drop_bit 24 w = 127 | Addr6 w \<Rightarrow> w = 1 | AddrZero \<Rightarrow> False)"

definition addr_IsMulticast :: "addr \<Rightarrow> bool" where
  "addr_IsMulticast a =
     (case addr_Unmap a of
        Addr4 w \<Rightarrow> drop_bit 28 w = 0xe | Addr6 w \<Rightarrow> drop_bit 120 w = 0xff | AddrZero \<Rightarrow> False)"

definition addr_IsLinkLocalUnicast :: "addr \<Rightarrow> bool" where
  "addr_IsLinkLocalUnicast a =
     (case addr_Unmap a of
        Addr4 w \<Rightarrow> drop_bit 16 w = 0xa9fe | Addr6 w \<Rightarrow> drop_bit 118 w = 0x3fa | AddrZero \<Rightarrow> False)"

definition addr_IsPrivate :: "addr \<Rightarrow> bool" where
  "addr_IsPrivate a =
     (case addr_Unmap a of
        Addr4 w \<Rightarrow> drop_bit 24 w = 10 \<or> drop_bit 20 w = 0xac1 \<or> drop_bit 16 w = 0xc0a8
      | Addr6 w \<Rightarrow> drop_bit 121 w = 0x7e
      | AddrZero \<Rightarrow> False)"

section \<open>Parsing\<close>

definition octet :: "string \<Rightarrow> nat option" where
  "octet s =
     (if s \<noteq> [] \<and> list_all is_digit s \<and> (length s = 1 \<or> hd s \<noteq> CHR ''0'') \<and> dec_val s \<le> 255
      then Some (dec_val s) else None)"

definition parse4 :: "string \<Rightarrow> nat option" where
  "parse4 s =
     (case map octet (Split s CHR ''.'') of
        [Some a, Some b, Some c, Some d] \<Rightarrow> Some (((a * 256 + b) * 256 + c) * 256 + d)
      | _ \<Rightarrow> None)"

definition is_hex :: "char \<Rightarrow> bool" where
  "is_hex c = (let n = of_char c :: nat in is_digit c \<or> (97 \<le> n \<and> n \<le> 102) \<or> (65 \<le> n \<and> n \<le> 70))"

definition hex_digit :: "char \<Rightarrow> nat" where
  "hex_digit c =
     (let n = of_char c in if is_digit c then n - 48 else if 97 \<le> n then n - 87 else n - 55)"

definition hex_val :: "string \<Rightarrow> nat" where
  "hex_val s = foldl (\<lambda>n c. 16 * n + hex_digit c) 0 s"

text \<open>The groups read so far, the position of the ellipsis, and the rest of the text.\<close>

function parse6 :: "string \<Rightarrow> nat list \<Rightarrow> nat option \<Rightarrow> (string \<times> nat list \<times> nat option) option" where
  "parse6 s groups ellipsis =
     (if 8 \<le> length groups then Some (s, groups, ellipsis)
      else
        (let h = takeWhile is_hex s; rest = dropWhile is_hex s in
         if h = [] \<or> 4 < length h then None
         else if rest \<noteq> [] \<and> hd rest = CHR ''.'' then
           (if ellipsis = None \<and> length groups \<noteq> 6 then None
            else if 8 < length groups + 2 then None
            else (case parse4 s of
                    None \<Rightarrow> None
                  | Some n \<Rightarrow> Some ('''', groups @ [n div 65536, n mod 65536], ellipsis)))
         else
           (let groups = groups @ [hex_val h] in
            if rest = [] then Some ('''', groups, ellipsis)
            else if hd rest \<noteq> CHR '':'' \<or> length rest = 1 then None
            else if rest ! 1 = CHR '':'' then
              (if ellipsis \<noteq> None then None
               else if length rest = 2 then Some ('''', groups, Some (length groups))
               else parse6 (drop 2 rest) groups (Some (length groups)))
            else parse6 (drop 1 rest) groups ellipsis)))"
  by pat_completeness auto
termination
proof (relation "measure (\<lambda>(s, groups, ellipsis). length s)")
  have less: "length (drop n (dropWhile is_hex s)) < length s" if "takeWhile is_hex s \<noteq> []" for s n
  proof -
    have "length s = length (takeWhile is_hex s) + length (dropWhile is_hex s)"
      by (metis length_append takeWhile_dropWhile_id)
    moreover have "0 < length (takeWhile is_hex s)" using that by simp
    ultimately show ?thesis unfolding length_drop by linarith
  qed
  fix s :: string and groups groups' :: "nat list" and ellipsis :: "nat option" and x xa
  assume "x = takeWhile is_hex s" "xa = dropWhile is_hex s" "\<not> (x = [] \<or> 4 < length x)"
  then show "((drop 2 xa, groups', Some (length groups')), s, groups, ellipsis)
      \<in> measure (\<lambda>(s, groups, ellipsis). length s)"
    and "((drop 1 xa, groups', ellipsis), s, groups, ellipsis)
      \<in> measure (\<lambda>(s, groups, ellipsis). length s)"
    using less [of s 2] less [of s 1] by simp_all
qed simp

declare parse6.simps [simp del]

definition groups_val :: "nat list \<Rightarrow> nat" where
  "groups_val gs = foldl (\<lambda>n g. 65536 * n + g) 0 gs"

definition parse6_addr :: "string \<Rightarrow> addr option" where
  "parse6_addr s =
     (if HasPrefix s ''::'' \<and> length s = 2 then Some (Addr6 0)
      else
        (case (if HasPrefix s ''::'' then parse6 (drop 2 s) [] (Some 0) else parse6 s [] None) of
           None \<Rightarrow> None
         | Some (rest, groups, ellipsis) \<Rightarrow>
             if rest \<noteq> [] then None
             else if length groups < 8 then
               (case ellipsis of
                  None \<Rightarrow> None
                | Some e \<Rightarrow> Some (Addr6 (of_nat (groups_val
                      (take e groups @ replicate (8 - length groups) 0 @ drop e groups)))))
             else if ellipsis \<noteq> None then None
             else Some (Addr6 (of_nat (groups_val groups)))))"

text \<open>\<open>ParseAddr\<close> gives the address and its zone.\<close>

definition ParseAddr :: "string \<Rightarrow> (addr \<times> string) option" where
  "ParseAddr s =
     (case filter (\<lambda>c. c \<in> set ''.:%'') s of
        [] \<Rightarrow> None
      | c # _ \<Rightarrow>
          if c = CHR ''.'' then map_option (\<lambda>n. (Addr4 (of_nat n), '''')) (parse4 s)
          else if c = CHR ''%'' then None
          else
            (let ip = takeWhile (\<lambda>c. c \<noteq> CHR ''%'') s; z = dropWhile (\<lambda>c. c \<noteq> CHR ''%'') s in
             if length z = 1 then None
             else map_option (\<lambda>a. (a, drop 1 z)) (parse6_addr ip)))"

text \<open>\<open>strconv.Atoi\<close> on what \<open>ParsePrefix\<close> passes to it: at most three digits matter.\<close>

definition parse_bits :: "string \<Rightarrow> nat option" where
  "parse_bits s =
     (if s \<noteq> [] \<and> list_all is_digit s \<and> (length s = 1 \<or> hd s \<noteq> CHR ''0'') then Some (dec_val s) else None)"

definition ParsePrefix :: "string \<Rightarrow> prefix option" where
  "ParsePrefix s =
     (if CHR ''/'' \<notin> set s then None
      else
        (let bits = rev (takeWhile (\<lambda>c. c \<noteq> CHR ''/'') (rev s));
             ip = take (length s - length bits - 1) s
         in case ParseAddr ip of
              None \<Rightarrow> None
            | Some (a, zone) \<Rightarrow>
                if zone \<noteq> '''' then None
                else (case parse_bits bits of
                        None \<Rightarrow> None
                      | Some b \<Rightarrow> if int b \<le> addr_BitLen a then Some \<lparr>pfx_ip = a, pfx_bits = int b\<rparr> else None)))"

section \<open>Printing\<close>

definition string4 :: "nat \<Rightarrow> string" where
  "string4 n = Join (map FormatUint [n div 256 ^ 3 mod 256, n div 256 ^ 2 mod 256, n div 256 mod 256, n mod 256]) CHR ''.''"

primrec groups_of :: "nat \<Rightarrow> nat \<Rightarrow> nat list" where
  "groups_of 0 n = []"
| "groups_of (Suc k) n = groups_of k (n div 65536) @ [n mod 65536]"

text \<open>The first longest run of at least two zero groups, as start and end.\<close>

definition zero_run :: "nat list \<Rightarrow> nat \<times> nat" where
  "zero_run gs = foldl (\<lambda>(a, b) i.
     let j = i + length (takeWhile (\<lambda>g. g = 0) (drop i gs)) in
     if 2 \<le> j - i \<and> b - a < j - i then (i, j) else (a, b)) (255, 255) [0..<8]"

fun print_groups :: "nat \<Rightarrow> nat \<times> nat \<Rightarrow> nat list \<Rightarrow> string" where
  "print_groups i run [] = ''''"
| "print_groups i run (g # gs) =
     (if fst run < i \<and> i < snd run then print_groups (i + 1) run gs
      else if i = fst run then ''::'' @ print_groups (i + 1) run gs
      else (if 0 < i \<and> i \<noteq> snd run then '':'' else '''') @ format_base 16 g @ print_groups (i + 1) run gs)"

fun addr_String :: "addr \<Rightarrow> string" where
  "addr_String AddrZero = ''invalid IP''"
| "addr_String (Addr4 w) = string4 (unat w)"
| "addr_String (Addr6 w) =
     (if addr_Is4In6 (Addr6 w) then ''::ffff:'' @ string4 (unat w mod 2 ^ 32)
      else (let gs = groups_of 8 (unat w) in print_groups 0 (zero_run gs) gs))"

definition prefix_String :: "prefix \<Rightarrow> string" where
  "prefix_String p =
     (if prefix_IsValid p then addr_String (pfx_ip p) @ ''/'' @ FormatUint (nat (pfx_bits p))
      else ''invalid Prefix'')"
end
