(* ===== verification/Constants.thy ===== *)
theory Constants
  imports Netip_Text
begin

text \<open>
  The enumerations of \<open>src/constant/rule.go\<close>, \<open>metadata.go\<close> and \<open>dns.go\<close> with their texts, and the
  metadata of a connection with its methods. \<open>RawSrcAddr\<close> and \<open>RawDstAddr\<close> are interface values
  that no modelled code reads; they and \<open>SetRemoteAddr\<close>, which inspects such a value, are left out.
  A slice that can be nil is an option. Addresses have no zone.
\<close>

section \<open>Networks, inbound types and DNS modes\<close>

datatype NetWork = TCP | UDP | ALLNet | InvalidNet

fun NetWork_String :: "NetWork \<Rightarrow> string" where
  "NetWork_String TCP = ''tcp''"
| "NetWork_String UDP = ''udp''"
| "NetWork_String ALLNet = ''all''"
| "NetWork_String InvalidNet = ''invalid''"

datatype AddrType = AtypIPv4 | AtypDomainName | AtypIPv6

fun AddrType_String :: "AddrType \<Rightarrow> string" where
  "AddrType_String AtypIPv4 = ''IPv4''"
| "AddrType_String AtypDomainName = ''DomainName''"
| "AddrType_String AtypIPv6 = ''IPv6''"

datatype CType =
    HTTP | HTTPS | SOCKS4 | SOCKS5 | SHADOWSOCKS | SNELL | VMESS | VLESS | REDIR | TPROXY | TROJAN
  | TUNNEL | TUN | TUIC | HYSTERIA2 | ANYTLS | MIERU | SUDOKU | TRUSTTUNNEL | SHADOWQUIC | INNER

fun CType_String :: "CType \<Rightarrow> string" where
  "CType_String HTTP = ''HTTP''"
| "CType_String HTTPS = ''HTTPS''"
| "CType_String SOCKS4 = ''Socks4''"
| "CType_String SOCKS5 = ''Socks5''"
| "CType_String SHADOWSOCKS = ''ShadowSocks''"
| "CType_String SNELL = ''Snell''"
| "CType_String VMESS = ''Vmess''"
| "CType_String VLESS = ''Vless''"
| "CType_String REDIR = ''Redir''"
| "CType_String TPROXY = ''TProxy''"
| "CType_String TROJAN = ''Trojan''"
| "CType_String TUNNEL = ''Tunnel''"
| "CType_String TUN = ''Tun''"
| "CType_String TUIC = ''Tuic''"
| "CType_String HYSTERIA2 = ''Hysteria2''"
| "CType_String ANYTLS = ''AnyTLS''"
| "CType_String MIERU = ''Mieru''"
| "CType_String SUDOKU = ''Sudoku''"
| "CType_String TRUSTTUNNEL = ''TrustTunnel''"
| "CType_String SHADOWQUIC = ''ShadowQuic''"
| "CType_String INNER = ''Inner''"

text \<open>The table of the \<open>switch\<close> in \<open>ParseType\<close>.\<close>

definition ParseType :: "string \<Rightarrow> CType option" where
  "ParseType t = map_of
     [(''HTTP'', HTTP), (''HTTPS'', HTTPS), (''SOCKS4'', SOCKS4), (''SOCKS5'', SOCKS5),
      (''SHADOWSOCKS'', SHADOWSOCKS), (''SNELL'', SNELL), (''VMESS'', VMESS), (''VLESS'', VLESS),
      (''REDIR'', REDIR), (''TPROXY'', TPROXY), (''TROJAN'', TROJAN), (''TUNNEL'', TUNNEL),
      (''TUN'', TUN), (''TUIC'', TUIC), (''HYSTERIA2'', HYSTERIA2), (''ANYTLS'', ANYTLS),
      (''MIERU'', MIERU), (''SUDOKU'', SUDOKU), (''TRUSTTUNNEL'', TRUSTTUNNEL),
      (''SHADOWQUIC'', SHADOWQUIC), (''INNER'', INNER)] t"

lemma ParseType_String: "ParseType (ToUpper (CType_String t)) = Some t"
  by (cases t; hypsubst; code_simp)

datatype DNSMode = DNSNormal | DNSFakeIP | DNSMapping | DNSHosts

fun DNSMode_String :: "DNSMode \<Rightarrow> string" where
  "DNSMode_String DNSNormal = ''normal''"
| "DNSMode_String DNSFakeIP = ''fake-ip''"
| "DNSMode_String DNSMapping = ''redir-host''"
| "DNSMode_String DNSHosts = ''hosts''"

definition DNSModeMapping :: "(string \<times> DNSMode) list" where
  "DNSModeMapping = map (\<lambda>m. (DNSMode_String m, m)) [DNSNormal, DNSFakeIP, DNSMapping]"

text \<open>\<open>UnmarshalText\<close>: \<open>None\<close> is the error.\<close>

definition DNSMode_UnmarshalText :: "string \<Rightarrow> DNSMode option" where
  "DNSMode_UnmarshalText text = map_of DNSModeMapping (ToLower text)"

datatype DNSPrefer = DualStack | IPv4Only | IPv6Only | IPv4Prefer | IPv6Prefer

fun DNSPrefer_String :: "DNSPrefer \<Rightarrow> string" where
  "DNSPrefer_String DualStack = ''dual''"
| "DNSPrefer_String IPv4Only = ''ipv4''"
| "DNSPrefer_String IPv6Only = ''ipv6''"
| "DNSPrefer_String IPv4Prefer = ''ipv4-prefer''"
| "DNSPrefer_String IPv6Prefer = ''ipv6-prefer''"

definition dnsPreferMap :: "(string \<times> DNSPrefer) list" where
  "dnsPreferMap = map (\<lambda>m. (DNSPrefer_String m, m)) [DualStack, IPv4Only, IPv6Only, IPv4Prefer, IPv6Prefer]"

definition DNSPrefer_UnmarshalText :: "string \<Rightarrow> DNSPrefer" where
  "DNSPrefer_UnmarshalText text = (case map_of dnsPreferMap (ToLower text) of None \<Rightarrow> DualStack | Some p \<Rightarrow> p)"

datatype FilterMode = FilterBlackList | FilterWhiteList | FilterRule

fun FilterMode_String :: "FilterMode \<Rightarrow> string" where
  "FilterMode_String FilterBlackList = ''blacklist''"
| "FilterMode_String FilterWhiteList = ''whitelist''"
| "FilterMode_String FilterRule = ''rule''"

definition FilterModeMapping :: "(string \<times> FilterMode) list" where
  "FilterModeMapping = map (\<lambda>m. (FilterMode_String m, m)) [FilterBlackList, FilterWhiteList, FilterRule]"

definition FilterMode_UnmarshalText :: "string \<Rightarrow> FilterMode option" where
  "FilterMode_UnmarshalText text = map_of FilterModeMapping (ToLower text)"

lemma FilterMode_round: "FilterMode_UnmarshalText (FilterMode_String m) = Some m"
  by (cases m; hypsubst; code_simp)

lemma DNSPrefer_round: "DNSPrefer_UnmarshalText (DNSPrefer_String m) = m"
  by (cases m; hypsubst; code_simp)

lemma DNSMode_round: "DNSMode_UnmarshalText (DNSMode_String m) = (if m = DNSHosts then None else Some m)"
  by (cases m; hypsubst; code_simp)

section \<open>Rule types\<close>

datatype RuleType =
    RT_Domain | RT_DomainSuffix | RT_DomainKeyword | RT_DomainRegex | RT_DomainWildcard | RT_GEOSITE
  | RT_GEOIP | RT_SrcGEOIP | RT_IPASN | RT_SrcIPASN | RT_IPCIDR | RT_SrcIPCIDR | RT_IPSuffix
  | RT_SrcIPSuffix | RT_SrcPort | RT_DstPort | RT_InPort | RT_DSCP | RT_InUser | RT_InName | RT_InType
  | RT_ProcessName | RT_ProcessPath | RT_ProcessNameRegex | RT_ProcessPathRegex
  | RT_ProcessNameWildcard | RT_ProcessPathWildcard | RT_RematchName | RT_RuleSet | RT_Network | RT_Uid
  | RT_SubRules | RT_MATCH | RT_AND | RT_OR | RT_NOT | RT_SourceAppSigningID | RT_SourceAppTeamID

fun RuleType_String :: "RuleType \<Rightarrow> string" where
  "RuleType_String RT_Domain = ''Domain''"
| "RuleType_String RT_DomainSuffix = ''DomainSuffix''"
| "RuleType_String RT_DomainKeyword = ''DomainKeyword''"
| "RuleType_String RT_DomainRegex = ''DomainRegex''"
| "RuleType_String RT_DomainWildcard = ''DomainWildcard''"
| "RuleType_String RT_GEOSITE = ''GeoSite''"
| "RuleType_String RT_GEOIP = ''GeoIP''"
| "RuleType_String RT_SrcGEOIP = ''SrcGeoIP''"
| "RuleType_String RT_IPASN = ''IPASN''"
| "RuleType_String RT_SrcIPASN = ''SrcIPASN''"
| "RuleType_String RT_IPCIDR = ''IPCIDR''"
| "RuleType_String RT_SrcIPCIDR = ''SrcIPCIDR''"
| "RuleType_String RT_IPSuffix = ''IPSuffix''"
| "RuleType_String RT_SrcIPSuffix = ''SrcIPSuffix''"
| "RuleType_String RT_SrcPort = ''SrcPort''"
| "RuleType_String RT_DstPort = ''DstPort''"
| "RuleType_String RT_InPort = ''InPort''"
| "RuleType_String RT_InUser = ''InUser''"
| "RuleType_String RT_InName = ''InName''"
| "RuleType_String RT_InType = ''InType''"
| "RuleType_String RT_ProcessName = ''ProcessName''"
| "RuleType_String RT_ProcessPath = ''ProcessPath''"
| "RuleType_String RT_ProcessNameRegex = ''ProcessNameRegex''"
| "RuleType_String RT_ProcessPathRegex = ''ProcessPathRegex''"
| "RuleType_String RT_ProcessNameWildcard = ''ProcessNameWildcard''"
| "RuleType_String RT_ProcessPathWildcard = ''ProcessPathWildcard''"
| "RuleType_String RT_RematchName = ''RematchName''"
| "RuleType_String RT_MATCH = ''Match''"
| "RuleType_String RT_RuleSet = ''RuleSet''"
| "RuleType_String RT_Network = ''Network''"
| "RuleType_String RT_DSCP = ''DSCP''"
| "RuleType_String RT_Uid = ''Uid''"
| "RuleType_String RT_SubRules = ''SubRules''"
| "RuleType_String RT_AND = ''AND''"
| "RuleType_String RT_OR = ''OR''"
| "RuleType_String RT_NOT = ''NOT''"
| "RuleType_String RT_SourceAppSigningID = ''SourceAppSigningID''"
| "RuleType_String RT_SourceAppTeamID = ''SourceAppTeamID''"

section \<open>Metadata\<close>

record Metadata =
  md_NetWork :: NetWork
  md_Type :: CType
  md_SrcIP :: addr
  md_DstIP :: addr
  md_SrcGeoIP :: "string list option"
  md_DstGeoIP :: "string list option"
  md_SrcIPASN :: string
  md_DstIPASN :: string
  md_SrcPort :: "16 word"
  md_DstPort :: "16 word"
  md_InIP :: addr
  md_InPort :: "16 word"
  md_InName :: string
  md_InUser :: string
  md_RematchName :: string
  md_Host :: string
  md_DNSMode :: DNSMode
  md_Uid :: "32 word"
  md_UidKnown :: bool
  md_Process :: string
  md_ProcessPath :: string
  md_SourceIdentityKnown :: bool
  md_SourceAppSigningIdentifier :: string
  md_SourceAppTeamIdentifier :: string
  md_SpecialProxy :: string
  md_SpecialRules :: string
  md_RemoteDst :: string
  md_DSCP :: "8 word"
  md_SniffHost :: string

text \<open>The zero value of the struct.\<close>

definition zero_Metadata :: Metadata where
  "zero_Metadata =
     \<lparr>md_NetWork = TCP, md_Type = HTTP, md_SrcIP = AddrZero, md_DstIP = AddrZero, md_SrcGeoIP = None,
      md_DstGeoIP = None, md_SrcIPASN = '''', md_DstIPASN = '''', md_SrcPort = 0, md_DstPort = 0,
      md_InIP = AddrZero, md_InPort = 0, md_InName = '''', md_InUser = '''', md_RematchName = '''',
      md_Host = '''', md_DNSMode = DNSNormal, md_Uid = 0, md_UidKnown = False, md_Process = '''',
      md_ProcessPath = '''', md_SourceIdentityKnown = False, md_SourceAppSigningIdentifier = '''',
      md_SourceAppTeamIdentifier = '''', md_SpecialProxy = '''', md_SpecialRules = '''',
      md_RemoteDst = '''', md_DSCP = 0, md_SniffHost = ''''\<rparr>"

text \<open>\<open>net.JoinHostPort\<close> and \<open>net.SplitHostPort\<close>.\<close>

definition JoinHostPort :: "string \<Rightarrow> string \<Rightarrow> string" where
  "JoinHostPort host port =
     (if CHR '':'' \<in> set host \<or> CHR ''%'' \<in> set host then ''['' @ host @ '']:'' @ port else host @ '':'' @ port)"

definition last_colon :: "string \<Rightarrow> nat option" where
  "last_colon s =
     (if CHR '':'' \<in> set s then Some (length s - 1 - length (takeWhile (\<lambda>c. c \<noteq> CHR '':'') (rev s))) else None)"

definition SplitHostPort :: "string \<Rightarrow> (string \<times> string) option" where
  "SplitHostPort s =
     (case last_colon s of
        None \<Rightarrow> None
      | Some i \<Rightarrow>
          if hd s = CHR ''['' then
            (let e = length (takeWhile (\<lambda>c. c \<noteq> CHR '']'') s) in
             if e = length s \<or> e + 1 \<noteq> i then None
             else if CHR ''['' \<in> set (drop 1 s) \<or> CHR '']'' \<in> set (drop (e + 1) s) then None
             else Some (take (e - 1) (drop 1 s), drop (i + 1) s))
          else if CHR '':'' \<in> set (take i s) then None
          else if CHR ''['' \<in> set s \<or> CHR '']'' \<in> set s then None
          else Some (take i s, drop (i + 1) s))"

definition Metadata_HasUID :: "Metadata \<Rightarrow> bool" where
  "Metadata_HasUID m \<longleftrightarrow> md_UidKnown m \<or> md_Uid m \<noteq> 0"

definition Metadata_String :: "Metadata \<Rightarrow> string" where
  "Metadata_String m =
     (if md_Host m \<noteq> '''' then md_Host m
      else if addr_IsValid (md_DstIP m) then addr_String (md_DstIP m)
      else ''<nil>'')"

definition RemoteAddress :: "Metadata \<Rightarrow> string" where
  "RemoteAddress m = JoinHostPort (Metadata_String m) (FormatUint (unat (md_DstPort m)))"

definition SourceAddress :: "Metadata \<Rightarrow> string" where
  "SourceAddress m = JoinHostPort (addr_String (md_SrcIP m)) (FormatUint (unat (md_SrcPort m)))"

definition SourceAddrPort :: "Metadata \<Rightarrow> addr \<times> 16 word" where
  "SourceAddrPort m = (addr_Unmap (md_SrcIP m), md_SrcPort m)"

definition SourceDetail :: "Metadata \<Rightarrow> string" where
  "SourceDetail m =
     (if md_Type m = INNER then ''mihomo''
      else if md_Process m \<noteq> '''' \<and> Metadata_HasUID m
      then SourceAddress m @ ''('' @ md_Process m @ '', uid='' @ FormatUint (unat (md_Uid m)) @ '')''
      else if Metadata_HasUID m then SourceAddress m @ ''(uid='' @ FormatUint (unat (md_Uid m)) @ '')''
      else if md_Process m \<noteq> '''' then SourceAddress m @ ''('' @ md_Process m @ '')''
      else SourceAddress m)"

definition SourceValid :: "Metadata \<Rightarrow> bool" where
  "SourceValid m \<longleftrightarrow> md_SrcPort m \<noteq> 0 \<and> addr_IsValid (md_SrcIP m)"

definition Metadata_AddrType :: "Metadata \<Rightarrow> AddrType" where
  "Metadata_AddrType m =
     (if md_Host m \<noteq> '''' \<or> \<not> addr_IsValid (md_DstIP m) then AtypDomainName
      else if addr_Is4 (md_DstIP m) then AtypIPv4
      else AtypIPv6)"

definition Resolved :: "Metadata \<Rightarrow> bool" where
  "Resolved m \<longleftrightarrow> addr_IsValid (md_DstIP m)"

definition RuleHost :: "Metadata \<Rightarrow> string" where
  "RuleHost m = (if length (md_SniffHost m) = 0 then md_Host m else md_SniffHost m)"

definition Pure :: "Metadata \<Rightarrow> Metadata" where
  "Pure m =
     (if (md_DNSMode m = DNSMapping \<or> md_DNSMode m = DNSHosts) \<and> addr_IsValid (md_DstIP m)
      then m\<lparr>md_Host := ''''\<rparr> else m)"

definition AddrPort :: "Metadata \<Rightarrow> addr \<times> 16 word" where
  "AddrPort m = (addr_Unmap (md_DstIP m), md_DstPort m)"

definition Metadata_UDPAddr :: "Metadata \<Rightarrow> (addr \<times> 16 word) option" where
  "Metadata_UDPAddr m =
     (if md_NetWork m \<noteq> UDP \<or> \<not> addr_IsValid (md_DstIP m) then None else Some (AddrPort m))"

definition Metadata_Valid :: "Metadata \<Rightarrow> bool" where
  "Metadata_Valid m \<longleftrightarrow> md_Host m \<noteq> '''' \<or> addr_IsValid (md_DstIP m)"

text \<open>\<open>None\<close> is the error of \<open>net.SplitHostPort\<close>.\<close>

definition SetRemoteAddress :: "string \<Rightarrow> Metadata \<Rightarrow> Metadata option" where
  "SetRemoteAddress rawAddress m =
     (case SplitHostPort rawAddress of
        None \<Rightarrow> None
      | Some (host, port) \<Rightarrow>
          (let uint16Port = (case ParseUint64 port of
                               Some n \<Rightarrow> if n < 65536 then of_nat n else 0
                             | None \<Rightarrow> 0);
               m = (case ParseAddr host of
                      None \<Rightarrow> m\<lparr>md_Host := host, md_DstIP := AddrZero\<rparr>
                    | Some (ip, zone) \<Rightarrow> m\<lparr>md_Host := '''', md_DstIP := addr_Unmap ip\<rparr>)
           in Some (m\<lparr>md_DstPort := uint16Port\<rparr>)))"

definition SwapSrcDst :: "Metadata \<Rightarrow> Metadata" where
  "SwapSrcDst m =
     m\<lparr>md_SrcIP := md_DstIP m, md_DstIP := md_SrcIP m,
       md_SrcPort := md_DstPort m, md_DstPort := md_SrcPort m,
       md_SrcIPASN := md_DstIPASN m, md_DstIPASN := md_SrcIPASN m,
       md_SrcGeoIP := md_DstGeoIP m, md_DstGeoIP := md_SrcGeoIP m\<rparr>"

lemma SwapSrcDst_twice [simp]: "SwapSrcDst (SwapSrcDst m) = m"
  by (simp add: SwapSrcDst_def)

lemma Pure_valid: "Metadata_Valid m \<Longrightarrow> Metadata_Valid (Pure m)"
  by (auto simp: Pure_def Metadata_Valid_def)

end
