(* ===== verification/Fakeip_Pool.thy ===== *)
theory Fakeip_Pool
  imports Constants "HOL-Library.Monad_Syntax"
begin

text \<open>
  The fake-IP pool of \<open>src/component/fakeip/pool.go\<close> and the skipper of \<open>skipper.go\<close>. The pool
  hands out the addresses of a prefix one after the other and remembers in a store which host
  has which address.

  The Go interface \<open>store\<close> is the record \<open>store\<close> of operations on a store state; an operation
  returns \<open>None\<close> when it does not return. The type assertion \<open>p.store.(*cachefileStore)\<close> is the
  operation \<open>st_isCachefile\<close>. What the pool relies on is the locale \<open>fakeip_store\<close>; the memory
  store (\<open>Fakeip_Memory\<close>) and the persistent one (\<open>Fakeip_Cachefile\<close>) are proved to provide it.
  \<open>netipx.PrefixLastIP\<close> is not part of the repository and is an argument.
\<close>

section \<open>The store interface and the pool\<close>

record 'st store =
  st_GetByHost :: "string \<Rightarrow> 'st \<Rightarrow> ((addr \<times> bool) \<times> 'st) option"
  st_PutByHost :: "string \<Rightarrow> addr \<Rightarrow> 'st \<Rightarrow> 'st option"
  st_GetByIP :: "addr \<Rightarrow> 'st \<Rightarrow> ((string \<times> bool) \<times> 'st) option"
  st_PutByIP :: "addr \<Rightarrow> string \<Rightarrow> 'st \<Rightarrow> 'st option"
  st_DelByIP :: "addr \<Rightarrow> 'st \<Rightarrow> 'st option"
  st_Exist :: "addr \<Rightarrow> 'st \<Rightarrow> bool"
  st_CloneTo :: "'st \<Rightarrow> 'st \<Rightarrow> 'st option"
  st_FlushFakeIP :: "'st \<Rightarrow> (string option \<times> 'st) option"
  st_isCachefile :: "'st \<Rightarrow> bool"
  st_Sync :: "'st \<Rightarrow> 'st option"

record 'st Pool =
  gateway :: addr
  first :: addr
  last_ip :: addr
  offset :: addr
  cycle :: bool
  ipnet :: prefix
  pstore :: 'st

definition offsetKey :: string where "offsetKey = ''key-offset-fake-ip''"

definition cycleKey :: string where "cycleKey = ''key-cycle-fake-ip''"

definition Pool_get :: "'st store \<Rightarrow> string \<Rightarrow> 'st Pool \<Rightarrow> (addr \<times> 'st Pool) option" where
  "Pool_get S host p =
     (let p = p\<lparr>offset := addr_Next (offset p)\<rparr>;
          p = (if \<not> addr_Less (offset p) (last_ip p) then p\<lparr>cycle := True, offset := first p\<rparr> else p)
      in do {
        st \<leftarrow> (if cycle p \<or> st_Exist S (offset p) (pstore p)
              then st_DelByIP S (offset p) (pstore p) else Some (pstore p));
        st \<leftarrow> st_PutByIP S (offset p) host st;
        Some (offset p, p\<lparr>pstore := st\<rparr>) })"

definition Pool_Lookup :: "'st store \<Rightarrow> string \<Rightarrow> 'st Pool \<Rightarrow> (addr \<times> 'st Pool) option" where
  "Pool_Lookup S host p =
     (let host = ToLower host in do {
        ((ip, exist), st) \<leftarrow> st_GetByHost S host (pstore p);
        let p = p\<lparr>pstore := st\<rparr>;
        if exist then Some (ip, p)
        else do {
          (ip, p) \<leftarrow> Pool_get S host p;
          st \<leftarrow> st_PutByHost S host ip (pstore p);
          Some (ip, p\<lparr>pstore := st\<rparr>) } })"

definition Pool_LookBack :: "'st store \<Rightarrow> addr \<Rightarrow> 'st Pool \<Rightarrow> ((string \<times> bool) \<times> 'st Pool) option" where
  "Pool_LookBack S ip p = do {
     (r, st) \<leftarrow> st_GetByIP S ip (pstore p);
     Some (r, p\<lparr>pstore := st\<rparr>) }"

definition Pool_Exist :: "'st store \<Rightarrow> addr \<Rightarrow> 'st Pool \<Rightarrow> bool" where
  "Pool_Exist S ip p = st_Exist S ip (pstore p)"

definition Pool_Gateway :: "'st Pool \<Rightarrow> addr" where
  "Pool_Gateway p = gateway p"

definition Pool_Broadcast :: "'st Pool \<Rightarrow> addr" where
  "Pool_Broadcast p = last_ip p"

definition Pool_IPNet :: "'st Pool \<Rightarrow> prefix" where
  "Pool_IPNet p = ipnet p"

definition Pool_CloneFrom :: "'st store \<Rightarrow> 'st Pool \<Rightarrow> 'st Pool \<Rightarrow> 'st Pool option" where
  "Pool_CloneFrom S old p = do { st \<leftarrow> st_CloneTo S (pstore old) (pstore p); Some (p\<lparr>pstore := st\<rparr>) }"

definition Pool_FlushFakeIP :: "'st store \<Rightarrow> 'st Pool \<Rightarrow> (string option \<times> 'st Pool) option" where
  "Pool_FlushFakeIP S p = do {
     (err, st) \<leftarrow> st_FlushFakeIP S (pstore p);
     let p = p\<lparr>pstore := st\<rparr>;
     Some (err, if err = None then p\<lparr>cycle := False, offset := addr_Prev (first p)\<rparr> else p) }"

definition Pool_StoreState :: "'st store \<Rightarrow> 'st Pool \<Rightarrow> 'st Pool option" where
  "Pool_StoreState S p =
     (if st_isCachefile S (pstore p) then do {
        st \<leftarrow> st_PutByHost S offsetKey (offset p) (pstore p);
        st \<leftarrow> (if cycle p then st_PutByHost S cycleKey (offset p) st else Some st);
        st \<leftarrow> st_Sync S st;
        Some (p\<lparr>pstore := st\<rparr>) }
      else Some p)"

definition restoreState :: "'st store \<Rightarrow> 'st Pool \<Rightarrow> 'st Pool option" where
  "restoreState S p =
     (if st_isCachefile S (pstore p) then do {
        ((_, exist), st) \<leftarrow> st_GetByHost S cycleKey (pstore p);
        let p = p\<lparr>pstore := st, cycle := (if exist then True else cycle p)\<rparr>;
        ((off, exist), st) \<leftarrow> st_GetByHost S offsetKey (pstore p);
        let p = p\<lparr>pstore := st\<rparr>;
        if exist then
          (if prefix_Contains (ipnet p) off then Some (p\<lparr>offset := off\<rparr>)
           else do { (_, p) \<leftarrow> Pool_FlushFakeIP S p; Some p })
        else if st_Exist S (first p) (pstore p) then do { (_, p) \<leftarrow> Pool_FlushFakeIP S p; Some p }
        else Some p }
      else Some p)"

record Options =
  opt_IPNet :: prefix
  opt_Size :: int
  opt_Persistence :: bool

text \<open>
  \<open>New\<close>: the two store constructors and \<open>netipx.PrefixLastIP\<close> are arguments; the error is the
  left value.
\<close>

definition Pool_New ::
  "(prefix \<Rightarrow> addr) \<Rightarrow> 'st store \<Rightarrow> (prefix \<Rightarrow> 'st) \<Rightarrow> (int \<Rightarrow> 'st) \<Rightarrow> Options \<Rightarrow> (string + 'st Pool) option" where
  "Pool_New PrefixLastIP S newCachefileStore newMemoryStore options =
     (let hostAddr = pfx_ip (prefix_Masked (opt_IPNet options));
          gw = addr_Next hostAddr;
          fst_ip = addr_Next (addr_Next (addr_Next gw));
          lst = PrefixLastIP (opt_IPNet options)
      in if \<not> prefix_IsValid (opt_IPNet options) \<or> \<not> addr_IsValid fst_ip \<or> \<not> addr_Less fst_ip lst
         then Some (Inl ''ipnet don't have valid ip'')
         else do {
           p \<leftarrow> restoreState S
             \<lparr>gateway = gw, first = fst_ip, last_ip = lst, offset = addr_Prev fst_ip, cycle = False,
              ipnet = opt_IPNet options,
              pstore = (if opt_Persistence options then newCachefileStore (opt_IPNet options)
                        else newMemoryStore (opt_Size options))\<rparr>;
           Some (Inr p) })"

section \<open>The skipper\<close>

text \<open>
  A rule and a domain matcher are the functions the interfaces provide: a rule gives whether it
  matched and its action.
\<close>

record Skipper =
  sk_Rules :: "(string \<Rightarrow> bool \<times> string) list"
  sk_Host :: "(string \<Rightarrow> bool) list"
  sk_Mode :: FilterMode

definition UseRealIP :: string where "UseRealIP = ''real-ip''"

fun skipper_rules :: "(string \<Rightarrow> bool \<times> string) list \<Rightarrow> string \<Rightarrow> bool" where
  "skipper_rules [] domain = False"
| "skipper_rules (rule # rules) domain =
     (case rule domain of (matched, action) \<Rightarrow>
        if matched then action = UseRealIP else skipper_rules rules domain)"

fun shouldSkipped :: "(string \<Rightarrow> bool) list \<Rightarrow> string \<Rightarrow> bool" where
  "shouldSkipped [] domain = False"
| "shouldSkipped (matcher # ms) domain = (if matcher domain then True else shouldSkipped ms domain)"

definition ShouldSkipped :: "Skipper \<Rightarrow> string \<Rightarrow> bool" where
  "ShouldSkipped p domain =
     (if length (sk_Rules p) > 0 then skipper_rules (sk_Rules p) domain
      else (let should = shouldSkipped (sk_Host p) domain in
            if sk_Mode p = FilterWhiteList then \<not> should else should))"

section \<open>What the pool relies on\<close>

text \<open>
  \<open>i2h\<close> is the content of a store: which host an address stands for. \<open>hok\<close> and \<open>aok\<close> are the
  hosts and addresses the store accepts. The two writes of a new pair come together.
\<close>

locale fakeip_store =
  fixes S :: "'st store" and sinv :: "'st \<Rightarrow> bool" and i2h :: "'st \<Rightarrow> addr \<Rightarrow> string option"
    and hok :: "string \<Rightarrow> bool" and aok :: "addr \<Rightarrow> bool"
  assumes inj_law: "sinv st \<Longrightarrow> i2h st a = Some h \<Longrightarrow> i2h st b = Some h \<Longrightarrow> a = b"
    and GetByHost_law: "sinv st \<Longrightarrow> hok h \<Longrightarrow>
      \<exists>ip st'. st_GetByHost S h st = Some ((ip, \<exists>a. i2h st a = Some h), st') \<and> sinv st' \<and> i2h st' = i2h st
        \<and> (\<forall>a. i2h st a = Some h \<longrightarrow> ip = a)"
    and GetByIP_law: "sinv st \<Longrightarrow> aok a \<Longrightarrow>
      \<exists>st'. st_GetByIP S a st = Some (case i2h st a of None \<Rightarrow> ('''', False) | Some h \<Rightarrow> (h, True), st')
        \<and> sinv st' \<and> i2h st' = i2h st"
    and Exist_law: "sinv st \<Longrightarrow> aok a \<Longrightarrow> st_Exist S a st \<longleftrightarrow> i2h st a \<noteq> None"
    and DelByIP_law: "sinv st \<Longrightarrow> aok a \<Longrightarrow>
      \<exists>st'. st_DelByIP S a st = Some st' \<and> sinv st' \<and> i2h st' = (i2h st)(a := None)"
    and Put_law: "sinv st \<Longrightarrow> aok a \<Longrightarrow> hok h \<Longrightarrow> i2h st a = None \<Longrightarrow> (\<And>b. i2h st b \<noteq> Some h) \<Longrightarrow>
      \<exists>st1 st2. st_PutByIP S a h st = Some st1 \<and> st_PutByHost S h a st1 = Some st2 \<and> sinv st2
        \<and> i2h st2 \<subseteq>\<^sub>m (i2h st)(a \<mapsto> h) \<and> i2h st2 a = Some h"
    and Flush_law: "sinv st \<Longrightarrow>
      \<exists>st'. st_FlushFakeIP S st = Some (None, st') \<and> sinv st' \<and> i2h st' = Map.empty"

section \<open>The pool over any store\<close>

definition in_range :: "'st Pool \<Rightarrow> addr \<Rightarrow> bool" where
  "in_range p a \<longleftrightarrow> \<not> addr_Less a (first p) \<and> addr_Less a (last_ip p)"

text \<open>
  The bounds of a pool are addresses of one family, the offset is in range or just before it, and
  the store holds addresses in range only.
\<close>

definition pool_inv :: "('st \<Rightarrow> bool) \<Rightarrow> ('st \<Rightarrow> addr \<Rightarrow> string option) \<Rightarrow> 'st Pool \<Rightarrow> bool" where
  "pool_inv sinv i2h p \<longleftrightarrow>
     sinv (pstore p) \<and> addr_IsValid (addr_Prev (first p)) \<and> addr_BitLen (first p) = addr_BitLen (last_ip p)
     \<and> addr_Less (first p) (last_ip p)
     \<and> (offset p = addr_Prev (first p) \<or> in_range p (offset p))
     \<and> (\<forall>a\<in>dom (i2h (pstore p)). in_range p a)"

definition same_bounds :: "'st Pool \<Rightarrow> 'st Pool \<Rightarrow> bool" where
  "same_bounds p p' \<longleftrightarrow> gateway p' = gateway p \<and> first p' = first p \<and> last_ip p' = last_ip p \<and> ipnet p' = ipnet p"

lemma same_bounds_range: "same_bounds p p' \<Longrightarrow> in_range p' = in_range p"
  by (simp add: same_bounds_def in_range_def fun_eq_iff)

lemma in_range_valid: "in_range p a \<Longrightarrow> addr_IsValid (addr_Prev (first p)) \<Longrightarrow> addr_BitLen (first p) = addr_BitLen (last_ip p)
    \<Longrightarrow> addr_IsValid a \<and> addr_BitLen a = addr_BitLen (last_ip p)"
  by (cases a; cases "first p"; cases "last_ip p") (auto simp: in_range_def addr_Less_def addr_IsValid_def split: if_splits)

text \<open>The address that \<open>get\<close> moves to.\<close>

definition next_offset :: "'st Pool \<Rightarrow> addr" where
  "next_offset p = (if addr_Less (addr_Next (offset p)) (last_ip p) then addr_Next (offset p) else first p)"

lemma next_offset_in_range:
  assumes "pool_inv sinv i2h p"
  shows "in_range p (next_offset p)"
proof -
  have b: "addr_IsValid (addr_Prev (first p))" "addr_BitLen (first p) = addr_BitLen (last_ip p)"
    "addr_Less (first p) (last_ip p)" "offset p = addr_Prev (first p) \<or> in_range p (offset p)"
    using assms by (auto simp: pool_inv_def)
  show ?thesis
  proof (cases "offset p = addr_Prev (first p)")
    case True
    then show ?thesis using b by (simp add: next_offset_def addr_Next_Prev in_range_def)
  next
    case False
    then have off: "in_range p (offset p)" using b(4) by simp
    then have v: "addr_IsValid (offset p)" "addr_BitLen (offset p) = addr_BitLen (last_ip p)"
      using in_range_valid b(1,2) by blast+
    have "addr_Less (offset p) (last_ip p)" using off by (simp add: in_range_def)
    from addr_Less_Next_le [OF this v(2,1)] have "addr_Less (offset p) (addr_Next (offset p))"
      using addr_Less_Next by blast
    then have "\<not> addr_Less (addr_Next (offset p)) (first p)"
      using off addr_Less_trans by (auto simp: in_range_def)
    then show ?thesis using b(3) by (auto simp: next_offset_def in_range_def)
  qed
qed

datatype pool_op = PLookup string | PLookBack addr | PExist addr | PFlush

datatype pool_res = RAddr addr | RHost string bool | RFound bool | RErr "string option"

fun pool_step :: "'st store \<Rightarrow> pool_op \<Rightarrow> 'st Pool \<Rightarrow> (pool_res \<times> 'st Pool) option" where
  "pool_step S (PLookup h) p = do { (ip, p) \<leftarrow> Pool_Lookup S h p; Some (RAddr ip, p) }"
| "pool_step S (PLookBack a) p = do { ((h, ok), p) \<leftarrow> Pool_LookBack S a p; Some (RHost h ok, p) }"
| "pool_step S (PExist a) p = Some (RFound (Pool_Exist S a p), p)"
| "pool_step S PFlush p = do { (err, p) \<leftarrow> Pool_FlushFakeIP S p; Some (RErr err, p) }"

fun pool_run :: "'st store \<Rightarrow> pool_op list \<Rightarrow> 'st Pool \<Rightarrow> (pool_res list \<times> 'st Pool) option" where
  "pool_run S [] p = Some ([], p)"
| "pool_run S (op # ops) p = do {
     (r, p) \<leftarrow> pool_step S op p;
     (rs, p) \<leftarrow> pool_run S ops p;
     Some (r # rs, p) }"

text \<open>The hosts and addresses of a run that the store accepts.\<close>

fun op_ok :: "(string \<Rightarrow> bool) \<Rightarrow> (addr \<Rightarrow> bool) \<Rightarrow> pool_op \<Rightarrow> bool" where
  "op_ok hok aok (PLookup h) = hok (ToLower h)"
| "op_ok hok aok (PLookBack a) = aok a"
| "op_ok hok aok (PExist a) = aok a"
| "op_ok hok aok PFlush = True"

context fakeip_store
begin

abbreviation "pinv \<equiv> pool_inv sinv i2h"

lemma pinv_store: "pinv p \<Longrightarrow> sinv (pstore p)"
  by (simp add: pool_inv_def)

lemma pinv_update:
  assumes "pinv p" and "sinv st" and "dom (i2h st) \<subseteq> insert (next_offset p) (dom (i2h (pstore p)))"
    and "off = offset p \<or> off = next_offset p"
  shows "pinv (p\<lparr>cycle := cy, offset := off, pstore := st\<rparr>)"
  using assms next_offset_in_range [OF assms(1)] by (auto simp: pool_inv_def in_range_def)

lemma Lookup_ok:
  assumes "pinv p" and "hok (ToLower host)" and "\<And>a. in_range p a \<Longrightarrow> aok a"
  shows "\<exists>ip p'. Pool_Lookup S host p = Some (ip, p') \<and> pinv p' \<and> same_bounds p p' \<and> in_range p ip
    \<and> i2h (pstore p') ip = Some (ToLower host)
    \<and> (\<forall>a. i2h (pstore p) a = Some (ToLower host) \<longrightarrow> ip = a \<and> i2h (pstore p') = i2h (pstore p))
    \<and> ((\<forall>a. i2h (pstore p) a \<noteq> Some (ToLower host)) \<longrightarrow> ip = next_offset p
        \<and> i2h (pstore p') \<subseteq>\<^sub>m (i2h (pstore p))(ip \<mapsto> ToLower host))"
proof -
  let ?h = "ToLower host" and ?m = "i2h (pstore p)"
  from GetByHost_law [OF pinv_store [OF assms(1)] assms(2)] obtain ip st where
    g: "st_GetByHost S ?h (pstore p) = Some ((ip, \<exists>a. ?m a = Some ?h), st)" "sinv st" "i2h st = ?m"
    "\<forall>a. ?m a = Some ?h \<longrightarrow> ip = a" by blast
  let ?p = "p\<lparr>pstore := st\<rparr>"
  show ?thesis
  proof (cases "\<exists>a. ?m a = Some ?h")
    case True
    then have ip: "?m ip = Some ?h" using g(4) by auto
    have "pinv ?p" using pinv_update [OF assms(1) g(2), of "offset p" "cycle p"] g(3) by auto
    moreover have "in_range p ip" using assms(1) ip by (auto simp: pool_inv_def)
    moreover have "Pool_Lookup S host p = Some (ip, ?p)" using True g(1) by (simp add: Pool_Lookup_def Let_def)
    moreover have "same_bounds p ?p" by (simp add: same_bounds_def)
    moreover have "i2h (pstore ?p) ip = Some ?h" using g(3) ip by simp
    moreover have "\<forall>a. ?m a = Some ?h \<longrightarrow> ip = a \<and> i2h (pstore ?p) = ?m" using g(3,4) by auto
    moreover have "\<not> (\<forall>a. ?m a \<noteq> Some ?h)" using True by blast
    ultimately show ?thesis by blast
  next
    case False
    let ?o = "next_offset p"
    have rng: "in_range p ?o" using next_offset_in_range [OF assms(1)] .
    define cy where "cy = (cycle p \<or> \<not> addr_Less (addr_Next (offset p)) (last_ip p))"
    from DelByIP_law [OF g(2) assms(3) [OF rng]] obtain st1 where
      d: "st_DelByIP S ?o st = Some st1" "sinv st1" "i2h st1 = (i2h st)(?o := None)" by blast
    obtain st2 where st2: "(if cy \<or> st_Exist S ?o st then st_DelByIP S ?o st else Some st) = Some st2"
      "sinv st2" "i2h st2 = ?m(?o := None)"
    proof (cases "cy \<or> st_Exist S ?o st")
      case True
      with that [of st1] d g(3) show ?thesis by simp
    next
      case False
      then have "?m ?o = None" using Exist_law [OF g(2) assms(3) [OF rng]] g(3) by simp
      then have "?m(?o := None) = ?m" by (rule fun_upd_idem)
      with that [of st] False g(2,3) show ?thesis by simp
    qed
    have none: "i2h st2 ?o = None" and nh: "\<And>b. i2h st2 b \<noteq> Some ?h" using st2(3) False by auto
    from Put_law [OF st2(2) assms(3) [OF rng] assms(2) none nh] obtain st3 st4 where
      pu: "st_PutByIP S ?o ?h st2 = Some st3" "st_PutByHost S ?h ?o st3 = Some st4" "sinv st4"
      "i2h st4 \<subseteq>\<^sub>m (i2h st2)(?o \<mapsto> ?h)" "i2h st4 ?o = Some ?h" by blast
    have get: "Pool_get S ?h ?p = Some (?o, p\<lparr>cycle := cy, offset := ?o, pstore := st3\<rparr>)"
    proof (cases "addr_Less (addr_Next (offset p)) (last_ip p)")
      case True
      then have "?o = addr_Next (offset p)" "cy = cycle p" by (simp_all add: next_offset_def cy_def)
      with st2(1) pu(1) True show ?thesis by (auto simp: Pool_get_def Let_def split: if_splits)
    next
      case False
      then have "?o = first p" "cy" by (simp_all add: next_offset_def cy_def)
      with st2(1) pu(1) False show ?thesis by (auto simp: Pool_get_def Let_def split: if_splits)
    qed
    let ?p' = "p\<lparr>cycle := cy, offset := ?o, pstore := st4\<rparr>"
    have sub: "i2h st4 \<subseteq>\<^sub>m ?m(?o \<mapsto> ?h)" using pu(4) st2(3) by simp
    then have "dom (i2h st4) \<subseteq> insert ?o (dom ?m)" by (auto dest!: map_le_implies_dom_le)
    then have "pinv ?p'" using pinv_update [OF assms(1) pu(3)] by blast
    moreover have "Pool_Lookup S host p = Some (?o, ?p')"
      using g(1) False get pu(2) by (simp add: Pool_Lookup_def Let_def)
    moreover have "same_bounds p ?p'" by (simp add: same_bounds_def)
    ultimately show ?thesis
      using rng pu(5) sub False by (intro exI [of _ ?o] exI [of _ ?p'] conjI) simp_all
  qed
qed

lemma LookBack_ok:
  assumes "pinv p" and "aok a"
  shows "\<exists>p'. Pool_LookBack S a p = Some (case i2h (pstore p) a of None \<Rightarrow> ('''', False) | Some h \<Rightarrow> (h, True), p')
    \<and> pinv p' \<and> same_bounds p p' \<and> i2h (pstore p') = i2h (pstore p)"
proof -
  from GetByIP_law [OF pinv_store [OF assms(1)] assms(2)] obtain st where
    g: "st_GetByIP S a (pstore p) = Some (case i2h (pstore p) a of None \<Rightarrow> ('''', False) | Some h \<Rightarrow> (h, True), st)"
    "sinv st" "i2h st = i2h (pstore p)" by blast
  have "pinv (p\<lparr>pstore := st\<rparr>)" using pinv_update [OF assms(1) g(2), of "offset p" "cycle p"] g(3) by auto
  with g show ?thesis by (auto simp: Pool_LookBack_def same_bounds_def)
qed

lemma Flush_ok:
  assumes "pinv p"
  shows "\<exists>p'. Pool_FlushFakeIP S p = Some (None, p') \<and> pinv p' \<and> same_bounds p p'
    \<and> i2h (pstore p') = Map.empty \<and> next_offset p' = first p'"
proof -
  from Flush_law [OF pinv_store [OF assms]] obtain st where
    f: "st_FlushFakeIP S (pstore p) = Some (None, st)" "sinv st" "i2h st = Map.empty" by blast
  let ?p' = "p\<lparr>pstore := st, cycle := False, offset := addr_Prev (first p)\<rparr>"
  have "pinv ?p'" using assms f by (auto simp: pool_inv_def in_range_def)
  moreover have "next_offset ?p' = first ?p'"
    using assms by (auto simp: pool_inv_def next_offset_def addr_Next_Prev)
  moreover have "Pool_FlushFakeIP S p = Some (None, ?p')" using f(1) by (simp add: Pool_FlushFakeIP_def Let_def)
  ultimately show ?thesis using f(3) by (auto simp: same_bounds_def)
qed

lemma pool_step_ok:
  assumes "pinv p" and "op_ok hok aok op" and "\<And>a. in_range p a \<Longrightarrow> aok a"
  shows "\<exists>r p'. pool_step S op p = Some (r, p') \<and> pinv p' \<and> same_bounds p p'"
proof (cases op)
  case (PLookup h) with Lookup_ok [OF assms(1) _ assms(3), of h] assms(2) show ?thesis by auto
next
  case (PLookBack a) with LookBack_ok [OF assms(1), of a] assms(2) show ?thesis by (auto split: option.splits)
next
  case (PExist a) with assms(1) show ?thesis by (auto simp: same_bounds_def)
next
  case PFlush with Flush_ok [OF assms(1)] show ?thesis by auto
qed

lemma pool_run_ok:
  "pinv p \<Longrightarrow> list_all (op_ok hok aok) ops \<Longrightarrow> (\<And>a. in_range p a \<Longrightarrow> aok a) \<Longrightarrow>
     \<exists>rs p'. pool_run S ops p = Some (rs, p') \<and> pinv p' \<and> same_bounds p p'"
proof (induction ops arbitrary: p)
  case (Cons op ops)
  from pool_step_ok [OF Cons.prems(1) _ Cons.prems(3), of op] Cons.prems(2) obtain r p1 where
    s: "pool_step S op p = Some (r, p1)" "pinv p1" "same_bounds p p1" by auto
  with Cons.IH [OF s(2)] Cons.prems same_bounds_range [OF s(3)] obtain rs p2 where
    "pool_run S ops p1 = Some (rs, p2)" "pinv p2" "same_bounds p1 p2" by auto
  with s show ?case by (auto simp: same_bounds_def)
qed (simp add: same_bounds_def)

text \<open>Looking a host up and back, after any run.\<close>

lemma lookup_lookback:
  assumes "pinv p" and "hok (ToLower host)" and "\<And>a. in_range p a \<Longrightarrow> aok a"
  shows "\<exists>ip p1 p2 p3. Pool_Lookup S host p = Some (ip, p1) \<and> in_range p ip
    \<and> Pool_LookBack S ip p1 = Some ((ToLower host, True), p2) \<and> Pool_Lookup S host p2 = Some (ip, p3)"
proof -
  from Lookup_ok [OF assms] obtain ip p1 where
    l: "Pool_Lookup S host p = Some (ip, p1)" "pinv p1" "same_bounds p p1" "in_range p ip"
    "i2h (pstore p1) ip = Some (ToLower host)" by blast
  from LookBack_ok [OF l(2) assms(3) [OF l(4)]] l(5) obtain p2 where
    b: "Pool_LookBack S ip p1 = Some ((ToLower host, True), p2)" "pinv p2" "same_bounds p1 p2"
    "i2h (pstore p2) = i2h (pstore p1)" by auto
  have "\<And>a. in_range p2 a \<Longrightarrow> aok a"
    using assms(3) same_bounds_range [OF l(3)] same_bounds_range [OF b(3)] by simp
  from Lookup_ok [OF b(2) assms(2) this] b(4) l(5) obtain p3 where "Pool_Lookup S host p2 = Some (ip, p3)"
    by auto
  with l(1,4) b(1) show ?thesis by blast
qed

text \<open>Two addresses never stand for the same host.\<close>

lemma lookback_inj:
  assumes "pinv p" and "aok a" and "aok b"
    and "Pool_LookBack S a p = Some ((h, True), p1)" and "Pool_LookBack S b p = Some ((h, True), p2)"
  shows "a = b"
proof -
  have "i2h (pstore p) a = Some h"
    using LookBack_ok [OF assms(1,2)] assms(4) by (cases "i2h (pstore p) a") auto
  moreover have "i2h (pstore p) b = Some h"
    using LookBack_ok [OF assms(1,3)] assms(5) by (cases "i2h (pstore p) b") auto
  ultimately show ?thesis by (rule inj_law [OF pinv_store [OF assms(1)]])
qed

end

end
