(* ===== verification/Fakeip_Memory.thy ===== *)
theory Fakeip_Memory
  imports Fakeip_Pool Lru_Properties
begin

text \<open>
  The memory store of \<open>src/component/fakeip/memory.go\<close>: two LRU caches, from hosts to addresses
  and from addresses to hosts. The store is right only as long as both caches evict the same
  pairs: the invariant \<open>mem_inv\<close> says that they hold the same pairs in the same recency order,
  and every operation the pool uses keeps it. The caches have no age, so they never read the
  clock and the clock arguments are irrelevant.
\<close>

record ('l, 'el) memoryStore =
  ip_world :: "(string, addr, unit) world"
  cacheIP :: "(string, addr, unit, 'l, 'el) LruCache"
  host_world :: "(addr, string, unit) world"
  cacheHost :: "(addr, string, unit, 'l, 'el) LruCache"

definition newMemoryStore :: "('l, 'el, nat) list_ops \<Rightarrow> int \<Rightarrow> ('l, 'el) memoryStore" where
  "newMemoryStore L sz =
     \<lparr>ip_world = \<lparr>heap = [], env = ()\<rparr>, cacheIP = LruCache_New L [WithSize sz],
      host_world = \<lparr>heap = [], env = ()\<rparr>, cacheHost = LruCache_New L [WithSize sz]\<rparr>"

definition mem_GetByHost ::
  "('l, 'el, nat) list_ops \<Rightarrow> string \<Rightarrow> ('l, 'el) memoryStore \<Rightarrow> ((addr \<times> bool) \<times> ('l, 'el) memoryStore) option" where
  "mem_GetByHost L host m = do {
     ((ip, exist), w, c) \<leftarrow> LruCache_Get L AddrZero 0 0 host (ip_world m) (cacheIP m);
     let m = m\<lparr>ip_world := w, cacheIP := c\<rparr>;
     if exist then do {
       (_, w, c) \<leftarrow> LruCache_Get L '''' 0 0 ip (host_world m) (cacheHost m);
       Some ((ip, True), m\<lparr>host_world := w, cacheHost := c\<rparr>) }
     else Some ((AddrZero, False), m) }"

definition mem_PutByHost ::
  "('l, 'el, nat) list_ops \<Rightarrow> string \<Rightarrow> addr \<Rightarrow> ('l, 'el) memoryStore \<Rightarrow> ('l, 'el) memoryStore option" where
  "mem_PutByHost L host ip m = do {
     (w, c) \<leftarrow> LruCache_Set L 0 0 host ip (ip_world m) (cacheIP m);
     Some (m\<lparr>ip_world := w, cacheIP := c\<rparr>) }"

definition mem_GetByIP ::
  "('l, 'el, nat) list_ops \<Rightarrow> addr \<Rightarrow> ('l, 'el) memoryStore \<Rightarrow> ((string \<times> bool) \<times> ('l, 'el) memoryStore) option" where
  "mem_GetByIP L ip m = do {
     ((host, exist), w, c) \<leftarrow> LruCache_Get L '''' 0 0 ip (host_world m) (cacheHost m);
     let m = m\<lparr>host_world := w, cacheHost := c\<rparr>;
     if exist then do {
       (_, w, c) \<leftarrow> LruCache_Get L AddrZero 0 0 host (ip_world m) (cacheIP m);
       Some ((host, True), m\<lparr>ip_world := w, cacheIP := c\<rparr>) }
     else Some (('''', False), m) }"

definition mem_PutByIP ::
  "('l, 'el, nat) list_ops \<Rightarrow> addr \<Rightarrow> string \<Rightarrow> ('l, 'el) memoryStore \<Rightarrow> ('l, 'el) memoryStore option" where
  "mem_PutByIP L ip host m = do {
     (w, c) \<leftarrow> LruCache_Set L 0 0 ip host (host_world m) (cacheHost m);
     Some (m\<lparr>host_world := w, cacheHost := c\<rparr>) }"

definition mem_DelByIP ::
  "('l, 'el, nat) list_ops \<Rightarrow> addr \<Rightarrow> ('l, 'el) memoryStore \<Rightarrow> ('l, 'el) memoryStore option" where
  "mem_DelByIP L ip m = do {
     ((host, exist), w, c) \<leftarrow> LruCache_Get L '''' 0 0 ip (host_world m) (cacheHost m);
     let m = m\<lparr>host_world := w, cacheHost := c\<rparr>;
     let m = (if exist
              then (case LruCache_Delete L host (ip_world m) (cacheIP m) of (w, c) \<Rightarrow>
                      m\<lparr>ip_world := w, cacheIP := c\<rparr>)
              else m);
     case LruCache_Delete L ip (host_world m) (cacheHost m) of (w, c) \<Rightarrow>
       Some (m\<lparr>host_world := w, cacheHost := c\<rparr>) }"

definition mem_Exist :: "addr \<Rightarrow> ('l, 'el) memoryStore \<Rightarrow> bool" where
  "mem_Exist ip m = LruCache_Exist ip (cacheHost m)"

text \<open>
  The clone refers to the entries of the source, so it takes the source's heaps. Writes through
  the source after that (which it would see, see \<open>clone_shares_entries\<close>) are not modelled: the
  pool drops its old store.
\<close>

definition mem_CloneTo ::
  "('l, 'el, nat) list_ops \<Rightarrow> ('l, 'el) memoryStore \<Rightarrow> ('l, 'el) memoryStore \<Rightarrow> ('l, 'el) memoryStore option" where
  "mem_CloneTo L m ms = do {
     c1 \<leftarrow> CloneTo L (ip_world m) (cacheIP m) (cacheIP ms);
     c2 \<leftarrow> CloneTo L (host_world m) (cacheHost m) (cacheHost ms);
     Some (ms\<lparr>ip_world := ip_world m, cacheIP := c1, host_world := host_world m, cacheHost := c2\<rparr>) }"

definition mem_FlushFakeIP ::
  "('l, 'el, nat) list_ops \<Rightarrow> ('l, 'el) memoryStore \<Rightarrow> (string option \<times> ('l, 'el) memoryStore) option" where
  "mem_FlushFakeIP L m =
     Some (None, m\<lparr>cacheIP := LruCache_Clear L (cacheIP m), cacheHost := LruCache_Clear L (cacheHost m)\<rparr>)"

definition mem_store :: "('l, 'el, nat) list_ops \<Rightarrow> ('l, 'el) memoryStore store" where
  "mem_store L =
     \<lparr>st_GetByHost = mem_GetByHost L, st_PutByHost = mem_PutByHost L, st_GetByIP = mem_GetByIP L,
      st_PutByIP = mem_PutByIP L, st_DelByIP = mem_DelByIP L, st_Exist = mem_Exist,
      st_CloneTo = mem_CloneTo L, st_FlushFakeIP = mem_FlushFakeIP L,
      st_isCachefile = (\<lambda>_. False), st_Sync = Some\<rparr>"

section \<open>The two caches in lockstep\<close>

definition pairs_of_host :: "(addr, string) entry list \<Rightarrow> (addr \<times> string) list" where
  "pairs_of_host ys = map (\<lambda>e. (ekey e, evalue e)) ys"

definition pairs_of_ip :: "(string, addr) entry list \<Rightarrow> (addr \<times> string) list" where
  "pairs_of_ip xs = map (\<lambda>e. (evalue e, ekey e)) xs"

definition ageless :: "('k, 'v, unit, 'l, 'el) LruCache \<Rightarrow> bool" where
  "ageless c \<longleftrightarrow> maxAge c = 0"

definition mem_pairs ::
  "('l, 'el, nat) list_ops \<Rightarrow> ('l \<Rightarrow> 'el list) \<Rightarrow> ('l, 'el) memoryStore \<Rightarrow> (addr \<times> string) list" where
  "mem_pairs L labs m = pairs_of_host (lru_view L labs (host_world m) (cacheHost m))"

definition mem_i2h ::
  "('l, 'el, nat) list_ops \<Rightarrow> ('l \<Rightarrow> 'el list) \<Rightarrow> ('l, 'el) memoryStore \<Rightarrow> addr \<Rightarrow> string option" where
  "mem_i2h L labs m = map_of (mem_pairs L labs m)"

definition mem_inv ::
  "('l, 'el, nat) list_ops \<Rightarrow> ('l \<Rightarrow> 'el list) \<Rightarrow> ('l \<Rightarrow> bool) \<Rightarrow> ('l, 'el) memoryStore \<Rightarrow> bool" where
  "mem_inv L labs linv m \<longleftrightarrow>
     lru_inv L labs linv (ip_world m) (cacheIP m) \<and> lru_inv L labs linv (host_world m) (cacheHost m)
     \<and> ageless (cacheIP m) \<and> ageless (cacheHost m) \<and> maxSize (cacheIP m) = maxSize (cacheHost m)
     \<and> pairs_of_ip (lru_view L labs (ip_world m) (cacheIP m)) = mem_pairs L labs m"

text \<open>The specification of the cache without age.\<close>

lemma spec_get_ageless:
  assumes "ageless c"
  shows "spec_get c t0 t1 k xs =
    (case spec_lookup k xs of None \<Rightarrow> (None, xs, []) | Some e \<Rightarrow> (Some e, spec_delete k xs @ [e], []))"
  using assms by (auto simp: spec_get_def ageless_def ages_def Let_def split: option.splits)

lemma spec_set_ageless:
  assumes "ageless c" and "spec_lookup k xs = None"
  shows "fst (spec_set c t k v x xs) =
    (let ys = xs @ [\<lparr>ekey = k, evalue = v, eexpires = x\<rparr>] in
     if maxSize c > 0 \<and> int (length ys) > maxSize c then tl ys else ys)"
  using assms by (auto simp: spec_set_def spec_expire_def ageless_def ages_def Let_def spec_delete_absent)

lemma same_cfg_ageless: "same_cfg a b \<Longrightarrow> ageless b = ageless a"
  by (simp add: same_cfg_def ageless_def)

text \<open>Deleting by host and by address is the same on pairs that are one to one.\<close>

lemma pairs_delete_host: "pairs_of_host (spec_delete a ys) = filter (\<lambda>p. fst p \<noteq> a) (pairs_of_host ys)"
  by (simp add: pairs_of_host_def spec_delete_def filter_map comp_def)

lemma pairs_delete_ip: "pairs_of_ip (spec_delete h xs) = filter (\<lambda>p. snd p \<noteq> h) (pairs_of_ip xs)"
  by (simp add: pairs_of_ip_def spec_delete_def filter_map comp_def)

lemma filter_pair_eq:
  assumes "distinct (map fst ps)" and "distinct (map snd ps)" and "(a, h) \<in> set ps"
  shows "filter (\<lambda>p. snd p \<noteq> h) ps = filter (\<lambda>p. fst p \<noteq> a) ps"
proof (rule filter_cong [OF refl])
  fix p assume p: "p \<in> set ps"
  have "inj_on fst (set ps)" "inj_on snd (set ps)" using assms(1,2) by (simp_all add: distinct_map)
  then show "snd p \<noteq> h \<longleftrightarrow> fst p \<noteq> a"
    using p assms(3) by (metis fst_conv inj_onD snd_conv)
qed

lemma map_of_filter_key: "map_of (filter (\<lambda>p. fst p \<noteq> a) ps) = (map_of ps)(a := None)"
  by (induction ps) auto

lemma Clear_cfg: "ageless (LruCache_Clear L c) = ageless c" "maxSize (LruCache_Clear L c) = maxSize c"
  by (simp_all add: LruCache_Clear_def ageless_def)

lemma New_cfg: "ageless (LruCache_New L [WithSize n])" "maxSize (LruCache_New L [WithSize n]) = n"
  by (simp_all add: LruCache_New_def LruCache_Clear_def WithSize_def ageless_def)

lemma eq_value_imp_eq_key: "distinct (map snd ps) \<Longrightarrow> (a, h) \<in> set ps \<Longrightarrow> (b, h) \<in> set ps \<Longrightarrow> a = b"
  by (induction ps) force+

lemma lookup_host_pairs:
  assumes "distinct (map fst (pairs_of_host ys))"
  shows "map_of (pairs_of_host ys) a = map_option evalue (spec_lookup a ys)"
  using assms by (induction ys) (auto simp: pairs_of_host_def spec_lookup_def)

lemma lookup_ip_pairs: "spec_lookup h xs = Some e \<Longrightarrow> (evalue e, h) \<in> set (pairs_of_ip xs)"
  using spec_lookup_SomeD [of h xs e] by (auto simp: pairs_of_ip_def)

lemma lookup_ip_None: "spec_lookup h xs = None \<longleftrightarrow> h \<notin> snd ` set (pairs_of_ip xs)"
  by (auto simp: spec_lookup_None_iff pairs_of_ip_def image_image)

lemma lookup_host_None: "spec_lookup a ys = None \<longleftrightarrow> a \<notin> fst ` set (pairs_of_host ys)"
  by (auto simp: spec_lookup_None_iff pairs_of_host_def image_image)

lemma map_fst_pairs_host: "map fst (pairs_of_host ys) = map ekey ys"
  by (simp add: pairs_of_host_def)

lemma map_snd_pairs_ip: "map snd (pairs_of_ip xs) = map ekey xs"
  by (simp add: pairs_of_ip_def)

section \<open>The memory store provides the interface\<close>

context glist
begin

abbreviation "minv \<equiv> mem_inv L labs linv"
abbreviation "mpairs \<equiv> mem_pairs L labs"

lemma minvD:
  assumes "minv m"
  shows "lru_inv L labs linv (ip_world m) (cacheIP m)" and "lru_inv L labs linv (host_world m) (cacheHost m)"
    and "ageless (cacheIP m)" and "ageless (cacheHost m)" and "maxSize (cacheIP m) = maxSize (cacheHost m)"
    and "pairs_of_ip (cview (ip_world m) (cacheIP m)) = mpairs m"
    and "pairs_of_host (cview (host_world m) (cacheHost m)) = mpairs m"
    and "distinct (map fst (mpairs m))" and "distinct (map snd (mpairs m))"
proof -
  show i: "lru_inv L labs linv (ip_world m) (cacheIP m)" "lru_inv L labs linv (host_world m) (cacheHost m)"
    "ageless (cacheIP m)" "ageless (cacheHost m)" "maxSize (cacheIP m) = maxSize (cacheHost m)"
    and p: "pairs_of_ip (cview (ip_world m) (cacheIP m)) = mpairs m"
    using assms by (simp_all add: mem_inv_def)
  show q: "pairs_of_host (cview (host_world m) (cacheHost m)) = mpairs m" by (simp add: mem_pairs_def)
  show "distinct (map fst (mpairs m))"
    using invD(5) [OF i(2)] by (simp add: q [symmetric] map_fst_pairs_host)
  show "distinct (map snd (mpairs m))"
    using invD(5) [OF i(1)] by (simp add: p [symmetric] map_snd_pairs_ip)
qed

text \<open>What an operation leaves: well-formed caches with given pairs.\<close>

lemma minvI:
  assumes "minv m" and "cpost (ip_world m) (cacheIP m) (xs, ev) w c" and "cpost (host_world m) (cacheHost m) (ys, ev') w' c'"
    and "pairs_of_ip xs = ps" and "pairs_of_host ys = ps"
  shows "minv (m\<lparr>ip_world := w, cacheIP := c, host_world := w', cacheHost := c'\<rparr>)"
    and "mpairs (m\<lparr>ip_world := w, cacheIP := c, host_world := w', cacheHost := c'\<rparr>) = ps"
  using assms minvD(3-5) [OF assms(1)]
  by (auto simp: mem_inv_def mem_pairs_def lru_post_def same_cfg_def ageless_def)

lemma Get_view:
  assumes "lru_inv L labs linv w c" and "ageless c"
  shows "\<exists>w' c'. LruCache_Get L z t0 t1 k w c =
      Some (case spec_lookup k (cview w c) of None \<Rightarrow> (z, False) | Some e \<Rightarrow> (evalue e, True), w', c')
    \<and> cpost w c (case spec_lookup k (cview w c) of None \<Rightarrow> cview w c | Some e \<Rightarrow> spec_delete k (cview w c) @ [e], []) w' c'"
  using lru_get_ok [OF assms(1), of t0 t1 k]
  by (auto simp: LruCache_Get_def spec_get_ageless [OF assms(2)] split: option.splits)

text \<open>Both caches move the same pair to the back.\<close>

lemma move_pair:
  assumes "minv m" and "(a, h) \<in> set (mpairs m)"
  obtains e1 e2 where "spec_lookup h (cview (ip_world m) (cacheIP m)) = Some e1" and "evalue e1 = a"
    and "spec_lookup a (cview (host_world m) (cacheHost m)) = Some e2" and "evalue e2 = h"
    and "pairs_of_ip (spec_delete h (cview (ip_world m) (cacheIP m)) @ [e1]) = filter (\<lambda>p. fst p \<noteq> a) (mpairs m) @ [(a, h)]"
    and "pairs_of_host (spec_delete a (cview (host_world m) (cacheHost m)) @ [e2]) = filter (\<lambda>p. fst p \<noteq> a) (mpairs m) @ [(a, h)]"
proof -
  note d = minvD [OF assms(1)]
  obtain e1 where e1: "spec_lookup h (cview (ip_world m) (cacheIP m)) = Some e1"
    using assms(2) lookup_ip_None [of h "cview (ip_world m) (cacheIP m)"] d(6) by (cases "spec_lookup h (cview (ip_world m) (cacheIP m))") force+
  have v1: "evalue e1 = a"
    using lookup_ip_pairs [OF e1] d(6,9) assms(2) by (metis (no_types, lifting) distinct_map inj_onD prod.inject snd_conv)
  obtain e2 where e2: "spec_lookup a (cview (host_world m) (cacheHost m)) = Some e2"
    using assms(2) lookup_host_None [of a "cview (host_world m) (cacheHost m)"] d(7) by (cases "spec_lookup a (cview (host_world m) (cacheHost m))") force+
  have v2: "evalue e2 = h"
    using lookup_host_pairs [of "cview (host_world m) (cacheHost m)" a] d(7,8) assms(2) e2 by simp
  have k: "ekey e1 = h" "ekey e2 = a" using spec_lookup_SomeD [OF e1] spec_lookup_SomeD [OF e2] by auto
  show ?thesis
  proof (rule that [OF e1 v1 e2 v2])
    show "pairs_of_ip (spec_delete h (cview (ip_world m) (cacheIP m)) @ [e1]) = filter (\<lambda>p. fst p \<noteq> a) (mpairs m) @ [(a, h)]"
      using pairs_delete_ip [of h "cview (ip_world m) (cacheIP m)"] d(6) filter_pair_eq [OF d(8,9) assms(2)] k v1
      by (simp add: pairs_of_ip_def)
    show "pairs_of_host (spec_delete a (cview (host_world m) (cacheHost m)) @ [e2]) = filter (\<lambda>p. fst p \<noteq> a) (mpairs m) @ [(a, h)]"
      using pairs_delete_host [of a "cview (host_world m) (cacheHost m)"] d(7) k v2 by (simp add: pairs_of_host_def)
  qed
qed

lemma mem_i2h_iff: "minv m \<Longrightarrow> mem_i2h L labs m a = Some h \<longleftrightarrow> (a, h) \<in> set (mpairs m)"
  by (simp add: mem_i2h_def minvD(8) map_of_eq_Some_iff)

lemma mem_i2h_eqI:
  assumes "minv m" and "minv m'" and "set (mpairs m') = set (mpairs m)"
  shows "mem_i2h L labs m' = mem_i2h L labs m"
proof
  fix a
  have "mem_i2h L labs m' a = Some h \<longleftrightarrow> mem_i2h L labs m a = Some h" for h
    using assms by (simp add: mem_i2h_iff)
  then show "mem_i2h L labs m' a = mem_i2h L labs m a" by (metis option.exhaust)
qed

lemma set_move: "(a, h) \<in> set ps \<Longrightarrow> distinct (map fst ps) \<Longrightarrow>
    set (filter (\<lambda>p. fst p \<noteq> a) ps @ [(a, h)]) = set ps"
  by (auto dest: eq_key_imp_eq_value)

lemma mem_GetByHost_law:
  assumes "minv m"
  shows "\<exists>ip m'. mem_GetByHost L h m = Some ((ip, \<exists>a. mem_i2h L labs m a = Some h), m') \<and> minv m'
    \<and> mem_i2h L labs m' = mem_i2h L labs m \<and> (\<forall>a. mem_i2h L labs m a = Some h \<longrightarrow> ip = a)"
proof (cases "\<exists>a. (a, h) \<in> set (mpairs m)")
  case False
  note d = minvD [OF assms]
  have "spec_lookup h (cview (ip_world m) (cacheIP m)) = None"
    using False lookup_ip_None d(6) by force
  with Get_view [OF d(1,3), of AddrZero 0 0 h] obtain w c where
    g: "LruCache_Get L AddrZero 0 0 h (ip_world m) (cacheIP m) = Some ((AddrZero, False), w, c)"
    "cpost (ip_world m) (cacheIP m) (cview (ip_world m) (cacheIP m), []) w c" by auto
  have "minv (m\<lparr>ip_world := w, cacheIP := c\<rparr>)" "mpairs (m\<lparr>ip_world := w, cacheIP := c\<rparr>) = mpairs m"
    using minvI [OF assms g(2) lru_post_refl [OF d(2)] d(6) d(7)] by simp_all
  moreover have "mem_GetByHost L h m = Some ((AddrZero, False), m\<lparr>ip_world := w, cacheIP := c\<rparr>)"
    using g(1) by (simp add: mem_GetByHost_def)
  ultimately show ?thesis
    using False mem_i2h_iff [OF assms] mem_i2h_eqI [OF assms] by auto
next
  case True
  then obtain a where a: "(a, h) \<in> set (mpairs m)" by blast
  note d = minvD [OF assms]
  from assms a show ?thesis
  proof (rule move_pair)
    fix e1 e2
    assume e: "spec_lookup h (cview (ip_world m) (cacheIP m)) = Some e1" "evalue e1 = a"
      "spec_lookup a (cview (host_world m) (cacheHost m)) = Some e2" "evalue e2 = h"
      "pairs_of_ip (spec_delete h (cview (ip_world m) (cacheIP m)) @ [e1]) = filter (\<lambda>p. fst p \<noteq> a) (mpairs m) @ [(a, h)]"
      "pairs_of_host (spec_delete a (cview (host_world m) (cacheHost m)) @ [e2]) = filter (\<lambda>p. fst p \<noteq> a) (mpairs m) @ [(a, h)]"
    from Get_view [OF d(1,3), of AddrZero 0 0 h] e obtain w c where
      g1: "LruCache_Get L AddrZero 0 0 h (ip_world m) (cacheIP m) = Some ((a, True), w, c)"
      "cpost (ip_world m) (cacheIP m) (spec_delete h (cview (ip_world m) (cacheIP m)) @ [e1], []) w c" by auto
    from Get_view [OF d(2,4), of "''''" 0 0 a] e obtain w' c' where
      g2: "LruCache_Get L '''' 0 0 a (host_world m) (cacheHost m) = Some ((h, True), w', c')"
      "cpost (host_world m) (cacheHost m) (spec_delete a (cview (host_world m) (cacheHost m)) @ [e2], []) w' c'" by auto
    let ?m = "m\<lparr>ip_world := w, cacheIP := c, host_world := w', cacheHost := c'\<rparr>"
    have m: "minv ?m" "mpairs ?m = filter (\<lambda>p. fst p \<noteq> a) (mpairs m) @ [(a, h)]"
      using minvI [OF assms g1(2) g2(2) e(5,6)] by simp_all
    then have "mem_i2h L labs ?m = mem_i2h L labs m"
      using mem_i2h_eqI [OF assms] set_move [OF a d(8)] by simp
    moreover have "(\<exists>a. mem_i2h L labs m a = Some h) = True" using mem_i2h_iff [OF assms] a by blast
    then have "mem_GetByHost L h m = Some ((a, \<exists>a. mem_i2h L labs m a = Some h), ?m)"
      using g1(1) g2(1) by (simp add: mem_GetByHost_def)
    moreover have "\<forall>b. mem_i2h L labs m b = Some h \<longrightarrow> a = b"
      using mem_i2h_iff [OF assms] by (blast intro: eq_value_imp_eq_key [OF d(9) a])
    ultimately show ?thesis using m(1) by blast
  qed
qed

lemma mem_GetByIP_law:
  assumes "minv m"
  shows "\<exists>m'. mem_GetByIP L a m = Some (case mem_i2h L labs m a of None \<Rightarrow> ('''', False) | Some h \<Rightarrow> (h, True), m')
    \<and> minv m' \<and> mem_i2h L labs m' = mem_i2h L labs m"
proof (cases "mem_i2h L labs m a")
  case None
  note d = minvD [OF assms]
  have "spec_lookup a (cview (host_world m) (cacheHost m)) = None"
    using None lookup_host_pairs [of "cview (host_world m) (cacheHost m)" a] d(7,8) by (simp add: mem_i2h_def)
  with Get_view [OF d(2,4), of "''''" 0 0 a] obtain w c where
    g: "LruCache_Get L '''' 0 0 a (host_world m) (cacheHost m) = Some (('''', False), w, c)"
    "cpost (host_world m) (cacheHost m) (cview (host_world m) (cacheHost m), []) w c" by auto
  have "minv (m\<lparr>host_world := w, cacheHost := c\<rparr>)" "mpairs (m\<lparr>host_world := w, cacheHost := c\<rparr>) = mpairs m"
    using minvI [OF assms lru_post_refl [OF d(1)] g(2) d(6,7)] by simp_all
  moreover have "mem_GetByIP L a m = Some (('''', False), m\<lparr>host_world := w, cacheHost := c\<rparr>)"
    using g(1) by (simp add: mem_GetByIP_def)
  ultimately show ?thesis using None mem_i2h_eqI [OF assms] by auto
next
  case (Some h)
  then have a: "(a, h) \<in> set (mpairs m)" using mem_i2h_iff [OF assms] by simp
  note d = minvD [OF assms]
  from assms a show ?thesis
  proof (rule move_pair)
    fix e1 e2
    assume e: "spec_lookup h (cview (ip_world m) (cacheIP m)) = Some e1" "evalue e1 = a"
      "spec_lookup a (cview (host_world m) (cacheHost m)) = Some e2" "evalue e2 = h"
      "pairs_of_ip (spec_delete h (cview (ip_world m) (cacheIP m)) @ [e1]) = filter (\<lambda>p. fst p \<noteq> a) (mpairs m) @ [(a, h)]"
      "pairs_of_host (spec_delete a (cview (host_world m) (cacheHost m)) @ [e2]) = filter (\<lambda>p. fst p \<noteq> a) (mpairs m) @ [(a, h)]"
    from Get_view [OF d(1,3), of AddrZero 0 0 h] e obtain w c where
      g1: "LruCache_Get L AddrZero 0 0 h (ip_world m) (cacheIP m) = Some ((a, True), w, c)"
      "cpost (ip_world m) (cacheIP m) (spec_delete h (cview (ip_world m) (cacheIP m)) @ [e1], []) w c" by auto
    from Get_view [OF d(2,4), of "''''" 0 0 a] e obtain w' c' where
      g2: "LruCache_Get L '''' 0 0 a (host_world m) (cacheHost m) = Some ((h, True), w', c')"
      "cpost (host_world m) (cacheHost m) (spec_delete a (cview (host_world m) (cacheHost m)) @ [e2], []) w' c'" by auto
    let ?m = "m\<lparr>ip_world := w, cacheIP := c, host_world := w', cacheHost := c'\<rparr>"
    have m: "minv ?m" "mpairs ?m = filter (\<lambda>p. fst p \<noteq> a) (mpairs m) @ [(a, h)]"
      using minvI [OF assms g1(2) g2(2) e(5,6)] by simp_all
    then have "mem_i2h L labs ?m = mem_i2h L labs m"
      using mem_i2h_eqI [OF assms] set_move [OF a d(8)] by simp
    moreover have "m\<lparr>host_world := w', cacheHost := c', ip_world := w, cacheIP := c\<rparr> = ?m" by (cases m) simp
    then have "mem_GetByIP L a m = Some ((h, True), ?m)"
      using g1(1) g2(1) by (simp add: mem_GetByIP_def)
    ultimately show ?thesis using m(1) Some by simp
  qed
qed

lemma mem_i2h_delete:
  assumes "minv m" and "minv m'" and "mpairs m' = filter (\<lambda>p. fst p \<noteq> a) (mpairs m)"
  shows "mem_i2h L labs m' = (mem_i2h L labs m)(a := None)"
  using assms(3) by (simp add: mem_i2h_def map_of_filter_key)

lemma mem_DelByIP_law:
  assumes "minv m"
  shows "\<exists>m'. mem_DelByIP L a m = Some m' \<and> minv m' \<and> mem_i2h L labs m' = (mem_i2h L labs m)(a := None)"
proof -
  note d = minvD [OF assms]
  let ?xs = "cview (ip_world m) (cacheIP m)" and ?ys = "cview (host_world m) (cacheHost m)"
  obtain w c where g: "LruCache_Get L '''' 0 0 a (host_world m) (cacheHost m) =
      Some (case spec_lookup a ?ys of None \<Rightarrow> ('''', False) | Some e \<Rightarrow> (evalue e, True), w, c)"
    "cpost (host_world m) (cacheHost m)
      (case spec_lookup a ?ys of None \<Rightarrow> ?ys | Some e \<Rightarrow> spec_delete a ?ys @ [e], []) w c"
    using Get_view [OF d(2,4), of "''''" 0 0 a] by blast
  from g(2) have gi: "cinv w c" by (simp add: lru_post_def)
  from lru_delete_ok [OF gi, of a] obtain w2 c2 ev where
    h: "lru_delete L a w c = (w2, c2)" "cpost w c (spec_delete a (cview w c), ev) w2 c2" by blast
  have del: "spec_delete a (cview w c) = spec_delete a ?ys"
    using g(2) spec_lookup_SomeD [of a ?ys] by (auto simp: lru_post_def spec_delete_def split: option.splits)
  obtain ev2 where ch: "cpost (host_world m) (cacheHost m) (spec_delete a ?ys, ev2) w2 c2"
    using lru_post_trans [OF g(2) h(2)] del by auto
  show ?thesis
  proof (cases "spec_lookup a ?ys")
    case None
    let ?m = "m\<lparr>host_world := w2, cacheHost := c2\<rparr>"
    have "filter (\<lambda>p. fst p \<noteq> a) (mpairs m) = mpairs m"
      using None lookup_host_None [of a ?ys] d(7) by (force simp: filter_id_conv)
    then have ps: "pairs_of_ip ?xs = filter (\<lambda>p. fst p \<noteq> a) (mpairs m)" "pairs_of_host (spec_delete a ?ys) = filter (\<lambda>p. fst p \<noteq> a) (mpairs m)"
      using d(6,7) by (simp_all add: pairs_delete_host)
    have m: "minv ?m" "mpairs ?m = filter (\<lambda>p. fst p \<noteq> a) (mpairs m)"
      using minvI [OF assms lru_post_refl [OF d(1)] ch ps] by simp_all
    have "mem_DelByIP L a m = Some ?m"
      using g(1) None h(1) by (simp add: mem_DelByIP_def LruCache_Delete_def Let_def)
    with m mem_i2h_delete [OF assms m] show ?thesis by blast
  next
    case (Some e)
    then have mem: "(a, evalue e) \<in> set (mpairs m)"
      using spec_lookup_SomeD [OF Some] d(7) by (auto simp: pairs_of_host_def mem_pairs_def)
    from lru_delete_ok [OF d(1), of "evalue e"] obtain w1 c1 ev1 where
      i: "lru_delete L (evalue e) (ip_world m) (cacheIP m) = (w1, c1)"
      "cpost (ip_world m) (cacheIP m) (spec_delete (evalue e) ?xs, ev1) w1 c1" by blast
    let ?m = "m\<lparr>ip_world := w1, cacheIP := c1, host_world := w2, cacheHost := c2\<rparr>"
    have ps: "pairs_of_ip (spec_delete (evalue e) ?xs) = filter (\<lambda>p. fst p \<noteq> a) (mpairs m)"
      "pairs_of_host (spec_delete a ?ys) = filter (\<lambda>p. fst p \<noteq> a) (mpairs m)"
      using d(6,7) filter_pair_eq [OF d(8,9) mem] by (simp_all add: pairs_delete_host pairs_delete_ip)
    have m: "minv ?m" "mpairs ?m = filter (\<lambda>p. fst p \<noteq> a) (mpairs m)"
      using minvI [OF assms i(2) ch ps] by simp_all
    have "m\<lparr>host_world := w2, cacheHost := c2, ip_world := w1, cacheIP := c1\<rparr> = ?m" by (cases m) simp
    then have "mem_DelByIP L a m = Some ?m"
      using g(1) Some h(1) i(1) by (simp add: mem_DelByIP_def LruCache_Delete_def Let_def)
    with m mem_i2h_delete [OF assms m] show ?thesis by blast
  qed
qed

lemma mem_Put_law:
  assumes "minv m" and "mem_i2h L labs m a = None" and "\<And>b. mem_i2h L labs m b \<noteq> Some h"
  shows "\<exists>m1 m2. mem_PutByIP L a h m = Some m1 \<and> mem_PutByHost L h a m1 = Some m2 \<and> minv m2
    \<and> mem_i2h L labs m2 \<subseteq>\<^sub>m (mem_i2h L labs m)(a \<mapsto> h) \<and> mem_i2h L labs m2 a = Some h"
proof -
  note d = minvD [OF assms(1)]
  let ?xs = "cview (ip_world m) (cacheIP m)" and ?ys = "cview (host_world m) (cacheHost m)"
  have na: "a \<notin> fst ` set (mpairs m)" using assms(2) by (simp add: mem_i2h_def map_of_eq_None_iff)
  have nh: "h \<notin> snd ` set (mpairs m)" using assms(3) mem_i2h_iff [OF assms(1)] by force
  have ly: "spec_lookup a ?ys = None" using na d(7) lookup_host_None by metis
  have lx: "spec_lookup h ?xs = None" using nh d(6) lookup_ip_None by metis
  let ?big = "maxSize (cacheHost m) > 0 \<and> int (Suc (length (mpairs m))) > maxSize (cacheHost m)"
  let ?ps = "if ?big then tl (mpairs m @ [(a, h)]) else mpairs m @ [(a, h)]"
  from lru_set_ok [OF d(2), of 0 0 a h] obtain w2 c2 where
    s2: "lru_set L 0 0 a h (host_world m) (cacheHost m) = Some (w2, c2)"
    "cpost (host_world m) (cacheHost m) (spec_set (cacheHost m) 0 a h 0 ?ys) w2 c2"
    using d(4) by (auto simp: ageless_def)
  from lru_set_ok [OF d(1), of 0 0 h a] obtain w1 c1 where
    s1: "lru_set L 0 0 h a (ip_world m) (cacheIP m) = Some (w1, c1)"
    "cpost (ip_world m) (cacheIP m) (spec_set (cacheIP m) 0 h a 0 ?xs) w1 c1"
    using d(3) by (auto simp: ageless_def)
  have len: "length ?ys = length (mpairs m)" "length ?xs = length (mpairs m)"
    using d(6,7) by (metis length_map pairs_of_host_def, metis length_map pairs_of_ip_def)
  have ph: "pairs_of_host (fst (spec_set (cacheHost m) 0 a h 0 ?ys)) = ?ps"
    using d(7) len by (auto simp: spec_set_ageless [OF d(4) ly] Let_def pairs_of_host_def map_tl)
  have pi: "pairs_of_ip (fst (spec_set (cacheIP m) 0 h a 0 ?xs)) = ?ps"
    using d(5,6) len by (auto simp: spec_set_ageless [OF d(3) lx] Let_def pairs_of_ip_def map_tl)
  let ?m1 = "m\<lparr>host_world := w2, cacheHost := c2\<rparr>"
  let ?m2 = "m\<lparr>ip_world := w1, cacheIP := c1, host_world := w2, cacheHost := c2\<rparr>"
  obtain xs' ev1 ys' ev2 where spl: "spec_set (cacheIP m) 0 h a 0 ?xs = (xs', ev1)" "spec_set (cacheHost m) 0 a h 0 ?ys = (ys', ev2)"
    by (metis prod.collapse)
  have m: "minv ?m2" "mpairs ?m2 = ?ps"
    using minvI [OF assms(1), of xs' ev1 w1 c1 ys' ev2 w2 c2 ?ps] s1(2) s2(2) ph pi spl by simp_all
  have mem: "(b, g) \<in> set ?ps \<Longrightarrow> ((mem_i2h L labs m)(a \<mapsto> h)) b = Some g" for b g
  proof -
    assume "(b, g) \<in> set ?ps"
    then have "(b, g) \<in> set (mpairs m) \<or> (b, g) = (a, h)"
      by (cases "mpairs m") (auto split: if_splits)
    then show ?thesis using mem_i2h_iff [OF assms(1), of b g] na by force
  qed
  have last: "(a, h) \<in> set ?ps" by (cases "mpairs m") auto
  have "mem_i2h L labs ?m2 \<subseteq>\<^sub>m (mem_i2h L labs m)(a \<mapsto> h)"
    unfolding map_le_def using mem mem_i2h_iff [OF m(1)] m(2) by force
  moreover have "mem_i2h L labs ?m2 a = Some h" using last mem_i2h_iff [OF m(1)] m(2) by simp
  moreover have "mem_PutByIP L a h m = Some ?m1" using s2(1) by (simp add: mem_PutByIP_def LruCache_Set_def)
  moreover have "?m1\<lparr>ip_world := w1, cacheIP := c1\<rparr> = ?m2" by (cases m) simp
  then have "mem_PutByHost L h a ?m1 = Some ?m2" using s1(1) by (simp add: mem_PutByHost_def LruCache_Set_def)
  ultimately show ?thesis using m(1) by blast
qed

lemma mem_Exist_law: "minv m \<Longrightarrow> mem_Exist a m \<longleftrightarrow> mem_i2h L labs m a \<noteq> None"
  using Exist_ok [OF minvD(2)] lookup_host_pairs [of "cview (host_world m) (cacheHost m)" a] minvD(7,8) [of m]
  by (simp add: mem_Exist_def mem_i2h_def)

lemma mem_Flush_law:
  assumes "minv m"
  shows "\<exists>m'. mem_FlushFakeIP L m = Some (None, m') \<and> minv m' \<and> mem_i2h L labs m' = Map.empty"
  using assms
  by (simp add: mem_FlushFakeIP_def mem_inv_def mem_i2h_def mem_pairs_def Clear_ok Clear_cfg
      pairs_of_host_def pairs_of_ip_def)

lemma newMemoryStore_inv: "minv (newMemoryStore L n)" "mem_i2h L labs (newMemoryStore L n) = Map.empty"
  by (simp_all add: newMemoryStore_def mem_inv_def mem_i2h_def mem_pairs_def New_ok [OF glist_axioms] New_cfg
      pairs_of_host_def pairs_of_ip_def)

end

sublocale glist \<subseteq> memst: fakeip_store "mem_store L" "mem_inv L labs linv" "mem_i2h L labs" "\<lambda>_. True" "\<lambda>_. True"
proof
  show "mem_i2h L labs st a = Some h \<Longrightarrow> mem_i2h L labs st b = Some h \<Longrightarrow> a = b" if "mem_inv L labs linv st" for st a b h
    using mem_i2h_iff [OF that] eq_value_imp_eq_key [OF minvD(9) [OF that]] by blast
next
  show "\<exists>st'. st_FlushFakeIP (mem_store L) st = Some (None, st') \<and> mem_inv L labs linv st' \<and> mem_i2h L labs st' = Map.empty"
    if "mem_inv L labs linv st" for st
    using mem_Flush_law [OF that] by (auto simp: mem_store_def)
next
  show "\<exists>st1 st2. st_PutByIP (mem_store L) a h st = Some st1 \<and> st_PutByHost (mem_store L) h a st1 = Some st2
      \<and> mem_inv L labs linv st2 \<and> mem_i2h L labs st2 \<subseteq>\<^sub>m (mem_i2h L labs st)(a \<mapsto> h) \<and> mem_i2h L labs st2 a = Some h"
    if "mem_inv L labs linv st" "mem_i2h L labs st a = None" "\<And>b. mem_i2h L labs st b \<noteq> Some h" for st a h
    using mem_Put_law [OF that] by (simp add: mem_store_def)
qed (simp_all add: mem_store_def mem_GetByHost_law mem_GetByIP_law mem_Exist_law mem_DelByIP_law)

context glist
begin

lemma mem_fakeip_store:
  "fakeip_store (mem_store L) (mem_inv L labs linv) (mem_i2h L labs) (\<lambda>_. True) (\<lambda>_. True)"
  by (rule memst.fakeip_store_axioms)

end

end
