(* ===== verification/Fakeip_Cachefile.thy ===== *)
theory Fakeip_Cachefile
  imports Fakeip_Pool
begin

text \<open>
  The persistent fake-IP store: the bucket access of
  \<open>src/component/profile/cachefile/fakeip.go\<close> and \<open>hako_fakeip_batch.go\<close>, and the write-behind
  store of \<open>src/component/fakeip/cachefile.go\<close> that answers reads from an overlay of pending
  writes and applies them to the database in batches.

  The database \<open>bbolt\<close> is not part of the repository: its operations on the store's bucket are
  the record \<open>bolt\<close>, and what its documentation promises is the locale \<open>bolt_db\<close>. A flush has the
  three phases that its locking separates (take the pending operations, apply them, drop the
  overlay entries that are now in the database); the client's calls can run between any two of
  them. A store of a disabled cache has no database (\<open>None\<close>).
\<close>

section \<open>The database\<close>

text \<open>
  \<open>b_Get\<close> is a read transaction (\<open>View\<close>, \<open>Bucket\<close>, \<open>Get\<close>); \<open>b_Update\<close> and \<open>b_Batch\<close> run a function in
  a write transaction; \<open>t_\<close> and \<open>k_\<close> are the operations on the transaction and its bucket.
\<close>

record ('db, 'tx) bolt =
  b_Get :: "'db \<Rightarrow> string \<Rightarrow> string option"
  b_Update :: "('tx \<Rightarrow> string + 'tx) \<Rightarrow> 'db \<Rightarrow> string + 'db"
  b_Batch :: "('tx \<Rightarrow> string + 'tx) \<Rightarrow> 'db \<Rightarrow> string + 'db"
  t_hasBucket :: "'tx \<Rightarrow> bool"
  t_CreateBucketIfNotExists :: "'tx \<Rightarrow> string + 'tx"
  t_DeleteBucket :: "'tx \<Rightarrow> string + 'tx"
  k_Get :: "'tx \<Rightarrow> string \<Rightarrow> string option"
  k_Put :: "string \<Rightarrow> string \<Rightarrow> 'tx \<Rightarrow> string + 'tx"
  k_Delete :: "string \<Rightarrow> 'tx \<Rightarrow> string + 'tx"

section \<open>The bucket of the fake IPs\<close>

definition fs_GetByHost :: "('db, 'tx) bolt \<Rightarrow> string \<Rightarrow> 'db option \<Rightarrow> addr \<times> bool" where
  "fs_GetByHost B host db =
     (case db of
        None \<Rightarrow> (AddrZero, False)
      | Some d \<Rightarrow> (case b_Get B d host of None \<Rightarrow> (AddrZero, False) | Some v \<Rightarrow> AddrFromSlice v))"

definition fs_PutByHost :: "('db, 'tx) bolt \<Rightarrow> string \<Rightarrow> addr \<Rightarrow> 'db option \<Rightarrow> 'db option" where
  "fs_PutByHost B host ip db =
     (case db of
        None \<Rightarrow> None
      | Some d \<Rightarrow>
          (case b_Batch B (\<lambda>t. rbind (t_CreateBucketIfNotExists B t) (\<lambda>t. k_Put B host (addr_AsSlice ip) t)) d of
             Inl err \<Rightarrow> Some d | Inr d \<Rightarrow> Some d))"

definition fs_GetByIP :: "('db, 'tx) bolt \<Rightarrow> addr \<Rightarrow> 'db option \<Rightarrow> string \<times> bool" where
  "fs_GetByIP B ip db =
     (case db of
        None \<Rightarrow> ('''', False)
      | Some d \<Rightarrow> (case b_Get B d (addr_AsSlice ip) of None \<Rightarrow> ('''', False) | Some v \<Rightarrow> (v, True)))"

definition fs_PutByIP :: "('db, 'tx) bolt \<Rightarrow> addr \<Rightarrow> string \<Rightarrow> 'db option \<Rightarrow> 'db option" where
  "fs_PutByIP B ip host db =
     (case db of
        None \<Rightarrow> None
      | Some d \<Rightarrow>
          (case b_Batch B (\<lambda>t. rbind (t_CreateBucketIfNotExists B t) (\<lambda>t. k_Put B (addr_AsSlice ip) host t)) d of
             Inl err \<Rightarrow> Some d | Inr d \<Rightarrow> Some d))"

text \<open>
  The deletion in one transaction. Its error is that of the last \<open>Delete\<close>: when the host is
  deleted too, the result of the first one is overwritten.
\<close>

definition fs_del_tx :: "('db, 'tx) bolt \<Rightarrow> string \<Rightarrow> 'tx \<Rightarrow> string + 'tx" where
  "fs_del_tx B ad t =
     rbind (t_CreateBucketIfNotExists B t) (\<lambda>t.
       let host = (case k_Get B t ad of None \<Rightarrow> [] | Some h \<Rightarrow> h);
           r = k_Delete B ad t
       in if length host > 0 then k_Delete B host (case r of Inl _ \<Rightarrow> t | Inr t' \<Rightarrow> t') else r)"

definition fs_DelByIP :: "('db, 'tx) bolt \<Rightarrow> addr \<Rightarrow> 'db option \<Rightarrow> 'db option" where
  "fs_DelByIP B ip db =
     (case db of
        None \<Rightarrow> None
      | Some d \<Rightarrow> (case b_Batch B (fs_del_tx B (addr_AsSlice ip)) d of Inl err \<Rightarrow> Some d | Inr d \<Rightarrow> Some d))"

text \<open>\<open>FlushFakeIP\<close> does not test for a missing database: the call on the nil pointer panics.\<close>

definition fs_FlushFakeIP :: "('db, 'tx) bolt \<Rightarrow> 'db option \<Rightarrow> (string option \<times> 'db option) option" where
  "fs_FlushFakeIP B db =
     (case db of
        None \<Rightarrow> None
      | Some d \<Rightarrow>
          (case b_Batch B (\<lambda>t. if \<not> t_hasBucket B t then Inr t else t_DeleteBucket B t) d of
             Inl err \<Rightarrow> Some (Some err, Some d) | Inr d \<Rightarrow> Some (None, Some d)))"

datatype FakeIPOp = OpPutByHost string addr | OpPutByIP string addr | OpDelByIP addr

fun apply_op_tx :: "('db, 'tx) bolt \<Rightarrow> FakeIPOp \<Rightarrow> 'tx \<Rightarrow> string + 'tx" where
  "apply_op_tx B (OpPutByHost host ip) t = k_Put B host (addr_AsSlice ip) t"
| "apply_op_tx B (OpPutByIP host ip) t = k_Put B (addr_AsSlice ip) host t"
| "apply_op_tx B (OpDelByIP ip) t =
     (let ad = addr_AsSlice ip;
          host = (case k_Get B t ad of None \<Rightarrow> [] | Some h \<Rightarrow> h)
      in rbind (k_Delete B ad t) (\<lambda>t. if length host > 0 then k_Delete B host t else Inr t))"

fun apply_ops_tx :: "('db, 'tx) bolt \<Rightarrow> FakeIPOp list \<Rightarrow> 'tx \<Rightarrow> string + 'tx" where
  "apply_ops_tx B [] t = Inr t"
| "apply_ops_tx B (op # ops) t = rbind (apply_op_tx B op t) (apply_ops_tx B ops)"

definition Apply :: "('db, 'tx) bolt \<Rightarrow> FakeIPOp list \<Rightarrow> 'db option \<Rightarrow> string + 'db option" where
  "Apply B ops db =
     (case db of
        None \<Rightarrow> Inr None
      | Some d \<Rightarrow>
          if length ops = 0 then Inr db
          else (case b_Update B (\<lambda>t. rbind (t_CreateBucketIfNotExists B t) (apply_ops_tx B ops)) d of
                  Inl err \<Rightarrow> Inl err | Inr d \<Rightarrow> Inr (Some d)))"

section \<open>The write-behind overlay\<close>

record pendingAddr =
  pa_ip :: addr
  pa_deleted :: bool
  pa_seq :: nat

record pendingHost =
  ph_host :: string
  ph_deleted :: bool
  ph_seq :: nat

record writeBehind =
  wb_seq :: nat
  wb_hosts :: "string \<Rightarrow> pendingAddr option"
  wb_ips :: "addr \<Rightarrow> pendingHost option"
  wb_ops :: "FakeIPOp list"
  wb_armed :: bool

definition new_writeBehind :: writeBehind where
  "new_writeBehind = \<lparr>wb_seq = 0, wb_hosts = (\<lambda>_. None), wb_ips = (\<lambda>_. None), wb_ops = [], wb_armed = False\<rparr>"

record 'db cachefileStore =
  cf_cache :: "'db option"
  cf_pending :: "writeBehind option"

definition armLocked :: "writeBehind \<Rightarrow> writeBehind" where
  "armLocked w = (if wb_armed w then w else w\<lparr>wb_armed := True\<rparr>)"

definition cf_GetByHost :: "('db, 'tx) bolt \<Rightarrow> string \<Rightarrow> 'db cachefileStore \<Rightarrow> addr \<times> bool" where
  "cf_GetByHost B host c =
     (case cf_pending c of
        None \<Rightarrow> fs_GetByHost B host (cf_cache c)
      | Some w \<Rightarrow>
          (case wb_hosts w host of
             Some p \<Rightarrow> (pa_ip p, \<not> pa_deleted p)
           | None \<Rightarrow> fs_GetByHost B host (cf_cache c)))"

definition cf_PutByHost :: "('db, 'tx) bolt \<Rightarrow> string \<Rightarrow> addr \<Rightarrow> 'db cachefileStore \<Rightarrow> 'db cachefileStore" where
  "cf_PutByHost B host ip c =
     (case cf_pending c of
        None \<Rightarrow> c\<lparr>cf_cache := fs_PutByHost B host ip (cf_cache c)\<rparr>
      | Some w \<Rightarrow>
          if host = [] then c
          else (let w = w\<lparr>wb_seq := wb_seq w + 1\<rparr>;
                    w = w\<lparr>wb_hosts := (wb_hosts w)(host \<mapsto> \<lparr>pa_ip = ip, pa_deleted = False, pa_seq = wb_seq w\<rparr>),
                          wb_ops := wb_ops w @ [OpPutByHost host ip]\<rparr>
                in c\<lparr>cf_pending := Some (armLocked w)\<rparr>))"

definition getByIPLocked :: "('db, 'tx) bolt \<Rightarrow> addr \<Rightarrow> writeBehind \<Rightarrow> 'db cachefileStore \<Rightarrow> string \<times> bool" where
  "getByIPLocked B ip w c =
     (case wb_ips w ip of
        Some p \<Rightarrow> (ph_host p, \<not> ph_deleted p)
      | None \<Rightarrow> fs_GetByIP B ip (cf_cache c))"

definition cf_GetByIP :: "('db, 'tx) bolt \<Rightarrow> addr \<Rightarrow> 'db cachefileStore \<Rightarrow> string \<times> bool" where
  "cf_GetByIP B ip c =
     (case cf_pending c of None \<Rightarrow> fs_GetByIP B ip (cf_cache c) | Some w \<Rightarrow> getByIPLocked B ip w c)"

definition cf_PutByIP :: "('db, 'tx) bolt \<Rightarrow> addr \<Rightarrow> string \<Rightarrow> 'db cachefileStore \<Rightarrow> 'db cachefileStore" where
  "cf_PutByIP B ip host c =
     (case cf_pending c of
        None \<Rightarrow> c\<lparr>cf_cache := fs_PutByIP B ip host (cf_cache c)\<rparr>
      | Some w \<Rightarrow>
          (let w = w\<lparr>wb_seq := wb_seq w + 1\<rparr>;
               w = w\<lparr>wb_ips := (wb_ips w)(ip \<mapsto> \<lparr>ph_host = host, ph_deleted = False, ph_seq = wb_seq w\<rparr>),
                     wb_ops := wb_ops w @ [OpPutByIP host ip]\<rparr>
           in c\<lparr>cf_pending := Some (armLocked w)\<rparr>))"

definition cf_DelByIP :: "('db, 'tx) bolt \<Rightarrow> addr \<Rightarrow> 'db cachefileStore \<Rightarrow> 'db cachefileStore" where
  "cf_DelByIP B ip c =
     (case cf_pending c of
        None \<Rightarrow> c\<lparr>cf_cache := fs_DelByIP B ip (cf_cache c)\<rparr>
      | Some w \<Rightarrow>
          (case getByIPLocked B ip w c of (host, found) \<Rightarrow>
             (let w = w\<lparr>wb_seq := wb_seq w + 1\<rparr>;
                  w = w\<lparr>wb_ips := (wb_ips w)(ip \<mapsto> \<lparr>ph_host = [], ph_deleted = True, ph_seq = wb_seq w\<rparr>)\<rparr>;
                  w = (if found \<and> host \<noteq> []
                       then w\<lparr>wb_hosts := (wb_hosts w)(host \<mapsto> \<lparr>pa_ip = AddrZero, pa_deleted = True, pa_seq = wb_seq w\<rparr>)\<rparr>
                       else w);
                  w = w\<lparr>wb_ops := wb_ops w @ [OpDelByIP ip]\<rparr>
              in c\<lparr>cf_pending := Some (armLocked w)\<rparr>)))"

definition cf_Exist :: "('db, 'tx) bolt \<Rightarrow> addr \<Rightarrow> 'db cachefileStore \<Rightarrow> bool" where
  "cf_Exist B ip c = snd (cf_GetByIP B ip c)"

definition cf_FlushFakeIP ::
  "('db, 'tx) bolt \<Rightarrow> 'db cachefileStore \<Rightarrow> (string option \<times> 'db cachefileStore) option" where
  "cf_FlushFakeIP B c =
     (let c = (case cf_pending c of
                 None \<Rightarrow> c
               | Some w \<Rightarrow> c\<lparr>cf_pending := Some (w\<lparr>wb_ops := [], wb_hosts := (\<lambda>_. None), wb_ips := (\<lambda>_. None)\<rparr>)\<rparr>)
      in (case fs_FlushFakeIP B (cf_cache c) of
            None \<Rightarrow> None
          | Some (err, db) \<Rightarrow> Some (err, c\<lparr>cf_cache := db\<rparr>)))"

text \<open>The three phases of \<open>flush\<close>.\<close>

definition flush_begin :: "writeBehind \<Rightarrow> FakeIPOp list \<times> nat \<times> writeBehind" where
  "flush_begin w = (wb_ops w, wb_seq w, w\<lparr>wb_ops := [], wb_armed := False\<rparr>)"

fun apply_each :: "('db, 'tx) bolt \<Rightarrow> FakeIPOp list \<Rightarrow> 'db option \<Rightarrow> 'db option" where
  "apply_each B [] db = db"
| "apply_each B (op # ops) db =
     apply_each B ops (case Apply B [op] db of Inl err \<Rightarrow> db | Inr db' \<Rightarrow> db')"

definition flush_apply :: "('db, 'tx) bolt \<Rightarrow> FakeIPOp list \<Rightarrow> 'db option \<Rightarrow> 'db option" where
  "flush_apply B ops db = (case Apply B ops db of Inl err \<Rightarrow> apply_each B ops db | Inr db' \<Rightarrow> db')"

definition flush_finish :: "nat \<Rightarrow> writeBehind \<Rightarrow> writeBehind" where
  "flush_finish up_to w =
     w\<lparr>wb_hosts := (\<lambda>h. case wb_hosts w h of None \<Rightarrow> None | Some p \<Rightarrow> if pa_seq p \<le> up_to then None else Some p),
       wb_ips := (\<lambda>a. case wb_ips w a of None \<Rightarrow> None | Some p \<Rightarrow> if ph_seq p \<le> up_to then None else Some p)\<rparr>"

definition wb_flush :: "('db, 'tx) bolt \<Rightarrow> writeBehind \<Rightarrow> 'db option \<Rightarrow> writeBehind \<times> 'db option" where
  "wb_flush B w db =
     (case flush_begin w of (ops, up_to, w) \<Rightarrow>
        if length ops = 0 then (w, db) else (flush_finish up_to w, flush_apply B ops db))"

definition cf_Sync :: "('db, 'tx) bolt \<Rightarrow> 'db cachefileStore \<Rightarrow> 'db cachefileStore" where
  "cf_Sync B c =
     (case cf_pending c of
        None \<Rightarrow> c
      | Some w \<Rightarrow> (case wb_flush B w (cf_cache c) of (w, db) \<Rightarrow> c\<lparr>cf_pending := Some w, cf_cache := db\<rparr>))"

text \<open>
  The overlay of a database is shared by all stores on it (\<open>sharedWriteBehind\<close>): \<open>known\<close> is the
  overlay registered for the database's key, if there is one.
\<close>

definition newCachefileStore :: "writeBehind option \<Rightarrow> 'db option \<Rightarrow> 'db cachefileStore" where
  "newCachefileStore known db =
     (case db of
        None \<Rightarrow> \<lparr>cf_cache = None, cf_pending = None\<rparr>
      | Some d \<Rightarrow> \<lparr>cf_cache = Some d, cf_pending = Some (case known of Some w \<Rightarrow> w | None \<Rightarrow> new_writeBehind)\<rparr>)"

definition cachefile_store :: "('db, 'tx) bolt \<Rightarrow> 'db cachefileStore store" where
  "cachefile_store B =
     \<lparr>st_GetByHost = (\<lambda>h c. Some (cf_GetByHost B h c, c)),
      st_PutByHost = (\<lambda>h a c. Some (cf_PutByHost B h a c)),
      st_GetByIP = (\<lambda>a c. Some (cf_GetByIP B a c, c)),
      st_PutByIP = (\<lambda>a h c. Some (cf_PutByIP B a h c)),
      st_DelByIP = (\<lambda>a c. Some (cf_DelByIP B a c)),
      st_Exist = cf_Exist B,
      st_CloneTo = (\<lambda>c other. Some other),
      st_FlushFakeIP = cf_FlushFakeIP B,
      st_isCachefile = (\<lambda>_. True),
      st_Sync = (\<lambda>c. Some (cf_Sync B c))\<rparr>"

section \<open>The direct semantics of the operations\<close>

text \<open>On the bytes of the bucket, without overlay and without failures.\<close>

fun abs_op :: "FakeIPOp \<Rightarrow> (string \<Rightarrow> string option) \<Rightarrow> string \<Rightarrow> string option" where
  "abs_op (OpPutByHost host ip) m = m(host \<mapsto> addr_AsSlice ip)"
| "abs_op (OpPutByIP host ip) m = m(addr_AsSlice ip \<mapsto> host)"
| "abs_op (OpDelByIP ip) m =
     (let m' = m(addr_AsSlice ip := None) in
      case m (addr_AsSlice ip) of None \<Rightarrow> m' | Some host \<Rightarrow> if host = [] then m' else m'(host := None))"

definition abs_ops :: "FakeIPOp list \<Rightarrow> (string \<Rightarrow> string option) \<Rightarrow> string \<Rightarrow> string option" where
  "abs_ops ops m = fold abs_op ops m"

lemma abs_ops_simps [simp]:
  "abs_ops [] m = m" "abs_ops (op # ops) m = abs_ops ops (abs_op op m)"
  "abs_ops (ops @ ops') m = abs_ops ops' (abs_ops ops m)"
  by (simp_all add: abs_ops_def)

definition dec_host :: "string option \<Rightarrow> addr \<times> bool" where
  "dec_host v = (case v of None \<Rightarrow> (AddrZero, False) | Some v \<Rightarrow> AddrFromSlice v)"

definition dec_ip :: "string option \<Rightarrow> string \<times> bool" where
  "dec_ip v = (case v of None \<Rightarrow> ('''', False) | Some h \<Rightarrow> (h, True))"

section \<open>What the store relies on\<close>

locale bolt_db =
  fixes B :: "('db, 'tx) bolt" and dbm :: "'db \<Rightarrow> string \<Rightarrow> string option" and txm :: "'tx \<Rightarrow> string \<Rightarrow> string option"
  assumes b_Get_law: "b_Get B d k = dbm d k"
    and b_Update_law: "b_Update B f d = Inr d' \<Longrightarrow> \<exists>t t'. txm t = dbm d \<and> f t = Inr t' \<and> dbm d' = txm t'"
    and b_Batch_law: "b_Batch B f d = Inr d' \<Longrightarrow> \<exists>t t'. txm t = dbm d \<and> f t = Inr t' \<and> dbm d' = txm t'"
    and t_hasBucket_law: "\<not> t_hasBucket B t \<Longrightarrow> txm t = Map.empty"
    and t_Create_law: "t_CreateBucketIfNotExists B t = Inr t' \<Longrightarrow> txm t' = txm t"
    and t_DeleteBucket_law: "t_DeleteBucket B t = Inr t' \<Longrightarrow> txm t' = Map.empty"
    and k_Get_law: "k_Get B t k = txm t k"
    and k_Put_law: "k_Put B k v t = Inr t' \<Longrightarrow> txm t' = (txm t)(k \<mapsto> v)"
    and k_Delete_law: "k_Delete B k t = Inr t' \<Longrightarrow> txm t' = (txm t)(k := None)"

text \<open>The database takes every single operation: no full disk, no oversized key.\<close>

definition writable :: "('db, 'tx) bolt \<Rightarrow> FakeIPOp set \<Rightarrow> bool" where
  "writable B ops \<longleftrightarrow> (\<forall>op\<in>ops. \<forall>d. \<exists>d'. Apply B [op] (Some d) = Inr (Some d'))"

context bolt_db
begin

lemma apply_op_tx_ok: "apply_op_tx B op t = Inr t' \<Longrightarrow> txm t' = abs_op op (txm t)"
proof (cases op)
  case (OpDelByIP ip)
  assume "apply_op_tx B op t = Inr t'"
  with OpDelByIP show ?thesis
    by (auto simp: Let_def rbind_eq_Inr_iff k_Get_law split: option.splits if_splits dest!: k_Delete_law)
qed (auto dest: k_Put_law)

lemma apply_ops_tx_ok: "apply_ops_tx B ops t = Inr t' \<Longrightarrow> txm t' = abs_ops ops (txm t)"
  by (induction ops arbitrary: t) (auto simp: rbind_eq_Inr_iff dest!: apply_op_tx_ok)

lemma Apply_ok:
  assumes "Apply B ops (Some d) = Inr db'"
  shows "\<exists>d'. db' = Some d' \<and> dbm d' = abs_ops ops (dbm d)"
proof (cases "ops = []")
  case False
  with assms obtain d' where d': "db' = Some d'"
    "b_Update B (\<lambda>t. rbind (t_CreateBucketIfNotExists B t) (apply_ops_tx B ops)) d = Inr d'"
    by (auto simp: Apply_def split: sum.splits)
  from b_Update_law [OF d'(2)] obtain t t1 t' where
    "txm t = dbm d" "t_CreateBucketIfNotExists B t = Inr t1" "apply_ops_tx B ops t1 = Inr t'" "dbm d' = txm t'"
    by (auto simp: rbind_eq_Inr_iff)
  with d'(1) show ?thesis using t_Create_law apply_ops_tx_ok by metis
qed (use assms in \<open>auto simp: Apply_def\<close>)

lemma apply_each_ok:
  "writable B (set ops) \<Longrightarrow> \<exists>d'. apply_each B ops (Some d) = Some d' \<and> dbm d' = abs_ops ops (dbm d)"
proof (induction ops arbitrary: d)
  case (Cons op ops)
  from Cons.prems obtain d1 where d1: "Apply B [op] (Some d) = Inr (Some d1)"
    by (fastforce simp: writable_def)
  then have "dbm d1 = abs_op op (dbm d)" using Apply_ok [OF d1] by simp
  moreover have "writable B (set ops)" using Cons.prems by (simp add: writable_def)
  ultimately show ?case using Cons.IH [of d1] d1 by auto
qed simp

text \<open>Whether the batch succeeds or falls back to single writes, the effect is the same.\<close>

lemma flush_apply_ok:
  assumes "writable B (set ops)"
  shows "\<exists>d'. flush_apply B ops (Some d) = Some d' \<and> dbm d' = abs_ops ops (dbm d)"
proof (cases "Apply B ops (Some d)")
  case (Inr db')
  then show ?thesis using Apply_ok [OF Inr] by (auto simp: flush_apply_def)
next
  case (Inl err)
  then show ?thesis using apply_each_ok [OF assms, of d] by (simp add: flush_apply_def)
qed

lemma fs_GetByHost_dec: "fs_GetByHost B h (Some d) = dec_host (dbm d h)"
  by (simp add: fs_GetByHost_def dec_host_def b_Get_law)

lemma fs_GetByIP_dec: "fs_GetByIP B a (Some d) = dec_ip (dbm d (addr_AsSlice a))"
  by (simp add: fs_GetByIP_def dec_ip_def b_Get_law)

lemma fs_FlushFakeIP_ok: "fs_FlushFakeIP B (Some d) = Some (None, db') \<Longrightarrow> \<exists>d'. db' = Some d' \<and> dbm d' = Map.empty"
  by (auto simp: fs_FlushFakeIP_def split: sum.splits if_splits dest!: b_Batch_law)
    (metis t_hasBucket_law, metis t_DeleteBucket_law)

end

end
