(* ===== verification/Fakeip_WriteBehind.thy ===== *)
theory Fakeip_WriteBehind
  imports Fakeip_Cachefile
begin

text \<open>
  Correctness of the write-behind store: whatever the interleaving of the client's calls with
  the phases of the flushes, every read answers as if each write had gone to the database at
  once, and after a flush the database alone answers the same.
\<close>

section \<open>Interleavings\<close>

datatype client_op = CPutByHost string addr | CPutByIP addr string | CDelByIP addr

fun client_step :: "('db, 'tx) bolt \<Rightarrow> client_op \<Rightarrow> 'db cachefileStore \<Rightarrow> 'db cachefileStore" where
  "client_step B (CPutByHost h a) c = cf_PutByHost B h a c"
| "client_step B (CPutByIP a h) c = cf_PutByIP B a h c"
| "client_step B (CDelByIP a) c = cf_DelByIP B a c"

text \<open>How far the running flush is; its lock admits one at a time.\<close>

datatype flush_phase = Idle | Writing "FakeIPOp list" nat | Written nat

inductive wb_reach ::
  "('db, 'tx) bolt \<Rightarrow> 'db cachefileStore \<Rightarrow> client_op list \<Rightarrow> 'db cachefileStore \<Rightarrow> flush_phase \<Rightarrow> bool"
  for B c0 where
  init: "wb_reach B c0 [] c0 Idle"
| client: "wb_reach B c0 cs c ph \<Longrightarrow> wb_reach B c0 (cs @ [op]) (client_step B op c) ph"
| flush_starts: "wb_reach B c0 cs c Idle \<Longrightarrow> cf_pending c = Some w \<Longrightarrow> flush_begin w = (ops, n, w') \<Longrightarrow>
    wb_reach B c0 cs (c\<lparr>cf_pending := Some w'\<rparr>) (if length ops = 0 then Idle else Writing ops n)"
| flush_writes: "wb_reach B c0 cs c (Writing ops n) \<Longrightarrow>
    wb_reach B c0 cs (c\<lparr>cf_cache := flush_apply B ops (cf_cache c)\<rparr>) (Written n)"
| flush_ends: "wb_reach B c0 cs c (Written n) \<Longrightarrow> cf_pending c = Some w \<Longrightarrow>
    wb_reach B c0 cs (c\<lparr>cf_pending := Some (flush_finish n w)\<rparr>) Idle"

text \<open>The operation a call stands for; \<open>PutByHost\<close> ignores the empty host.\<close>

fun op_of :: "client_op \<Rightarrow> FakeIPOp list" where
  "op_of (CPutByHost h a) = (if h = [] then [] else [OpPutByHost h a])"
| "op_of (CPutByIP a h) = [OpPutByIP h a]"
| "op_of (CDelByIP a) = [OpDelByIP a]"

definition direct :: "client_op list \<Rightarrow> (string \<Rightarrow> string option) \<Rightarrow> string \<Rightarrow> string option" where
  "direct cs m = abs_ops (concat (map op_of cs)) m"

section \<open>The invariant\<close>

text \<open>
  Hosts and addresses share the bucket: the hosts \<open>hok\<close> and the addresses \<open>aok\<close> in use must not
  have the same bytes.
\<close>

definition keys_apart :: "(string \<Rightarrow> bool) \<Rightarrow> (addr \<Rightarrow> bool) \<Rightarrow> bool" where
  "keys_apart hok aok \<longleftrightarrow>
     (\<forall>a. aok a \<longrightarrow> addr_IsValid a) \<and> (\<forall>h a. hok h \<longrightarrow> aok a \<longrightarrow> h \<noteq> addr_AsSlice a) \<and> \<not> hok []"

fun client_ok :: "(string \<Rightarrow> bool) \<Rightarrow> (addr \<Rightarrow> bool) \<Rightarrow> client_op \<Rightarrow> bool" where
  "client_ok hok aok (CPutByHost h a) \<longleftrightarrow> (h = [] \<or> hok h) \<and> addr_IsValid a"
| "client_ok hok aok (CPutByIP a h) \<longleftrightarrow> aok a \<and> (h = [] \<or> hok h)"
| "client_ok hok aok (CDelByIP a) \<longleftrightarrow> aok a"

definition values_ok :: "(string \<Rightarrow> bool) \<Rightarrow> (addr \<Rightarrow> bool) \<Rightarrow> (string \<Rightarrow> string option) \<Rightarrow> bool" where
  "values_ok hok aok m \<longleftrightarrow> (\<forall>a v. aok a \<longrightarrow> m (addr_AsSlice a) = Some v \<longrightarrow> v = [] \<or> hok v)"

fun in_flight :: "flush_phase \<Rightarrow> FakeIPOp list" where
  "in_flight (Writing ops n) = ops"
| "in_flight _ = []"

fun flushed_to :: "flush_phase \<Rightarrow> nat option" where
  "flushed_to Idle = None"
| "flushed_to (Writing ops n) = Some n"
| "flushed_to (Written n) = Some n"

text \<open>An overlay entry with this sequence number is not newer than the running flush.\<close>

definition old_entry :: "flush_phase \<Rightarrow> nat option \<Rightarrow> bool" where
  "old_entry ph s \<longleftrightarrow> (case s of None \<Rightarrow> True | Some s \<Rightarrow> (case flushed_to ph of None \<Rightarrow> False | Some n \<Rightarrow> s \<le> n))"

definition host_view :: "(string \<Rightarrow> string option) \<Rightarrow> writeBehind \<Rightarrow> string \<Rightarrow> addr \<times> bool" where
  "host_view base w h = (case wb_hosts w h of Some p \<Rightarrow> (pa_ip p, \<not> pa_deleted p) | None \<Rightarrow> dec_host (base h))"

definition ip_view :: "(string \<Rightarrow> string option) \<Rightarrow> writeBehind \<Rightarrow> addr \<Rightarrow> string \<times> bool" where
  "ip_view base w a = (case wb_ips w a of Some p \<Rightarrow> (ph_host p, \<not> ph_deleted p) | None \<Rightarrow> dec_ip (base (addr_AsSlice a)))"

definition wb_inv ::
  "(string \<Rightarrow> bool) \<Rightarrow> (addr \<Rightarrow> bool) \<Rightarrow> (string \<Rightarrow> string option) \<Rightarrow> (string \<Rightarrow> string option) \<Rightarrow> writeBehind \<Rightarrow> flush_phase \<Rightarrow> bool" where
  "wb_inv hok aok m base w ph \<longleftrightarrow>
     (\<forall>h. hok h \<longrightarrow> host_view base w h = dec_host (m h)) \<and> (\<forall>a. aok a \<longrightarrow> ip_view base w a = dec_ip (m (addr_AsSlice a)))
     \<and> m = abs_ops (in_flight ph @ wb_ops w) base
     \<and> (\<forall>h. hok h \<longrightarrow> old_entry ph (map_option pa_seq (wb_hosts w h)) \<longrightarrow> abs_ops (in_flight ph) base h = m h)
     \<and> (\<forall>a. aok a \<longrightarrow> old_entry ph (map_option ph_seq (wb_ips w a)) \<longrightarrow>
          abs_ops (in_flight ph) base (addr_AsSlice a) = m (addr_AsSlice a))
     \<and> (\<forall>h p. wb_hosts w h = Some p \<longrightarrow> pa_seq p \<le> wb_seq w) \<and> (\<forall>a p. wb_ips w a = Some p \<longrightarrow> ph_seq p \<le> wb_seq w)
     \<and> (\<forall>n. flushed_to ph = Some n \<longrightarrow> n \<le> wb_seq w) \<and> values_ok hok aok m"

lemma wb_invD:
  assumes "wb_inv hok aok m base w ph"
  shows "hok h \<Longrightarrow> host_view base w h = dec_host (m h)" and "aok a \<Longrightarrow> ip_view base w a = dec_ip (m (addr_AsSlice a))"
    and "m = abs_ops (in_flight ph @ wb_ops w) base"
    and "hok h \<Longrightarrow> old_entry ph (map_option pa_seq (wb_hosts w h)) \<Longrightarrow> abs_ops (in_flight ph) base h = m h"
    and "aok a \<Longrightarrow> old_entry ph (map_option ph_seq (wb_ips w a)) \<Longrightarrow>
      abs_ops (in_flight ph) base (addr_AsSlice a) = m (addr_AsSlice a)"
    and "wb_hosts w h = Some p \<Longrightarrow> pa_seq p \<le> wb_seq w" and "wb_ips w a = Some p' \<Longrightarrow> ph_seq p' \<le> wb_seq w"
    and "flushed_to ph = Some n \<Longrightarrow> n \<le> wb_seq w" and "values_ok hok aok m"
  using assms by (auto simp: wb_inv_def)

lemma new_entry: "(\<And>n. flushed_to ph = Some n \<Longrightarrow> n \<le> s) \<Longrightarrow> \<not> old_entry ph (Some (Suc s))"
  by (fastforce simp: old_entry_def split: option.splits)

lemma armLocked_simps [simp]:
  "wb_seq (armLocked w) = wb_seq w" "wb_hosts (armLocked w) = wb_hosts w" "wb_ips (armLocked w) = wb_ips w"
  "wb_ops (armLocked w) = wb_ops w"
  by (simp_all add: armLocked_def)

lemma view_cong:
  "wb_hosts w' = wb_hosts w \<Longrightarrow> host_view base w' = host_view base w"
  "wb_ips w' = wb_ips w \<Longrightarrow> ip_view base w' = ip_view base w"
  by (simp_all add: host_view_def ip_view_def fun_eq_iff)

section \<open>The steps keep the invariant\<close>

lemma wb_inv_PutByHost:
  assumes "wb_inv hok aok m base w ph" and "keys_apart hok aok" and "hok h" and "addr_IsValid a"
    and "wb_seq w' = Suc (wb_seq w)" and "wb_hosts w' = (wb_hosts w)(h \<mapsto> \<lparr>pa_ip = a, pa_deleted = False, pa_seq = Suc (wb_seq w)\<rparr>)"
    and "wb_ips w' = wb_ips w" and "wb_ops w' = wb_ops w @ [OpPutByHost h a]"
  shows "wb_inv hok aok (abs_op (OpPutByHost h a) m) base w' ph"
proof -
  note d = wb_invD [OF assms(1)]
  have apart: "\<And>b. aok b \<Longrightarrow> addr_AsSlice b \<noteq> h" using assms(2,3) by (auto simp: keys_apart_def)
  have new: "\<not> old_entry ph (Some (Suc (wb_seq w)))" using d(8) by (rule new_entry)
  show ?thesis
    unfolding wb_inv_def
  proof (intro conjI allI impI)
    fix k assume "hok k"
    then show "host_view base w' k = dec_host (abs_op (OpPutByHost h a) m k)"
      using d(1) [of k] AddrFromSlice_AsSlice [OF assms(4)]
      by (auto simp: host_view_def assms(6) dec_host_def)
    show "old_entry ph (map_option pa_seq (wb_hosts w' k)) \<Longrightarrow> abs_ops (in_flight ph) base k = abs_op (OpPutByHost h a) m k"
      using new d(4) [OF \<open>hok k\<close>] by (auto simp: assms(6) split: if_splits)
  next
    fix b assume b: "aok b"
    show "ip_view base w' b = dec_ip (abs_op (OpPutByHost h a) m (addr_AsSlice b))"
      using d(2) [OF b] apart [OF b] by (simp add: view_cong(2) [OF assms(7)])
    show "old_entry ph (map_option ph_seq (wb_ips w' b)) \<Longrightarrow>
        abs_ops (in_flight ph) base (addr_AsSlice b) = abs_op (OpPutByHost h a) m (addr_AsSlice b)"
      using d(5) [OF b] apart [OF b] by (simp add: assms(7))
  next
    show "abs_op (OpPutByHost h a) m = abs_ops (in_flight ph @ wb_ops w') base"
      unfolding assms(8) append_assoc [symmetric] by (subst d(3)) simp
    show "values_ok hok aok (abs_op (OpPutByHost h a) m)"
      using d(9) apart by (auto simp: values_ok_def)
  next
    fix k p assume "wb_hosts w' k = Some p"
    then show "pa_seq p \<le> wb_seq w'" using d(6) [of k p] by (auto simp: assms(5,6) split: if_splits)
  next
    fix b p assume "wb_ips w' b = Some p"
    then show "ph_seq p \<le> wb_seq w'" using d(7) [of b p] by (simp add: assms(5,7))
  next
    fix n assume "flushed_to ph = Some n"
    then show "n \<le> wb_seq w'" using d(8) by (simp add: assms(5) le_SucI)
  qed
qed

lemma wb_inv_PutByIP:
  assumes "wb_inv hok aok m base w ph" and "keys_apart hok aok" and "aok a" and "h = [] \<or> hok h"
    and "wb_seq w' = Suc (wb_seq w)" and "wb_ips w' = (wb_ips w)(a \<mapsto> \<lparr>ph_host = h, ph_deleted = False, ph_seq = Suc (wb_seq w)\<rparr>)"
    and "wb_hosts w' = wb_hosts w" and "wb_ops w' = wb_ops w @ [OpPutByIP h a]"
  shows "wb_inv hok aok (abs_op (OpPutByIP h a) m) base w' ph"
proof -
  note d = wb_invD [OF assms(1)]
  have apart: "\<And>k. hok k \<Longrightarrow> k \<noteq> addr_AsSlice a" and inj: "\<And>b. aok b \<Longrightarrow> addr_AsSlice b = addr_AsSlice a \<longleftrightarrow> b = a"
    using assms(2,3) addr_AsSlice_inject by (auto simp: keys_apart_def)
  have new: "\<not> old_entry ph (Some (Suc (wb_seq w)))" using d(8) by (rule new_entry)
  show ?thesis
    unfolding wb_inv_def
  proof (intro conjI allI impI)
    fix k assume k: "hok k"
    show "host_view base w' k = dec_host (abs_op (OpPutByIP h a) m k)"
      using d(1) [OF k] apart [OF k] by (simp add: view_cong(1) [OF assms(7)])
    show "old_entry ph (map_option pa_seq (wb_hosts w' k)) \<Longrightarrow> abs_ops (in_flight ph) base k = abs_op (OpPutByIP h a) m k"
      using d(4) [OF k] apart [OF k] by (simp add: assms(7))
  next
    fix b assume b: "aok b"
    show "ip_view base w' b = dec_ip (abs_op (OpPutByIP h a) m (addr_AsSlice b))"
      using d(2) [OF b] inj [OF b] by (auto simp: ip_view_def assms(6) dec_ip_def)
    show "old_entry ph (map_option ph_seq (wb_ips w' b)) \<Longrightarrow>
        abs_ops (in_flight ph) base (addr_AsSlice b) = abs_op (OpPutByIP h a) m (addr_AsSlice b)"
      using new d(5) [OF b] inj [OF b] by (auto simp: assms(6) split: if_splits)
  next
    show "abs_op (OpPutByIP h a) m = abs_ops (in_flight ph @ wb_ops w') base"
      unfolding assms(8) append_assoc [symmetric] by (subst d(3)) simp
    show "values_ok hok aok (abs_op (OpPutByIP h a) m)"
      using d(9) assms(4) by (auto simp: values_ok_def)
  next
    fix k p assume "wb_hosts w' k = Some p"
    then show "pa_seq p \<le> wb_seq w'" using d(6) [of k p] by (simp add: assms(5,7))
  next
    fix b p assume "wb_ips w' b = Some p"
    then show "ph_seq p \<le> wb_seq w'" using d(7) [of b p] by (auto simp: assms(5,6) split: if_splits)
  next
    fix n assume "flushed_to ph = Some n"
    then show "n \<le> wb_seq w'" using d(8) by (simp add: assms(5) le_SucI)
  qed
qed

text \<open>The host whose entry a deletion marks: the one the address stands for.\<close>

definition deleted_host :: "(string \<Rightarrow> string option) \<Rightarrow> addr \<Rightarrow> string option" where
  "deleted_host m a = (case m (addr_AsSlice a) of None \<Rightarrow> None | Some h \<Rightarrow> if h = [] then None else Some h)"

lemma abs_op_Del:
  "abs_op (OpDelByIP a) m = (\<lambda>k. if k = addr_AsSlice a \<or> deleted_host m a = Some k then None else m k)"
  by (auto simp: deleted_host_def Let_def fun_eq_iff split: option.splits)

lemma wb_inv_DelByIP:
  assumes "wb_inv hok aok m base w ph" and "keys_apart hok aok" and "aok a"
    and "wb_seq w' = Suc (wb_seq w)" and "wb_ips w' = (wb_ips w)(a \<mapsto> \<lparr>ph_host = [], ph_deleted = True, ph_seq = Suc (wb_seq w)\<rparr>)"
    and "wb_hosts w' = (case deleted_host m a of None \<Rightarrow> wb_hosts w
      | Some h \<Rightarrow> (wb_hosts w)(h \<mapsto> \<lparr>pa_ip = AddrZero, pa_deleted = True, pa_seq = Suc (wb_seq w)\<rparr>))"
    and "wb_ops w' = wb_ops w @ [OpDelByIP a]"
  shows "wb_inv hok aok (abs_op (OpDelByIP a) m) base w' ph"
proof -
  note d = wb_invD [OF assms(1)]
  have apart: "\<And>k. hok k \<Longrightarrow> k \<noteq> addr_AsSlice a" and inj: "\<And>b. aok b \<Longrightarrow> addr_AsSlice b = addr_AsSlice a \<longleftrightarrow> b = a"
    using assms(2,3) addr_AsSlice_inject by (auto simp: keys_apart_def)
  have del: "\<And>k. deleted_host m a = Some k \<Longrightarrow> hok k"
    using d(9) assms(3) by (auto simp: deleted_host_def values_ok_def split: option.splits if_splits)
  then have kept: "\<And>b. aok b \<Longrightarrow> deleted_host m a \<noteq> Some (addr_AsSlice b)"
    using assms(2) by (auto simp: keys_apart_def)
  have new: "\<not> old_entry ph (Some (Suc (wb_seq w)))" using d(8) by (rule new_entry)
  have hosts: "wb_hosts w' k = (if deleted_host m a = Some k then Some \<lparr>pa_ip = AddrZero, pa_deleted = True, pa_seq = Suc (wb_seq w)\<rparr> else wb_hosts w k)" for k
    by (auto simp: assms(6) split: option.splits)
  show ?thesis
    unfolding wb_inv_def abs_op_Del
  proof (intro conjI allI impI)
    fix k assume k: "hok k"
    show "host_view base w' k = dec_host (if k = addr_AsSlice a \<or> deleted_host m a = Some k then None else m k)"
      using d(1) [OF k] apart [OF k] by (auto simp: host_view_def hosts dec_host_def)
    show "old_entry ph (map_option pa_seq (wb_hosts w' k)) \<Longrightarrow>
        abs_ops (in_flight ph) base k = (if k = addr_AsSlice a \<or> deleted_host m a = Some k then None else m k)"
      using new d(4) [OF k] apart [OF k] by (auto simp: hosts split: if_splits)
  next
    fix b assume b: "aok b"
    show "ip_view base w' b = dec_ip (if addr_AsSlice b = addr_AsSlice a \<or> deleted_host m a = Some (addr_AsSlice b) then None else m (addr_AsSlice b))"
      using d(2) [OF b] inj [OF b] kept [OF b] by (auto simp: ip_view_def assms(5) dec_ip_def)
    show "old_entry ph (map_option ph_seq (wb_ips w' b)) \<Longrightarrow> abs_ops (in_flight ph) base (addr_AsSlice b) =
        (if addr_AsSlice b = addr_AsSlice a \<or> deleted_host m a = Some (addr_AsSlice b) then None else m (addr_AsSlice b))"
      using new d(5) [OF b] inj [OF b] kept [OF b] by (auto simp: assms(5) split: if_splits)
  next
    have "abs_op (OpDelByIP a) m = abs_ops (in_flight ph @ wb_ops w') base"
      unfolding assms(7) append_assoc [symmetric] by (subst d(3)) simp
    then show "(\<lambda>k. if k = addr_AsSlice a \<or> deleted_host m a = Some k then None else m k) = abs_ops (in_flight ph @ wb_ops w') base"
      unfolding abs_op_Del .
    show "values_ok hok aok (\<lambda>k. if k = addr_AsSlice a \<or> deleted_host m a = Some k then None else m k)"
      using d(9) by (auto simp: values_ok_def)
  next
    fix k p assume "wb_hosts w' k = Some p"
    then show "pa_seq p \<le> wb_seq w'" using d(6) [of k p] by (auto simp: assms(4) hosts split: if_splits)
  next
    fix b p assume "wb_ips w' b = Some p"
    then show "ph_seq p \<le> wb_seq w'" using d(7) [of b p] by (auto simp: assms(4,5) split: if_splits)
  next
    fix n assume "flushed_to ph = Some n"
    then show "n \<le> wb_seq w'" using d(8) by (simp add: assms(4) le_SucI)
  qed
qed

text \<open>The phases of a flush: what clients read does not change.\<close>

lemma wb_inv_begin:
  assumes "wb_inv hok aok m base w Idle" and "flush_begin w = (ops, n, w')"
  shows "wb_inv hok aok m base w' (if length ops = 0 then Idle else Writing ops n)"
proof -
  note d = wb_invD [OF assms(1)]
  have w': "ops = wb_ops w" "n = wb_seq w" "wb_hosts w' = wb_hosts w" "wb_ips w' = wb_ips w" "wb_ops w' = []"
    "wb_seq w' = wb_seq w"
    using assms(2) by (auto simp: flush_begin_def)
  have m: "abs_ops ops base = m" using d(3) w'(1) by simp
  let ?ph = "if length ops = 0 then Idle else Writing ops n"
  have fl: "abs_ops (in_flight ?ph) base = m" using m by (cases "ops = []") simp_all
  show ?thesis
    unfolding wb_inv_def view_cong(1) [OF w'(3)] view_cong(2) [OF w'(4)] w'(3,4,6) fl
  proof (intro conjI allI impI)
    show "m = abs_ops (in_flight ?ph @ wb_ops w') base" using fl w'(5) by simp
    show "k \<le> wb_seq w" if "flushed_to ?ph = Some k" for k using that w'(2) by (auto split: if_splits)
  qed (use d in auto)
qed

lemma wb_inv_written:
  assumes "wb_inv hok aok m base w (Writing ops n)" and "base' = abs_ops ops base"
  shows "wb_inv hok aok m base' w (Written n)"
proof -
  note d = wb_invD [OF assms(1)]
  have old: "old_entry (Writing ops n) s = old_entry (Written n) s" for s by (simp add: old_entry_def split: option.splits)
  have "host_view base' w h = dec_host (m h)" if "hok h" for h
    using d(1,4) [OF that] assms(2) by (cases "wb_hosts w h") (auto simp: host_view_def old_entry_def)
  moreover have "ip_view base' w a = dec_ip (m (addr_AsSlice a))" if "aok a" for a
    using d(2,5) [OF that] assms(2) by (cases "wb_ips w a") (auto simp: ip_view_def old_entry_def)
  ultimately show ?thesis
    using assms d(3) by (auto simp: wb_inv_def old)
qed

lemma wb_inv_finish:
  assumes "wb_inv hok aok m base w (Written n)"
  shows "wb_inv hok aok m base (flush_finish n w) Idle"
proof -
  note d = wb_invD [OF assms]
  have h: "wb_hosts (flush_finish n w) k = (if old_entry (Written n) (map_option pa_seq (wb_hosts w k)) then None else wb_hosts w k)" for k
    by (auto simp: flush_finish_def old_entry_def split: option.splits)
  have i: "wb_ips (flush_finish n w) b = (if old_entry (Written n) (map_option ph_seq (wb_ips w b)) then None else wb_ips w b)" for b
    by (auto simp: flush_finish_def old_entry_def split: option.splits)
  have o: "wb_ops (flush_finish n w) = wb_ops w" "wb_seq (flush_finish n w) = wb_seq w" by (simp_all add: flush_finish_def)
  have "host_view base (flush_finish n w) k = dec_host (m k)" if "hok k" for k
    using d(1,4) [OF that] by (auto simp: host_view_def h)
  moreover have "ip_view base (flush_finish n w) b = dec_ip (m (addr_AsSlice b))" if "aok b" for b
    using d(2,5) [OF that] by (auto simp: ip_view_def i)
  moreover have "base k = m k" if "hok k" "old_entry Idle (map_option pa_seq (wb_hosts (flush_finish n w) k))" for k
    using d(4) [OF that(1)] that(2) by (auto simp: h old_entry_def split: if_splits option.splits)
  moreover have "base (addr_AsSlice b) = m (addr_AsSlice b)" if "aok b" "old_entry Idle (map_option ph_seq (wb_ips (flush_finish n w) b))" for b
    using d(5) [OF that(1)] that(2) by (auto simp: i old_entry_def split: if_splits option.splits)
  ultimately show ?thesis
    using assms by (auto simp: wb_inv_def o h i split: if_splits)
qed

lemma direct_snoc: "direct (cs @ [op]) m = abs_ops (op_of op) (direct cs m)"
  by (simp add: direct_def)

context bolt_db
begin

lemma cf_reads:
  assumes "cf_cache c = Some d" and "cf_pending c = Some w"
  shows "cf_GetByHost B h c = host_view (dbm d) w h" and "cf_GetByIP B a c = ip_view (dbm d) w a"
    and "getByIPLocked B a w c = ip_view (dbm d) w a"
  using assms
  by (simp_all add: cf_GetByHost_def cf_GetByIP_def getByIPLocked_def host_view_def ip_view_def
      fs_GetByHost_dec fs_GetByIP_dec split: option.splits)

text \<open>The state of a reachable store, with the direct content as its meaning.\<close>

definition cf_rel :: "(string \<Rightarrow> bool) \<Rightarrow> (addr \<Rightarrow> bool) \<Rightarrow> (string \<Rightarrow> string option) \<Rightarrow> 'db cachefileStore \<Rightarrow> flush_phase \<Rightarrow> bool" where
  "cf_rel hok aok m c ph \<longleftrightarrow>
     (\<exists>d w. cf_cache c = Some d \<and> cf_pending c = Some w \<and> wb_inv hok aok m (dbm d) w ph)"

lemma client_step_rel:
  assumes "cf_rel hok aok m c ph" and "keys_apart hok aok" and "client_ok hok aok op"
  shows "cf_rel hok aok (abs_ops (op_of op) m) (client_step B op c) ph"
proof -
  from assms(1) obtain d w where c: "cf_cache c = Some d" "cf_pending c = Some w" "wb_inv hok aok m (dbm d) w ph"
    by (auto simp: cf_rel_def)
  show ?thesis
  proof (cases op)
    case (CPutByHost h a)
    show ?thesis
    proof (cases "h = []")
      case True
      with CPutByHost assms(1) c show ?thesis by (simp add: cf_PutByHost_def)
    next
      case False
      with CPutByHost assms(3) have "hok h" "addr_IsValid a" by auto
      with CPutByHost False c wb_inv_PutByHost [OF c(3) assms(2)] show ?thesis
        by (simp add: cf_PutByHost_def cf_rel_def Let_def)
    qed
  next
    case (CPutByIP a h)
    with assms(3) c wb_inv_PutByIP [OF c(3) assms(2)] show ?thesis
      by (simp add: cf_PutByIP_def cf_rel_def Let_def)
  next
    case (CDelByIP a)
    then have a: "aok a" using assms(3) by simp
    obtain host found where g: "getByIPLocked B a w c = (host, found)" by fastforce
    have "dec_ip (m (addr_AsSlice a)) = (host, found)"
      using g cf_reads(3) [OF c(1,2)] wb_invD(2) [OF c(3) a] by simp
    then have "deleted_host m a = (if found \<and> host \<noteq> [] then Some host else None)"
      by (auto simp: dec_ip_def deleted_host_def split: option.splits)
    with CDelByIP g c wb_inv_DelByIP [OF c(3) assms(2) a] show ?thesis
      by (simp add: cf_DelByIP_def cf_rel_def Let_def)
  qed
qed

lemma wb_reach_rel:
  assumes "wb_reach B c0 cs c ph" and "cf_rel hok aok m0 c0 Idle" and "keys_apart hok aok"
    and "list_all (client_ok hok aok) cs" and "writable B {op. True}"
  shows "cf_rel hok aok (direct cs m0) c ph"
  using assms(1,4)
proof (induction rule: wb_reach.induct)
  case init
  then show ?case using assms(2) by (simp add: direct_def)
next
  case (client cs c ph op)
  then show ?case using client_step_rel [OF _ assms(3)] by (simp add: direct_snoc)
next
  case (flush_starts cs c w ops n w')
  then obtain d where "cf_cache c = Some d" "wb_inv hok aok (direct cs m0) (dbm d) w Idle" by (auto simp: cf_rel_def)
  with wb_inv_begin flush_starts.hyps(3) show ?case by (fastforce simp: cf_rel_def)
next
  case (flush_writes cs c ops n)
  then obtain d w where c: "cf_cache c = Some d" "cf_pending c = Some w"
    "wb_inv hok aok (direct cs m0) (dbm d) w (Writing ops n)" by (auto simp: cf_rel_def)
  have "writable B (set ops)" using assms(5) by (simp add: writable_def)
  from flush_apply_ok [OF this, of d] obtain d' where
    "flush_apply B ops (Some d) = Some d'" "dbm d' = abs_ops ops (dbm d)" by blast
  with c wb_inv_written [OF c(3)] show ?case by (simp add: cf_rel_def)
next
  case (flush_ends cs c n w)
  then obtain d where "cf_cache c = Some d" "wb_inv hok aok (direct cs m0) (dbm d) w (Written n)" by (auto simp: cf_rel_def)
  with wb_inv_finish show ?case by (fastforce simp: cf_rel_def)
qed

lemma fresh_rel:
  assumes "values_ok hok aok (dbm d)"
  shows "cf_rel hok aok (dbm d) (newCachefileStore None (Some d)) Idle"
  using assms
  by (simp add: cf_rel_def newCachefileStore_def new_writeBehind_def wb_inv_def host_view_def ip_view_def)

lemma cf_rel_reads:
  assumes "cf_rel hok aok m c ph"
  shows "hok h \<Longrightarrow> cf_GetByHost B h c = dec_host (m h)" and "aok a \<Longrightarrow> cf_GetByIP B a c = dec_ip (m (addr_AsSlice a))"
  using assms by (auto simp: cf_rel_def cf_reads wb_invD)

lemma cf_rel_values: "cf_rel hok aok m c ph \<Longrightarrow> values_ok hok aok m"
  by (auto simp: cf_rel_def dest: wb_invD(9))

text \<open>A completed flush leaves everything in the database.\<close>

lemma Sync_rel:
  assumes "cf_rel hok aok m c Idle" and "writable B {op. True}"
  shows "\<exists>d. cf_cache (cf_Sync B c) = Some d \<and> dbm d = m \<and> cf_rel hok aok m (cf_Sync B c) Idle"
proof -
  from assms(1) obtain d w where c: "cf_cache c = Some d" "cf_pending c = Some w" "wb_inv hok aok m (dbm d) w Idle"
    by (auto simp: cf_rel_def)
  obtain ops n w' where b: "flush_begin w = (ops, n, w')" by (metis prod.collapse)
  have ops: "ops = wb_ops w" using b by (auto simp: flush_begin_def)
  have m: "m = abs_ops ops (dbm d)" using wb_invD(3) [OF c(3)] ops by simp
  note inv = wb_inv_begin [OF c(3) b]
  show ?thesis
  proof (cases "ops = []")
    case True
    with inv m c b show ?thesis by (auto simp: cf_Sync_def wb_flush_def cf_rel_def)
  next
    case False
    have "writable B (set ops)" using assms(2) by (simp add: writable_def)
    from flush_apply_ok [OF this, of d] obtain d' where
      d': "flush_apply B ops (Some d) = Some d'" "dbm d' = abs_ops ops (dbm d)" by blast
    have "wb_inv hok aok m (dbm d') (flush_finish n w') Idle"
      using inv False wb_inv_finish [OF wb_inv_written [OF _ d'(2)]] by simp
    with False d' m c b show ?thesis by (auto simp: cf_Sync_def wb_flush_def cf_rel_def)
  qed
qed

end

section \<open>The persistent store provides the interface of the pool\<close>

definition cf_i2h :: "('db, 'tx) bolt \<Rightarrow> (addr \<Rightarrow> bool) \<Rightarrow> 'db cachefileStore \<Rightarrow> addr \<Rightarrow> string option" where
  "cf_i2h B aok c a = (if aok a \<and> snd (cf_GetByIP B a c) then Some (fst (cf_GetByIP B a c)) else None)"

text \<open>
  The keys of the pool's own state live beside the hosts, so they are not hosts. \<open>flushable\<close> says
  that the bucket can be dropped.
\<close>

definition flushable :: "('db, 'tx) bolt \<Rightarrow> bool" where
  "flushable B \<longleftrightarrow> (\<forall>d. \<exists>d'. fs_FlushFakeIP B (Some d) = Some (None, Some d'))"

definition with_state_keys :: "(string \<Rightarrow> bool) \<Rightarrow> string \<Rightarrow> bool" where
  "with_state_keys hok h \<longleftrightarrow> hok h \<or> h = offsetKey \<or> h = cycleKey"

locale cachefile_db = bolt_db B dbm txm
  for B :: "('db, 'tx) bolt" and dbm :: "'db \<Rightarrow> string \<Rightarrow> string option" and txm :: "'tx \<Rightarrow> string \<Rightarrow> string option" +
  fixes hok :: "string \<Rightarrow> bool" and aok :: "addr \<Rightarrow> bool"
  assumes apart: "keys_apart (with_state_keys hok) aok"
    and flush_succeeds: "flushable B"

definition cf_sinv ::
  "('db, 'tx) bolt \<Rightarrow> ('db \<Rightarrow> string \<Rightarrow> string option) \<Rightarrow> (string \<Rightarrow> bool) \<Rightarrow> (addr \<Rightarrow> bool) \<Rightarrow> 'db cachefileStore \<Rightarrow> bool" where
  "cf_sinv B dbm hok aok c \<longleftrightarrow>
     (\<exists>m d w. cf_cache c = Some d \<and> cf_pending c = Some w \<and> wb_inv (with_state_keys hok) aok m (dbm d) w Idle)
     \<and> (\<forall>a h. cf_i2h B aok c a = Some h \<longrightarrow> hok h)
     \<and> (\<forall>h a. hok h \<longrightarrow> cf_GetByHost B h c = (a, True) \<longleftrightarrow> cf_i2h B aok c a = Some h)"

context cachefile_db
begin

lemma sinv_rel:
  "cf_sinv B dbm hok aok c \<Longrightarrow> \<exists>m. cf_rel (with_state_keys hok) aok m c Idle"
  by (auto simp: cf_sinv_def cf_rel_def)

lemma rel_i2h: "cf_rel (with_state_keys hok) aok m c ph \<Longrightarrow> cf_i2h B aok c a = (if aok a then m (addr_AsSlice a) else None)"
  using cf_rel_reads(2) [of "with_state_keys hok" aok m c ph a] by (auto simp: cf_i2h_def dec_ip_def split: option.splits)

lemma rel_host:
  assumes "cf_rel (with_state_keys hok) aok m c ph" and "hok h"
  shows "cf_GetByHost B h c = dec_host (m h)"
  using cf_rel_reads(1) [OF assms(1)] assms(2) by (simp add: with_state_keys_def)

lemma sinvI:
  assumes "cf_rel (with_state_keys hok) aok m c Idle" and "\<And>a h. aok a \<Longrightarrow> m (addr_AsSlice a) = Some h \<Longrightarrow> hok h"
    and "\<And>h a. hok h \<Longrightarrow> dec_host (m h) = (a, True) \<longleftrightarrow> aok a \<and> m (addr_AsSlice a) = Some h"
  shows "cf_sinv B dbm hok aok c"
  using assms(1) rel_i2h [OF assms(1)] rel_host [OF assms(1)] assms(2,3)
  by (auto simp: cf_sinv_def cf_rel_def)

lemma sinvE:
  assumes "cf_sinv B dbm hok aok c"
  obtains m where "cf_rel (with_state_keys hok) aok m c Idle" and "\<And>a h. aok a \<Longrightarrow> m (addr_AsSlice a) = Some h \<Longrightarrow> hok h"
    and "\<And>h a. hok h \<Longrightarrow> dec_host (m h) = (a, True) \<longleftrightarrow> aok a \<and> m (addr_AsSlice a) = Some h"
proof -
  from sinv_rel [OF assms] obtain m where m: "cf_rel (with_state_keys hok) aok m c Idle" by blast
  show ?thesis
  proof (rule that [OF m])
    show "aok a \<Longrightarrow> m (addr_AsSlice a) = Some h \<Longrightarrow> hok h" for a h
      using assms rel_i2h [OF m, of a] by (auto simp: cf_sinv_def)
    show "hok h \<Longrightarrow> dec_host (m h) = (a, True) \<longleftrightarrow> aok a \<and> m (addr_AsSlice a) = Some h" for h a
      using assms rel_i2h [OF m, of a] rel_host [OF m, of h] by (auto simp: cf_sinv_def split: if_splits)
  qed
qed

lemma hok_apart: "hok h \<Longrightarrow> aok a \<Longrightarrow> h \<noteq> addr_AsSlice a" "hok h \<Longrightarrow> h \<noteq> []" "aok a \<Longrightarrow> addr_IsValid a"
  "aok a \<Longrightarrow> aok b \<Longrightarrow> addr_AsSlice a = addr_AsSlice b \<longleftrightarrow> a = b"
  using apart addr_AsSlice_inject [of a b] by (auto simp: keys_apart_def with_state_keys_def)

lemma dec_host_False: "snd (dec_host v) = False \<Longrightarrow> dec_host v = (AddrZero, False)"
  by (auto simp: dec_host_def AddrFromSlice_def split: option.splits if_splits)

lemma cf_Del_law:
  assumes "cf_sinv B dbm hok aok c" and "aok a"
  shows "cf_sinv B dbm hok aok (cf_DelByIP B a c) \<and> cf_i2h B aok (cf_DelByIP B a c) = (cf_i2h B aok c)(a := None)"
proof -
  from assms(1) show ?thesis
  proof (rule sinvE)
    fix m
    assume m: "cf_rel (with_state_keys hok) aok m c Idle" "\<And>a h. aok a \<Longrightarrow> m (addr_AsSlice a) = Some h \<Longrightarrow> hok h"
      "\<And>h a. hok h \<Longrightarrow> dec_host (m h) = (a, True) \<longleftrightarrow> aok a \<and> m (addr_AsSlice a) = Some h"
    define m' where "m' = abs_op (OpDelByIP a) m"
    have r: "cf_rel (with_state_keys hok) aok m' (cf_DelByIP B a c) Idle"
      using client_step_rel [OF m(1) apart, of "CDelByIP a"] assms(2) by (simp add: m'_def)
    have dh: "deleted_host m a = m (addr_AsSlice a)"
      using m(2) [OF assms(2)] hok_apart(2) by (auto simp: deleted_host_def split: option.splits)
    have ip: "m' (addr_AsSlice b) = (if b = a then None else m (addr_AsSlice b))" if "aok b" for b
      unfolding m'_def abs_op_Del dh using hok_apart(4) [OF that assms(2)] hok_apart(1) [OF m(2) [OF assms(2)] that] by auto
    have host: "m' h = (if m (addr_AsSlice a) = Some h then None else m h)" if "hok h" for h
      unfolding m'_def abs_op_Del dh using hok_apart(1) [OF that assms(2)] by auto
    have "cf_sinv B dbm hok aok (cf_DelByIP B a c)"
    proof (rule sinvI [OF r])
      show "hok h" if "aok b" "m' (addr_AsSlice b) = Some h" for b h
        using that(2) m(2) [OF that(1)] unfolding ip [OF that(1)] by (auto split: if_splits)
      show "dec_host (m' h) = (b, True) \<longleftrightarrow> aok b \<and> m' (addr_AsSlice b) = Some h" if h: "hok h" for h b
      proof (cases "m (addr_AsSlice a) = Some h")
        case True
        then have "dec_host (m h) = (a, True)" using m(3) [OF h, of a] assms(2) by simp
        then have "\<not> (aok b \<and> m' (addr_AsSlice b) = Some h)" using m(3) [OF h, of b] ip [of b] by (auto split: if_splits)
        then show ?thesis using host [OF h] True by (simp add: dec_host_def)
      next
        case False
        have "aok b \<and> m' (addr_AsSlice b) = Some h \<longleftrightarrow> aok b \<and> m (addr_AsSlice b) = Some h" using ip [of b] False by auto
        then show ?thesis using m(3) [OF h, of b] host [OF h] False by simp
      qed
    qed
    moreover have "cf_i2h B aok (cf_DelByIP B a c) b = ((cf_i2h B aok c)(a := None)) b" for b
      using ip [of b] by (auto simp: rel_i2h [OF r] rel_i2h [OF m(1)])
    ultimately show ?thesis by blast
  qed
qed

lemma cf_Put_law:
  assumes "cf_sinv B dbm hok aok c" and "aok a" and "hok h" and "cf_i2h B aok c a = None" and "\<And>b. cf_i2h B aok c b \<noteq> Some h"
  shows "cf_sinv B dbm hok aok (cf_PutByHost B h a (cf_PutByIP B a h c))
    \<and> cf_i2h B aok (cf_PutByHost B h a (cf_PutByIP B a h c)) = (cf_i2h B aok c)(a \<mapsto> h)"
proof -
  from assms(1) show ?thesis
  proof (rule sinvE)
    fix m
    assume m: "cf_rel (with_state_keys hok) aok m c Idle" "\<And>a h. aok a \<Longrightarrow> m (addr_AsSlice a) = Some h \<Longrightarrow> hok h"
      "\<And>h a. hok h \<Longrightarrow> dec_host (m h) = (a, True) \<longleftrightarrow> aok a \<and> m (addr_AsSlice a) = Some h"
    let ?c1 = "cf_PutByIP B a h c" and ?c2 = "cf_PutByHost B h a (cf_PutByIP B a h c)"
    define m' where "m' = m(addr_AsSlice a \<mapsto> h, h \<mapsto> addr_AsSlice a)"
    have s: "with_state_keys hok h" using assms(3) by (simp add: with_state_keys_def)
    have r1: "cf_rel (with_state_keys hok) aok (m(addr_AsSlice a \<mapsto> h)) ?c1 Idle"
      using client_step_rel [OF m(1) apart, of "CPutByIP a h"] assms(2) s by simp
    have r: "cf_rel (with_state_keys hok) aok m' ?c2 Idle"
      using client_step_rel [OF r1 apart, of "CPutByHost h a"] hok_apart(2,3) assms(2,3) s by (simp add: m'_def)
    have free: "m (addr_AsSlice a) = None" "aok b \<Longrightarrow> m (addr_AsSlice b) \<noteq> Some h" for b
      using assms(2,4) assms(5) [of b] by (auto simp: rel_i2h [OF m(1)])
    have ip: "m' (addr_AsSlice b) = (if b = a then Some h else m (addr_AsSlice b))" if "aok b" for b
      using hok_apart(4) [OF that assms(2)] hok_apart(1) [OF assms(3) that] by (auto simp: m'_def)
    have host: "m' k = (if k = h then Some (addr_AsSlice a) else m k)" if "hok k" for k
      using hok_apart(1) [OF that assms(2)] by (auto simp: m'_def)
    have "cf_sinv B dbm hok aok ?c2"
    proof (rule sinvI [OF r])
      show "hok k" if "aok b" "m' (addr_AsSlice b) = Some k" for b k
        using that(2) m(2) [OF that(1)] assms(3) unfolding ip [OF that(1)] by (auto split: if_splits)
      show "dec_host (m' k) = (b, True) \<longleftrightarrow> aok b \<and> m' (addr_AsSlice b) = Some k" if k: "hok k" for k b
      proof (cases "k = h")
        case True
        have "dec_host (m' h) = (a, True)"
          using AddrFromSlice_AsSlice [OF hok_apart(3) [OF assms(2)]] by (simp add: dec_host_def m'_def)
        moreover have "aok b \<and> m' (addr_AsSlice b) = Some h \<longleftrightarrow> b = a" using ip [of b] free(2) [of b] assms(2) by (auto split: if_splits)
        ultimately show ?thesis unfolding True by auto
      next
        case False
        have "aok b \<and> m' (addr_AsSlice b) = Some k \<longleftrightarrow> aok b \<and> m (addr_AsSlice b) = Some k"
          using ip [of b] free(1) False by auto
        then show ?thesis using m(3) [OF k, of b] host [OF k] False by simp
      qed
    qed
    moreover have "cf_i2h B aok ?c2 b = ((cf_i2h B aok c)(a \<mapsto> h)) b" for b
      using ip [of b] ip [OF assms(2)] assms(2) by (auto simp: rel_i2h [OF r] rel_i2h [OF m(1)])
    ultimately show ?thesis by blast
  qed
qed

lemma cf_Flush_law:
  assumes "cf_sinv B dbm hok aok c"
  shows "\<exists>c'. cf_FlushFakeIP B c = Some (None, c') \<and> cf_sinv B dbm hok aok c' \<and> cf_i2h B aok c' = Map.empty"
proof -
  from assms obtain d w where c: "cf_cache c = Some d" "cf_pending c = Some w" by (auto simp: cf_sinv_def)
  obtain d' where d': "fs_FlushFakeIP B (Some d) = Some (None, Some d')"
    using flush_succeeds unfolding flushable_def by blast
  then have e: "dbm d' = Map.empty" using fs_FlushFakeIP_ok by blast
  let ?c = "c\<lparr>cf_pending := Some (w\<lparr>wb_ops := [], wb_hosts := (\<lambda>_. None), wb_ips := (\<lambda>_. None)\<rparr>), cf_cache := Some d'\<rparr>"
  have r: "cf_rel (with_state_keys hok) aok Map.empty ?c Idle"
    using e by (simp add: cf_rel_def wb_inv_def host_view_def ip_view_def values_ok_def)
  have "cf_sinv B dbm hok aok ?c"
    by (rule sinvI [OF r]) (auto simp: dec_host_def)
  moreover have "cf_i2h B aok ?c = Map.empty" by (rule ext) (simp add: rel_i2h [OF r])
  moreover have "cf_FlushFakeIP B c = Some (None, ?c)" using c d' by (simp add: cf_FlushFakeIP_def)
  ultimately show ?thesis by blast
qed

lemma cf_Get_law:
  assumes "cf_sinv B dbm hok aok c" and "hok h"
  shows "snd (cf_GetByHost B h c) \<longleftrightarrow> (\<exists>a. cf_i2h B aok c a = Some h)"
    and "cf_i2h B aok c a = Some h \<Longrightarrow> fst (cf_GetByHost B h c) = a"
proof -
  have e: "cf_GetByHost B h c = (b, True) \<longleftrightarrow> cf_i2h B aok c b = Some h" for b
    using assms by (simp add: cf_sinv_def)
  show "snd (cf_GetByHost B h c) \<longleftrightarrow> (\<exists>a. cf_i2h B aok c a = Some h)"
    using e [of "fst (cf_GetByHost B h c)"] e by (cases "cf_GetByHost B h c") auto
  show "cf_i2h B aok c a = Some h \<Longrightarrow> fst (cf_GetByHost B h c) = a" using e [of a] by simp
qed

lemma cf_GetByIP_law:
  assumes "cf_sinv B dbm hok aok c" and "aok a"
  shows "cf_GetByIP B a c = (case cf_i2h B aok c a of None \<Rightarrow> ('''', False) | Some h \<Rightarrow> (h, True))"
proof -
  from sinv_rel [OF assms(1)] obtain m where m: "cf_rel (with_state_keys hok) aok m c Idle" by blast
  show ?thesis
    using cf_rel_reads(2) [OF m assms(2)] rel_i2h [OF m, of a] assms(2) by (simp add: dec_ip_def)
qed

lemma fresh_sinv:
  assumes "dbm d = Map.empty"
  shows "cf_sinv B dbm hok aok (newCachefileStore None (Some d))"
    and "cf_i2h B aok (newCachefileStore None (Some d)) = Map.empty"
proof -
  have r: "cf_rel (with_state_keys hok) aok Map.empty (newCachefileStore None (Some d)) Idle"
    using fresh_rel [of "with_state_keys hok" aok d] assms by (simp add: values_ok_def)
  show "cf_sinv B dbm hok aok (newCachefileStore None (Some d))"
    by (rule sinvI [OF r]) (auto simp: dec_host_def)
  show "cf_i2h B aok (newCachefileStore None (Some d)) = Map.empty"
    by (rule ext) (simp add: rel_i2h [OF r])
qed

end

sublocale cachefile_db \<subseteq> cfst: fakeip_store "cachefile_store B" "cf_sinv B dbm hok aok" "cf_i2h B aok" hok aok
proof
  fix st :: "'db cachefileStore" and a b h
  assume s: "cf_sinv B dbm hok aok st"
  show "a = b" if "cf_i2h B aok st a = Some h" "cf_i2h B aok st b = Some h"
  proof -
    have "hok h" using s that(1) by (auto simp: cf_sinv_def)
    from cf_Get_law(2) [OF s this that(1)] cf_Get_law(2) [OF s this that(2)] show ?thesis by simp
  qed
  show "\<exists>ip st'. st_GetByHost (cachefile_store B) h st = Some ((ip, \<exists>a. cf_i2h B aok st a = Some h), st')
      \<and> cf_sinv B dbm hok aok st' \<and> cf_i2h B aok st' = cf_i2h B aok st \<and> (\<forall>a. cf_i2h B aok st a = Some h \<longrightarrow> ip = a)" if "hok h"
  proof (intro exI conjI allI impI)
    show "st_GetByHost (cachefile_store B) h st = Some ((fst (cf_GetByHost B h st), \<exists>a. cf_i2h B aok st a = Some h), st)"
      using cf_Get_law(1) [OF s that] by (cases "cf_GetByHost B h st") (simp add: cachefile_store_def)
    show "fst (cf_GetByHost B h st) = x" if "cf_i2h B aok st x = Some h" for x
      by (rule cf_Get_law(2) [OF s \<open>hok h\<close> that])
  qed (use s in simp_all)
  show "\<exists>st'. st_GetByIP (cachefile_store B) a st =
        Some (case cf_i2h B aok st a of None \<Rightarrow> ('''', False) | Some h \<Rightarrow> (h, True), st')
      \<and> cf_sinv B dbm hok aok st' \<and> cf_i2h B aok st' = cf_i2h B aok st" if "aok a"
    using cf_GetByIP_law [OF s that] s by (simp add: cachefile_store_def)
  show "st_Exist (cachefile_store B) a st \<longleftrightarrow> cf_i2h B aok st a \<noteq> None" if "aok a"
    using that by (simp add: cachefile_store_def cf_Exist_def cf_i2h_def)
  show "\<exists>st'. st_DelByIP (cachefile_store B) a st = Some st' \<and> cf_sinv B dbm hok aok st'
      \<and> cf_i2h B aok st' = (cf_i2h B aok st)(a := None)" if "aok a"
    using cf_Del_law [OF s that] by (simp add: cachefile_store_def)
  show "\<exists>st1 st2. st_PutByIP (cachefile_store B) a h st = Some st1 \<and> st_PutByHost (cachefile_store B) h a st1 = Some st2
      \<and> cf_sinv B dbm hok aok st2 \<and> cf_i2h B aok st2 \<subseteq>\<^sub>m (cf_i2h B aok st)(a \<mapsto> h) \<and> cf_i2h B aok st2 a = Some h"
    if "aok a" "hok h" "cf_i2h B aok st a = None" "\<And>b. cf_i2h B aok st b \<noteq> Some h"
    using cf_Put_law [OF s that] by (simp add: cachefile_store_def)
  show "\<exists>st'. st_FlushFakeIP (cachefile_store B) st = Some (None, st') \<and> cf_sinv B dbm hok aok st' \<and> cf_i2h B aok st' = Map.empty"
    using cf_Flush_law [OF s] by (simp add: cachefile_store_def)
qed

context cachefile_db
begin

lemma cachefile_fakeip_store:
  "fakeip_store (cachefile_store B) (cf_sinv B dbm hok aok) (cf_i2h B aok) hok aok"
  by (rule cfst.fakeip_store_axioms)

end

end
