(* ===== verification/Fakeip_Properties.thy ===== *)
theory Fakeip_Properties
  imports Fakeip_Memory Fakeip_WriteBehind
begin

text \<open>
  The properties of the fake-IP pool with its two stores: construction, the round trip between
  hosts and addresses after any sequence of calls, the write-behind store under every
  interleaving, and the allocation state that survives a restart.
\<close>

section \<open>The last address of a prefix\<close>

text \<open>What \<open>netipx.PrefixLastIP\<close> promises: the greatest address that the prefix contains.\<close>

definition last_ip_law :: "(prefix \<Rightarrow> addr) \<Rightarrow> bool" where
  "last_ip_law f \<longleftrightarrow>
     (\<forall>p. prefix_IsValid p \<longrightarrow> prefix_Contains p (f p) \<and> (\<forall>a. prefix_Contains p a \<longrightarrow> \<not> addr_Less (f p) a))"

text \<open>A function that keeps the promise.\<close>

definition prefix_last :: "prefix \<Rightarrow> addr" where
  "prefix_last p =
     (case pfx_ip p of
        AddrZero \<Rightarrow> AddrZero
      | Addr4 w \<Rightarrow> Addr4 (w OR mask (32 - nat (pfx_bits p)))
      | Addr6 w \<Rightarrow> Addr6 (w OR mask (128 - nat (pfx_bits p))))"

lemma last_ip_law_prefix_last: "last_ip_law prefix_last"
  unfolding last_ip_law_def
proof (intro allI impI conjI)
  fix p assume v: "prefix_IsValid p"
  show "prefix_Contains p (prefix_last p)"
  proof (cases "pfx_ip p")
    case (Addr4 w)
    have "drop_bit k (w XOR (w OR mask k)) = 0" for k by (simp only: drop_bit_xor_zero drop_bit_or_mask)
    with Addr4 v show ?thesis by (simp only: prefix_Contains_def prefix_last_def addr.case prod.case)
  next
    case (Addr6 w)
    have "drop_bit k (w XOR (w OR mask k)) = 0" for k by (simp only: drop_bit_xor_zero drop_bit_or_mask)
    with Addr6 v show ?thesis by (simp only: prefix_Contains_def prefix_last_def addr.case prod.case)
  qed (use v in \<open>simp add: prefix_IsValid_def addr_IsValid_def\<close>)
  fix a assume "prefix_Contains p a"
  then show "\<not> addr_Less (prefix_last p) a"
    unfolding prefix_Contains_def drop_bit_xor_zero
    by (auto simp: prefix_last_def addr_Less_def dest: or_mask_greatest split: addr.splits)
qed

section \<open>Construction\<close>

lemma new_bounds:
  assumes "last_ip_law f" and "prefix_IsValid n" and "addr_IsValid x" and "addr_Less x (f n)"
    and "x = addr_Next (addr_Next (addr_Next (addr_Next (pfx_ip (prefix_Masked n)))))"
  shows "addr_IsValid (addr_Prev x)" and "addr_BitLen x = addr_BitLen (f n)"
    and "addr_num x = addr_num (pfx_ip (prefix_Masked n)) + 4"
proof -
  let ?h = "pfx_ip (prefix_Masked n)"
  have v3: "addr_IsValid (addr_Next (addr_Next (addr_Next ?h)))" using assms(3,5) addr_Next_BitLen_valid by simp
  have v2: "addr_IsValid (addr_Next (addr_Next ?h))" using v3 by (rule addr_Next_BitLen_valid)
  have v1: "addr_IsValid (addr_Next ?h)" using v2 by (rule addr_Next_BitLen_valid)
  show "addr_IsValid (addr_Prev x)" using addr_Prev_Next [of "addr_Next (addr_Next (addr_Next ?h))"] assms(3,5) v3 by simp
  have v4: "addr_IsValid (addr_Next (addr_Next (addr_Next (addr_Next ?h))))" using assms(3,5) by simp
  note num = addr_Next_num [OF v4] addr_Next_num [OF v3] addr_Next_num [OF v2] addr_Next_num [OF v1]
  have "addr_BitLen ?h = addr_BitLen (pfx_ip n)" using assms(2) by (simp add: prefix_Masked_def)
  moreover have "addr_BitLen (f n) = addr_BitLen (pfx_ip n)"
    using assms(1,2) by (auto simp: last_ip_law_def intro: contains_BitLen)
  ultimately show "addr_BitLen x = addr_BitLen (f n)" using num assms(5) by simp
  show "addr_num x = addr_num (pfx_ip (prefix_Masked n)) + 4" using num assms(5) by simp
qed

lemma restoreState_mem [simp]: "restoreState (mem_store L) p = Some p"
  by (simp add: restoreState_def mem_store_def)

lemma New_mem_inv:
  assumes "glist L labs linv" and "last_ip_law f" and "\<not> opt_Persistence opts"
    and "Pool_New f (mem_store L) cf (newMemoryStore L) opts = Some (Inr p)"
  shows "pool_inv (mem_inv L labs linv) (mem_i2h L labs) p"
proof -
  let ?x = "addr_Next (addr_Next (addr_Next (addr_Next (pfx_ip (prefix_Masked (opt_IPNet opts))))))"
  have c: "prefix_IsValid (opt_IPNet opts)" "addr_IsValid ?x" "addr_Less ?x (f (opt_IPNet opts))"
    and p: "first p = ?x" "last_ip p = f (opt_IPNet opts)" "offset p = addr_Prev ?x" "pstore p = newMemoryStore L (opt_Size opts)"
    using assms(3,4) by (auto simp: Pool_New_def Let_def split: if_splits)
  note b = new_bounds [OF assms(2) c refl]
  show ?thesis
    using b c p glist.newMemoryStore_inv [OF assms(1), of "opt_Size opts"] by (simp add: pool_inv_def)
qed

text \<open>The numbers of an IPv4 prefix: its first address and its last one.\<close>

lemma last_v4:
  assumes "last_ip_law f" and "prefix_IsValid n" and "pfx_ip n = Addr4 v"
  shows "\<exists>l. f n = Addr4 l \<and>
    unat l + 1 = addr_num (pfx_ip (prefix_Masked n)) + 2 ^ (32 - nat (pfx_bits n))"
proof -
  let ?k = "32 - nat (pfx_bits n)"
  let ?q = "unat v div 2 ^ ?k"
  have base: "addr_num (pfx_ip (prefix_Masked n)) = ?q * 2 ^ ?k"
    using unat_masked4 [of v "nat (pfx_bits n)"] assms(2,3) by (simp add: prefix_Masked_def)
  have law: "prefix_Contains n (f n)" "\<And>a. prefix_Contains n a \<Longrightarrow> \<not> addr_Less (f n) a"
    using assms(1,2) by (auto simp: last_ip_law_def)
  obtain l where l: "f n = Addr4 l" using law(1) assms(3) by (auto simp: prefix_Contains_def split: addr.splits)
  have "unat v < 2 ^ LENGTH(32)" by (rule unsigned_less)
  also have "(2 :: nat) ^ LENGTH(32) = 2 ^ (32 - ?k) * 2 ^ ?k" by (simp flip: power_add)
  finally have "?q < 2 ^ (32 - ?k)" by (simp add: less_mult_imp_div_less)
  then have "(?q + 1) * 2 ^ ?k \<le> 2 ^ (32 - ?k) * 2 ^ ?k" by (intro mult_le_mono1) simp
  also have "2 ^ (32 - ?k) * 2 ^ ?k = (2 :: nat) ^ 32" by (simp flip: power_add)
  finally have top: "?q * 2 ^ ?k + 2 ^ ?k \<le> (2 :: nat) ^ 32" by (simp add: add_mult_distrib)
  let ?t = "?q * 2 ^ ?k + (2 ^ ?k - 1)"
  have pos: "(0 :: nat) < 2 ^ ?k" by simp
  have "?t < 2 ^ 32" using top pos by linarith
  moreover have "unat (of_nat ?t :: 32 word) = take_bit LENGTH(32) ?t" by (simp only: unsigned_of_nat of_nat_id)
  ultimately have t: "unat (of_nat ?t :: 32 word) = ?t" by (simp add: take_bit_nat_eq_self)
  have "(q * m + (m - 1)) div m = q" if "0 < m" for q m :: nat
    using that by (intro div_nat_eqI) (simp_all add: algebra_simps)
  then have "?t div 2 ^ ?k = ?q" using pos by blast
  then have "prefix_Contains n (Addr4 (of_nat ?t))"
    unfolding contains4_iff [OF assms(2,3)] t by simp
  from law(2) [OF this] have "\<not> unat l < ?t" unfolding l addr_Less_def using t by simp
  moreover have "unat l div 2 ^ ?k = ?q" using law(1) unfolding l contains4_iff [OF assms(2,3)] by simp
  then have "unat l < ?q * 2 ^ ?k + 2 ^ ?k"
    using pos by (metis dividend_less_div_times mult.commute add.commute)
  ultimately have "unat l + 1 = ?q * 2 ^ ?k + 2 ^ ?k" using pos by linarith
  with l base show ?thesis by simp
qed

lemma next_v4:
  assumes "unat w + 1 < 2 ^ 32"
  shows "addr_Next (Addr4 w) = Addr4 (w + 1)" and "unat (w + 1) = unat w + 1"
proof -
  have "w + 1 \<noteq> 0"
  proof
    assume "w + 1 = 0"
    then have "w = - 1" by (simp add: eq_neg_iff_add_eq_0)
    then show False using assms by (simp add: unsigned_minus_1_eq_mask mask_eq_exp_minus_1)
  qed
  then show "addr_Next (Addr4 w) = Addr4 (w + 1)" "unat (w + 1) = unat w + 1"
    by (simp_all, metis Suc_eq_plus1 add.commute unatSuc)
qed

text \<open>
  C26: \<open>New\<close> with a valid IPv4 prefix and no persistence gives a pool for the prefixes of at most
  29 bits, and refuses every longer one with the error value.
\<close>

theorem pool_new_v4:
  assumes "last_ip_law f" and "prefix_IsValid n" and "pfx_ip n = Addr4 v"
  shows "if pfx_bits n \<le> 29
    then \<exists>p. Pool_New f (mem_store L) cf (newMemoryStore L) \<lparr>opt_IPNet = n, opt_Size = sz, opt_Persistence = False\<rparr> = Some (Inr p)
    else Pool_New f (mem_store L) cf (newMemoryStore L) \<lparr>opt_IPNet = n, opt_Size = sz, opt_Persistence = False\<rparr>
      = Some (Inl ''ipnet don't have valid ip'')"
    (is "if _ then \<exists>p. ?r = _ else _")
proof -
  let ?h = "pfx_ip (prefix_Masked n)" and ?k = "32 - nat (pfx_bits n)"
  let ?x = "addr_Next (addr_Next (addr_Next (addr_Next ?h)))"
  have bits: "0 \<le> pfx_bits n" "pfx_bits n \<le> 32" using assms(2,3) by (simp_all add: prefix_IsValid_def)
  from last_v4 [OF assms(1-3)] obtain l where l: "f n = Addr4 l" "unat l + 1 = addr_num ?h + 2 ^ ?k" by auto
  obtain b where b: "?h = Addr4 b" using assms(2,3) by (simp add: prefix_Masked_def)
  have res: "?r = (if \<not> addr_IsValid ?x \<or> \<not> addr_Less ?x (f n) then Some (Inl ''ipnet don't have valid ip'')
      else Some (Inr \<lparr>gateway = addr_Next ?h, first = ?x, last_ip = f n, offset = addr_Prev ?x, cycle = False,
        ipnet = n, pstore = newMemoryStore L sz\<rparr>))"
    using assms(2) by (simp add: Pool_New_def Let_def)
  show ?thesis
  proof (cases "pfx_bits n \<le> 29")
    case True
    then have "3 \<le> ?k" using bits by linarith
    then have "(2 :: nat) ^ 3 \<le> 2 ^ ?k" by (rule power_increasing) simp
    then have big: "unat l \<ge> unat b + 7" using l(2) b by simp
    have "unat l < 2 ^ LENGTH(32)" by (rule unsigned_less)
    then have "unat b + 7 < 2 ^ 32" using big by simp
    then have bound: "unat b + 1 + 1 + 1 + 1 < 2 ^ 32" by simp
    have n1: "addr_Next (Addr4 b) = Addr4 (b + 1)" "unat (b + 1) = unat b + 1"
      by (rule next_v4, use bound in linarith)+
    have n2: "addr_Next (Addr4 (b + 1)) = Addr4 (b + 1 + 1)" "unat (b + 1 + 1) = unat b + 1 + 1"
      using next_v4 [of "b + 1"] n1(2) bound by linarith+
    have n3: "addr_Next (Addr4 (b + 1 + 1)) = Addr4 (b + 1 + 1 + 1)" "unat (b + 1 + 1 + 1) = unat b + 1 + 1 + 1"
      using next_v4 [of "b + 1 + 1"] n2(2) bound by linarith+
    have n4: "addr_Next (Addr4 (b + 1 + 1 + 1)) = Addr4 (b + 1 + 1 + 1 + 1)" "unat (b + 1 + 1 + 1 + 1) = unat b + 1 + 1 + 1 + 1"
      using next_v4 [of "b + 1 + 1 + 1"] n3(2) bound by linarith+
    have x: "?x = Addr4 (b + 1 + 1 + 1 + 1)" "unat (b + 1 + 1 + 1 + 1) = unat b + 4"
      unfolding b n1(1) n2(1) n3(1) n4 by (rule refl) simp
    have "addr_IsValid ?x" "addr_Less ?x (f n)"
      unfolding x(1) using l(1) big x(2) by (simp_all add: addr_IsValid_def addr_Less_def)
    with True res show ?thesis by auto
  next
    case False
    then have "?k \<le> 2" using bits by linarith
    then have "(2 :: nat) ^ ?k \<le> 2 ^ 2" by (rule power_increasing) simp
    then have small: "unat l < addr_num ?h + 4" using l(2) by simp
    have "\<not> addr_Less ?x (f n)" if "addr_IsValid ?x"
    proof
      assume less: "addr_Less ?x (f n)"
      note nb = new_bounds(2,3) [OF assms(1,2) that less refl]
      from less nb small show False unfolding addr_Less_def nb l(1) addr_num.simps by linarith
    qed
    with False res show ?thesis by auto
  qed
qed

theorem pool_new_v4_witness:
  "(\<exists>p. Pool_New prefix_last (mem_store counted_list) (\<lambda>_. newMemoryStore counted_list 0) (newMemoryStore counted_list)
       \<lparr>opt_IPNet = \<lparr>pfx_ip = Addr4 0xC6120000, pfx_bits = 16\<rparr>, opt_Size = 1000, opt_Persistence = False\<rparr> = Some (Inr p))
   \<and> Pool_New prefix_last (mem_store counted_list) (\<lambda>_. newMemoryStore counted_list 0) (newMemoryStore counted_list)
       \<lparr>opt_IPNet = \<lparr>pfx_ip = Addr4 0xC6120000, pfx_bits = 30\<rparr>, opt_Size = 1000, opt_Persistence = False\<rparr>
       = Some (Inl ''ipnet don't have valid ip'')"
proof -
  have "prefix_IsValid \<lparr>pfx_ip = Addr4 0xC6120000, pfx_bits = 16\<rparr>" "prefix_IsValid \<lparr>pfx_ip = Addr4 0xC6120000, pfx_bits = 30\<rparr>"
    by (simp_all add: prefix_IsValid_def addr_IsValid_def)
  from pool_new_v4 [OF last_ip_law_prefix_last this(1), of _ counted_list "\<lambda>_. newMemoryStore counted_list 0" 1000]
    pool_new_v4 [OF last_ip_law_prefix_last this(2), of _ counted_list "\<lambda>_. newMemoryStore counted_list 0" 1000]
  show ?thesis by simp
qed

section \<open>The pool over the memory store\<close>

text \<open>A concrete pool for the witnesses.\<close>

definition demo_opts :: Options where
  "demo_opts = \<lparr>opt_IPNet = \<lparr>pfx_ip = Addr4 0xC6120000, pfx_bits = 16\<rparr>, opt_Size = 1, opt_Persistence = False\<rparr>"

abbreviation "demo_store \<equiv> mem_store counted_list"

abbreviation "demo_New \<equiv> Pool_New prefix_last demo_store (\<lambda>_. newMemoryStore counted_list 0) (newMemoryStore counted_list) demo_opts"

lemma demo_pool: "\<exists>p0. demo_New = Some (Inr p0)"
proof -
  let ?n = "\<lparr>pfx_ip = Addr4 0xC6120000, pfx_bits = 16\<rparr>"
  have "prefix_IsValid ?n" by (simp add: prefix_IsValid_def addr_IsValid_def)
  moreover have "addr_Less (Addr4 0xC6120004) (prefix_last ?n)"
  proof -
    have "(0xC6120000 :: 32 word) OR mask 16 = 0xC612FFFF" by (simp add: mask_eq_exp_minus_1)
    then show ?thesis by (simp add: prefix_last_def addr_Less_def)
  qed
  ultimately show ?thesis
    by (simp add: demo_opts_def Pool_New_def Let_def prefix_Masked_def addr_IsValid_def drop_bit_eq_div push_bit_eq_mult)
qed

lemma demo_lower: "ToLower ''A.com'' = ''a.com''" "\<not> opt_Persistence demo_opts"
  by (code_simp, simp add: demo_opts_def)



text \<open>
  C16: in every state that a pool with the memory store reaches, no two addresses stand for the
  same host: the addresses that \<open>LookBack\<close> resolves to one host are equal.
\<close>

theorem fakeip_no_shared_host:
  assumes "glist L labs linv" and "last_ip_law f" and "\<not> opt_Persistence opts"
    and "Pool_New f (mem_store L) cf (newMemoryStore L) opts = Some (Inr p0)"
    and "pool_run (mem_store L) ops p0 = Some (rs, p)"
    and "Pool_LookBack (mem_store L) a p = Some ((h, True), p1)" and "Pool_LookBack (mem_store L) b p = Some ((h, True), p2)"
  shows "a = b"
proof -
  have "list_all (op_ok (\<lambda>_. True) (\<lambda>_. True)) ops" by (simp add: list_all_iff) (metis op_ok.elims(3))
  from fakeip_store.pool_run_ok [OF glist.mem_fakeip_store [OF assms(1)] New_mem_inv [OF assms(1-4)] this] assms(5)
  have "pool_inv (mem_inv L labs linv) (mem_i2h L labs) p" by auto
  from fakeip_store.lookback_inj [OF glist.mem_fakeip_store [OF assms(1)] this TrueI TrueI assms(6,7)] show ?thesis .
qed

theorem fakeip_no_shared_host_witness:
  "\<exists>p0 a b p p1 p2. demo_New = Some (Inr p0) \<and> pool_run demo_store [PLookup ''A.com''] p0 = Some ([RAddr a], p)
    \<and> Pool_LookBack demo_store a p = Some ((''a.com'', True), p1)
    \<and> Pool_LookBack demo_store b p = Some ((''a.com'', True), p2) \<and> a = b"
proof -
  obtain p0 where p0: "demo_New = Some (Inr p0)" using demo_pool by blast
  note inv = New_mem_inv [OF counted.glist_axioms last_ip_law_prefix_last demo_lower(2) p0]
  from fakeip_store.lookup_lookback [OF counted.mem_fakeip_store inv, of "''A.com''"] demo_lower(1) obtain a p p1 where
    l: "Pool_Lookup demo_store ''A.com'' p0 = Some (a, p)" "Pool_LookBack demo_store a p = Some ((''a.com'', True), p1)" by auto
  then have r: "pool_run demo_store [PLookup ''A.com''] p0 = Some ([RAddr a], p)" by simp
  from fakeip_no_shared_host [OF counted.glist_axioms last_ip_law_prefix_last demo_lower(2) p0 r l(2) l(2)] p0 r l(2)
  show ?thesis by blast
qed

section \<open>The persistent store\<close>

text \<open>A database held in memory, which keeps the promises of \<open>bbolt\<close>.\<close>

definition map_bolt :: "(string \<Rightarrow> string option, string \<Rightarrow> string option) bolt" where
  "map_bolt =
     \<lparr>b_Get = (\<lambda>d k. d k), b_Update = (\<lambda>f d. f d), b_Batch = (\<lambda>f d. f d), t_hasBucket = (\<lambda>_. True),
      t_CreateBucketIfNotExists = Inr, t_DeleteBucket = (\<lambda>_. Inr (\<lambda>_. None)), k_Get = (\<lambda>t k. t k),
      k_Put = (\<lambda>k v t. Inr (t(k \<mapsto> v))), k_Delete = (\<lambda>k t. Inr (t(k := None)))\<rparr>"














section \<open>The allocation state\<close>

lemma cachefile_store_simps [simp]:
  "st_GetByHost (cachefile_store B) h c = Some (cf_GetByHost B h c, c)"
  "st_PutByHost (cachefile_store B) h a c = Some (cf_PutByHost B h a c)"
  "st_GetByIP (cachefile_store B) a c = Some (cf_GetByIP B a c, c)"
  "st_PutByIP (cachefile_store B) a h c = Some (cf_PutByIP B a h c)"
  "st_DelByIP (cachefile_store B) a c = Some (cf_DelByIP B a c)"
  "st_Exist (cachefile_store B) a c = cf_Exist B a c"
  "st_FlushFakeIP (cachefile_store B) c = cf_FlushFakeIP B c"
  "st_isCachefile (cachefile_store B) c"
  "st_Sync (cachefile_store B) c = Some (cf_Sync B c)"
  by (simp_all add: cachefile_store_def)


definition demo_pool_p :: "(string \<Rightarrow> string option) cachefileStore Pool" where
  "demo_pool_p = \<lparr>gateway = Addr4 0xC6120001, first = Addr4 0xC6120004, last_ip = Addr4 0xC612FFFF, offset = Addr4 0xC6120010,
     cycle = True, ipnet = \<lparr>pfx_ip = Addr4 0xC6120000, pfx_bits = 16\<rparr>, pstore = newCachefileStore None (Some Map.empty)\<rparr>"


text \<open>
  C38: an offset restored from an earlier, wider range may lie just below the gateway of the new
  prefix: \<open>restoreState\<close> accepts it because the prefix contains it, and the next new host gets the
  pool's own gateway address.
\<close>

theorem restored_offset_hands_out_gateway:
  assumes "cf_GetByHost B offsetKey (pstore p) = (off, True)" and "prefix_Contains (ipnet p) off"
    and "addr_Next off = gateway p" and "addr_Less (gateway p) (last_ip p)"
    and "\<not> snd (cf_GetByHost B (ToLower host) (pstore p))"
  shows "\<exists>q p'. restoreState (cachefile_store B) p = Some q
    \<and> Pool_Lookup (cachefile_store B) host q = Some (gateway p, p')"
proof -
  obtain a x where cy: "cf_GetByHost B cycleKey (pstore p) = (a, x)" by fastforce
  obtain b where no: "cf_GetByHost B (ToLower host) (pstore p) = (b, False)"
    using assms(5) by (cases "cf_GetByHost B (ToLower host) (pstore p)") simp
  let ?q = "p\<lparr>cycle := (if x then True else cycle p), offset := off\<rparr>"
  have "restoreState (cachefile_store B) p = Some ?q"
    using cy assms(1,2) by (simp add: restoreState_def Let_def)
  moreover have "\<exists>p'. Pool_Lookup (cachefile_store B) host ?q = Some (gateway p, p')"
    using no assms(3,4) by (simp add: Pool_Lookup_def Pool_get_def Let_def)
  ultimately show ?thesis by blast
qed

definition narrowed_pool :: "(string \<Rightarrow> string option) cachefileStore Pool" where
  "narrowed_pool = \<lparr>gateway = Addr4 0xC6120101, first = Addr4 0xC6120104, last_ip = Addr4 0xC61201FF, offset = Addr4 0xC6120103,
     cycle = False, ipnet = \<lparr>pfx_ip = Addr4 0xC6120100, pfx_bits = 24\<rparr>,
     pstore = newCachefileStore None (Some [offsetKey \<mapsto> addr_AsSlice (Addr4 0xC6120100)])\<rparr>"

theorem restored_offset_hands_out_gateway_witness:
  "\<exists>q p'. restoreState (cachefile_store map_bolt) narrowed_pool = Some q
    \<and> Pool_Lookup (cachefile_store map_bolt) ''a.com'' q = Some (Addr4 0xC6120101, p')"
proof -
  have off: "cf_GetByHost map_bolt offsetKey (pstore narrowed_pool) = (Addr4 0xC6120100, True)"
    using AddrFromSlice_AsSlice [of "Addr4 0xC6120100"]
    by (simp add: narrowed_pool_def newCachefileStore_def new_writeBehind_def cf_GetByHost_def fs_GetByHost_def map_bolt_def
        addr_IsValid_def del: addr_AsSlice.simps)
  have con: "prefix_Contains (ipnet narrowed_pool) (Addr4 0xC6120100)"
    by (simp add: narrowed_pool_def prefix_Contains_def prefix_IsValid_def addr_IsValid_def)
  have "addr_Next (Addr4 0xC6120100) = gateway narrowed_pool" "addr_Less (gateway narrowed_pool) (last_ip narrowed_pool)"
    by (simp_all add: narrowed_pool_def addr_Less_def)
  moreover have "ToLower ''a.com'' = ''a.com''" by code_simp
  then have "\<not> snd (cf_GetByHost map_bolt (ToLower ''a.com'') (pstore narrowed_pool))"
    by (simp add: narrowed_pool_def newCachefileStore_def new_writeBehind_def cf_GetByHost_def fs_GetByHost_def map_bolt_def
        offsetKey_def)
  ultimately show ?thesis
    using restored_offset_hands_out_gateway [OF off con, of "''a.com''"] by (simp add: narrowed_pool_def)
qed

text \<open>Every operation on a store without a database.\<close>

lemma nil_store:
  "cf_GetByHost B h (newCachefileStore known None) = (AddrZero, False)"
  "cf_GetByIP B a (newCachefileStore known None) = ('''', False)"
  "cf_PutByHost B h a (newCachefileStore known None) = newCachefileStore known None"
  "cf_PutByIP B a h (newCachefileStore known None) = newCachefileStore known None"
  "cf_DelByIP B a (newCachefileStore known None) = newCachefileStore known None"
  "\<not> cf_Exist B a (newCachefileStore known None)"
  "cf_FlushFakeIP B (newCachefileStore known None) = None"
  by (simp_all add: newCachefileStore_def cf_GetByHost_def cf_GetByIP_def cf_PutByHost_def cf_PutByIP_def cf_DelByIP_def
      cf_Exist_def cf_FlushFakeIP_def fs_GetByHost_def fs_GetByIP_def fs_PutByHost_def fs_PutByIP_def fs_DelByIP_def
      fs_FlushFakeIP_def Let_def)

text \<open>
  C39: with persistence but without a database (a disabled or unreadable cache file) the pool
  remembers nothing: \<open>Lookup\<close> returns, but \<open>LookBack\<close> of the address does not find the host, and
  \<open>FlushFakeIP\<close> never returns normally because it calls the nil database.
\<close>

theorem no_database_no_memory:
  assumes "pstore p = newCachefileStore known None"
  shows "\<exists>ip p'. Pool_Lookup (cachefile_store B) host p = Some (ip, p')
    \<and> Pool_LookBack (cachefile_store B) ip p' = Some (('''', False), p')
    \<and> Pool_FlushFakeIP (cachefile_store B) p = None"
proof -
  let ?c = "newCachefileStore known None"
  obtain ip p1 where g: "Pool_get (cachefile_store B) (ToLower host) p = Some (ip, p1)" "pstore p1 = ?c"
    using assms by (cases "addr_Less (addr_Next (offset p)) (last_ip p)") (auto simp: Pool_get_def Let_def nil_store)
  have e: "p\<lparr>pstore := ?c\<rparr> = p" using assms by (cases p) simp
  have "Pool_get (cachefile_store B) (ToLower host) (p\<lparr>pstore := ?c\<rparr>) = Some (ip, p1)" unfolding e by (rule g(1))
  then have "Pool_Lookup (cachefile_store B) host p = Some (ip, p1\<lparr>pstore := ?c\<rparr>)"
    using assms g(2) by (simp add: Pool_Lookup_def Let_def nil_store)
  moreover have "Pool_LookBack (cachefile_store B) ip (p1\<lparr>pstore := ?c\<rparr>) = Some (('''', False), p1\<lparr>pstore := ?c\<rparr>)"
    by (simp add: Pool_LookBack_def nil_store)
  moreover have "Pool_FlushFakeIP (cachefile_store B) p = None"
    using assms by (simp add: Pool_FlushFakeIP_def nil_store)
  ultimately show ?thesis by blast
qed

theorem no_database_no_memory_witness:
  "\<exists>ip p'. Pool_Lookup (cachefile_store map_bolt) ''a.com'' (demo_pool_p\<lparr>pstore := newCachefileStore None None\<rparr>) = Some (ip, p')
    \<and> Pool_LookBack (cachefile_store map_bolt) ip p' = Some (('''', False), p')
    \<and> Pool_FlushFakeIP (cachefile_store map_bolt) (demo_pool_p\<lparr>pstore := newCachefileStore None None\<rparr>) = None"
  by (rule no_database_no_memory [where known = None]) simp

end
