(* ===== verification/Wildcard.thy ===== *)
theory Wildcard
  imports Hako_Prelude
begin

text \<open>
  The matcher of \<open>src/component/wildcard/wildcard.go\<close>, used by the rule \<open>DOMAIN-WILDCARD\<close>. The
  code is a loop with a single backtracking point, the last star it met. \<open>matchByString\<close> is that
  loop with the variables of the source; a result \<open>None\<close> would mean that it does not return.
  The reference is the usual recursive definition \<open>glob\<close>, and the theorem says that the loop
  returns on every input and decides \<open>glob\<close>.
\<close>

function checkPattern :: "string \<Rightarrow> nat \<Rightarrow> bool" where
  "checkPattern pattern patternIndex =
     (if patternIndex < length pattern \<and> pattern ! patternIndex = CHR ''*''
      then checkPattern pattern (patternIndex + 1)
      else patternIndex = length pattern)"
  by pat_completeness auto
termination by (relation "measure (\<lambda>(pattern, i). length pattern - i)") auto

declare checkPattern.simps [simp del]

partial_function (option) match_loop ::
  "string \<Rightarrow> string \<Rightarrow> nat \<Rightarrow> nat \<Rightarrow> int \<Rightarrow> nat \<Rightarrow> bool option" where
  "match_loop pattern s patternIndex sIndex star lastStar =
     (if length s \<le> sIndex then Some (checkPattern pattern patternIndex)
      else if length pattern \<le> patternIndex then
        (if star \<noteq> -1
         then match_loop pattern s (nat (star + 1)) (lastStar + 1) star (lastStar + 1)
         else Some False)
      else if pattern ! patternIndex = CHR ''?'' then
        match_loop pattern s (patternIndex + 1) (sIndex + 1) star lastStar
      else if pattern ! patternIndex = CHR ''*'' then
        match_loop pattern s (patternIndex + 1) sIndex (int patternIndex) sIndex
      else if pattern ! patternIndex \<noteq> s ! sIndex then
        (if star \<noteq> -1
         then match_loop pattern s (nat (star + 1)) (lastStar + 1) star (lastStar + 1)
         else Some False)
      else match_loop pattern s (patternIndex + 1) (sIndex + 1) star lastStar)"

definition matchByString :: "string \<Rightarrow> string \<Rightarrow> bool option" where
  "matchByString pattern s = match_loop pattern s 0 0 (-1) 0"

definition Match :: "string \<Rightarrow> string \<Rightarrow> bool option" where
  "Match pattern s =
     (if pattern = '''' then Some (s = pattern)
      else if pattern = ''*'' \<or> s = pattern then Some True
      else matchByString pattern s)"

section \<open>The reference\<close>

fun glob :: "string \<Rightarrow> string \<Rightarrow> bool" where
  "glob [] s = (s = [])"
| "glob (c # p) [] = (c = CHR ''*'' \<and> glob p [])"
| "glob (c # p) (x # s) =
     (if c = CHR ''*'' then glob p (x # s) \<or> glob (c # p) s
      else (c = CHR ''?'' \<or> c = x) \<and> glob p s)"

abbreviation lit :: "char \<Rightarrow> char \<Rightarrow> bool" where
  "lit c x \<equiv> c \<noteq> CHR ''*'' \<and> (c = CHR ''?'' \<or> c = x)"

lemma glob_star: "glob (CHR ''*'' # p) s \<longleftrightarrow> (\<exists>j\<le>length s. glob p (drop j s))"
proof (induction s)
  case Nil
  then show ?case by simp
next
  case (Cons x s)
  have "(\<exists>j\<le>length (x # s). glob p (drop j (x # s)))
      \<longleftrightarrow> glob p (x # s) \<or> (\<exists>j\<le>length s. glob p (drop j s))"
    by (simp add: ex_bool_eq) (metis Suc_le_mono drop_0 drop_Suc_Cons le0 not0_implies_Suc)
  with Cons show ?case by simp
qed

lemma glob_lits:
  "CHR ''*'' \<notin> set l \<Longrightarrow> glob (l @ p) s
     \<longleftrightarrow> list_all2 lit l (take (length l) s) \<and> glob p (drop (length l) s)"
proof (induction l arbitrary: s)
  case (Cons c l)
  then show ?case by (cases s) auto
qed simp

lemma glob_self: "glob p p"
proof (induction p)
  case (Cons c p)
  then have "glob (CHR ''*'' # p) p" unfolding glob_star by (intro exI [of _ 0]) simp
  with Cons show ?case by simp
qed simp

lemma glob_Nil: "glob p [] \<longleftrightarrow> set p \<subseteq> {CHR ''*''}"
  by (induction p) auto

lemma glob_star_drop:
  "glob (CHR ''*'' # p) (drop j s) \<Longrightarrow> i \<le> j \<Longrightarrow> j \<le> length s \<Longrightarrow> glob (CHR ''*'' # p) (drop i s)"
  unfolding glob_star
proof (elim exE conjE)
  fix k
  assume "i \<le> j" "j \<le> length s" "k \<le> length (drop j s)" "glob p (drop k (drop j s))"
  then show "\<exists>k\<le>length (drop i s). glob p (drop k (drop i s))"
    by (intro exI [of _ "k + (j - i)"]) auto
qed

lemma checkPattern_iff:
  "i \<le> length p \<Longrightarrow> checkPattern p i \<longleftrightarrow> glob (drop i p) []"
proof (induction p i rule: checkPattern.induct)
  case (1 p i)
  show ?case
  proof (cases "i < length p")
    case True
    then have "drop i p = p ! i # drop (Suc i) p" by (simp add: Cons_nth_drop_Suc)
    with 1 True show ?thesis by (subst checkPattern.simps) auto
  next
    case False
    with 1 show ?thesis by (subst checkPattern.simps) auto
  qed
qed

text \<open>
  What the loop knows: before the first star the pattern and the text are matched up to the two
  indices; after the star at \<open>k\<close> the text matches if the rest of the pattern after the star
  matches some suffix that starts at \<open>lastStar\<close> or later, and the literals since the star match
  the text from \<open>lastStar\<close> on.
\<close>

definition wc_inv :: "string \<Rightarrow> string \<Rightarrow> nat \<Rightarrow> nat \<Rightarrow> int \<Rightarrow> nat \<Rightarrow> bool" where
  "wc_inv p s pi si star ls \<longleftrightarrow> pi \<le> length p \<and> si \<le> length s \<and> -1 \<le> star \<and>
     (if star = -1 then glob p s = glob (drop pi p) (drop si s)
      else (\<exists>l. drop (nat (star + 1)) p = l @ drop pi p \<and> CHR ''*'' \<notin> set l
          \<and> nat (star + 1) + length l = pi \<and> ls + length l = si
          \<and> list_all2 lit l (take (length l) (drop ls s))
          \<and> glob p s = (\<exists>j\<ge>ls. j \<le> length s \<and> glob (l @ drop pi p) (drop j s))))"

lemma wc_inv_init: "wc_inv p s 0 0 (-1) 0"
  by (simp add: wc_inv_def)

lemma wc_inv_lit:
  assumes "wc_inv p s pi si star ls" and "pi < length p" and "si < length s"
    and "lit (p ! pi) (s ! si)"
  shows "wc_inv p s (pi + 1) (si + 1) star ls"
proof -
  have d: "drop pi p = p ! pi # drop (Suc pi) p" "drop si s = s ! si # drop (Suc si) s"
    using assms by (simp_all add: Cons_nth_drop_Suc)
  show ?thesis
  proof (cases "star = -1")
    case True
    with assms d show ?thesis by (auto simp: wc_inv_def)
  next
    case False
    with assms(1) obtain l where l: "drop (nat (star + 1)) p = l @ drop pi p" "CHR ''*'' \<notin> set l"
      "nat (star + 1) + length l = pi" "ls + length l = si" "list_all2 lit l (take (length l) (drop ls s))"
      "glob p s = (\<exists>j\<ge>ls. j \<le> length s \<and> glob (l @ drop pi p) (drop j s))" "-1 \<le> star"
      by (auto simp: wc_inv_def)
    have "take (Suc (length l)) (drop ls s) = take (length l) (drop ls s) @ [s ! si]"
      using l(4) assms(3) by (subst take_Suc_conv_app_nth) auto
    then have "list_all2 lit (l @ [p ! pi]) (take (length (l @ [p ! pi])) (drop ls s))"
      using l(5) assms(4) by (simp add: list_all2_appendI)
    with l assms(2-4) d(1) False show ?thesis
      unfolding wc_inv_def by (auto intro!: exI [of _ "l @ [p ! pi]"])
  qed
qed

lemma wc_inv_star:
  assumes "wc_inv p s pi si star ls" and "pi < length p" and "si < length s" and "p ! pi = CHR ''*''"
  shows "wc_inv p s (pi + 1) si (int pi) si"
proof -
  have d: "drop pi p = CHR ''*'' # drop (Suc pi) p"
    using assms by (metis Cons_nth_drop_Suc)
  have "glob p s = glob (drop pi p) (drop si s)"
  proof (cases "star = -1")
    case True
    with assms show ?thesis by (simp add: wc_inv_def)
  next
    case False
    with assms(1) obtain l where l: "CHR ''*'' \<notin> set l" "ls + length l = si"
      "list_all2 lit l (take (length l) (drop ls s))"
      "glob p s = (\<exists>j\<ge>ls. j \<le> length s \<and> glob (l @ drop pi p) (drop j s))"
      by (auto simp: wc_inv_def)
    have "glob (drop pi p) (drop si s)" if "ls \<le> j" "j \<le> length s" "glob (l @ drop pi p) (drop j s)" for j
    proof -
      have "glob (drop pi p) (drop (j + length l) s)" and "j + length l \<le> length s"
        using that l(1) by (auto simp: glob_lits add.commute dest: list_all2_lengthD)
      then show ?thesis using that l(2) unfolding d by (auto elim: glob_star_drop)
    qed
    moreover have "glob (drop pi p) (drop si s) \<Longrightarrow> glob (l @ drop pi p) (drop ls s)"
      using l by (auto simp: glob_lits add.commute)
    ultimately show ?thesis using l(2,4) assms(3) by (metis le_add1 le_eq_less_or_eq nat_le_linear order_trans)
  qed
  moreover have "(\<exists>j\<ge>si. j \<le> length s \<and> glob q (drop j s)) = (\<exists>j\<le>length s - si. glob q (drop j (drop si s)))" for q
    by (auto simp: add.commute) (metis add.commute diff_le_mono le_add_diff_inverse2, metis assms(3) le_add2 le_diff_conv2 less_or_eq_imp_le)
  ultimately show ?thesis
    using assms(2,3) d by (auto simp: wc_inv_def glob_star nat_add_distrib intro!: exI [of _ "[]"])
qed

lemma wc_inv_backtrack:
  assumes "wc_inv p s pi si star ls" and "star \<noteq> -1" and "si < length s"
    and "\<not> glob (drop pi p) (drop si s)"
  shows "wc_inv p s (nat (star + 1)) (ls + 1) star (ls + 1)" and "ls < length s"
proof -
  obtain l where l: "drop (nat (star + 1)) p = l @ drop pi p" "CHR ''*'' \<notin> set l"
      "nat (star + 1) + length l = pi" "ls + length l = si"
      "glob p s = (\<exists>j\<ge>ls. j \<le> length s \<and> glob (l @ drop pi p) (drop j s))" "-1 \<le> star" "pi \<le> length p"
    using assms(1,2) by (auto simp: wc_inv_def)
  show ls: "ls < length s" using l(4) assms(3) by simp
  have "\<not> glob (l @ drop pi p) (drop ls s)"
    using l(2,4) assms(4) by (simp add: glob_lits add.commute)
  then have "glob p s = (\<exists>j\<ge>ls + 1. j \<le> length s \<and> glob (l @ drop pi p) (drop j s))"
    unfolding l(5) by (metis Suc_eq_plus1 Suc_leD le_antisym not_less_eq_eq)
  with l ls assms(2) show "wc_inv p s (nat (star + 1)) (ls + 1) star (ls + 1)"
    by (auto simp: wc_inv_def)
qed

lemma wc_inv_fail:
  "wc_inv p s pi si (-1) ls \<Longrightarrow> \<not> glob (drop pi p) (drop si s) \<Longrightarrow> \<not> glob p s"
  by (simp add: wc_inv_def)

lemma wc_inv_end:
  assumes "wc_inv p s pi si star ls" and "length s \<le> si"
  shows "checkPattern p pi = glob p s"
proof (cases "star = -1")
  case True
  with assms show ?thesis by (simp add: wc_inv_def checkPattern_iff)
next
  case False
  have si: "si = length s" "pi \<le> length p" using assms by (auto simp: wc_inv_def)
  obtain l where l: "CHR ''*'' \<notin> set l" "ls + length l = si"
      "list_all2 lit l (take (length l) (drop ls s))"
      "glob p s = (\<exists>j\<ge>ls. j \<le> length s \<and> glob (l @ drop pi p) (drop j s))"
    using assms(1) False by (auto simp: wc_inv_def)
  have "j = ls" if "ls \<le> j" "j \<le> length s" "glob (l @ drop pi p) (drop j s)" for j
    using that l(1,2) si(1) by (auto simp: glob_lits dest!: list_all2_lengthD)
  then have "glob p s = glob (l @ drop pi p) (drop ls s)"
    unfolding l(4) using l(2) si(1) by (metis le_add1 order_refl)
  with l si show ?thesis by (simp add: glob_lits checkPattern_iff)
qed

lemma match_loop_decides:
  assumes "wc_inv p s pi si star ls"
  shows "match_loop p s pi si star ls = Some (glob p s)"
  using assms
proof (induction "(length p - nat (star + 1), length s - ls, length p - pi)" arbitrary: pi si star ls
    rule: wf_induct_rule [OF wf_lex_prod [OF wf_less_than wf_lex_prod [OF wf_less_than wf_less_than]]])
  case (1 pi star ls si)
  note IH = 1(1) and I = 1(2)
  have bounds: "pi \<le> length p" "si \<le> length s" "nat (star + 1) \<le> pi"
    using I by (auto simp: wc_inv_def split: if_splits)
  let ?out = "\<not> glob (drop pi p) (drop si s)"
  have retry: "(if star \<noteq> -1 then match_loop p s (nat (star + 1)) (ls + 1) star (ls + 1) else Some False)
        = Some (glob p s)" if "si < length s" "?out"
  proof (cases "star = -1")
    case True
    with that I wc_inv_fail show ?thesis by simp
  next
    case False
    show ?thesis
      using IH [OF _ wc_inv_backtrack(1) [OF I False that]] wc_inv_backtrack(2) [OF I False that] False
      by (simp add: diff_less_mono2)
  qed
  consider (last) "si = length s" | (over) "si < length s" "pi = length p"
    | (any) "si < length s" "pi < length p" "lit (p ! pi) (s ! si)"
    | (star) "si < length s" "pi < length p" "p ! pi = CHR ''*''"
    | (no) "si < length s" "pi < length p" "p ! pi \<noteq> CHR ''*''" "p ! pi \<noteq> CHR ''?''" "p ! pi \<noteq> s ! si"
    using bounds by fastforce
  then show ?case
  proof cases
    case last
    with wc_inv_end [OF I] show ?thesis by (simp add: match_loop.simps)
  next
    case over
    with retry show ?thesis by (subst match_loop.simps) simp
  next
    case any
    with IH [OF _ wc_inv_lit [OF I any(2,1,3)]] show ?thesis by (subst match_loop.simps) auto
  next
    case star
    have "length p - nat (int pi + 1) < length p - nat (star + 1)"
      using bounds star(2) by linarith
    with star IH [OF _ wc_inv_star [OF I star(2,1,3)]] show ?thesis
      by (subst match_loop.simps) simp
  next
    case no
    then have "?out" by (metis Cons_nth_drop_Suc glob.simps(3))
    with retry no show ?thesis by (subst match_loop.simps) simp
  qed
qed

lemma Match_returns: "Match pattern s \<noteq> None"
  by (auto simp: Match_def matchByString_def match_loop_decides [OF wc_inv_init])

text \<open>
  C19: \<open>Match\<close> returns for every pattern and text, and its result is the recursive meaning of the
  pattern: \<open>*\<close> stands for any text, \<open>?\<close> for one byte, every other byte for itself. So the single
  backtracking point of the loop and the three shortcuts lose no match and add none.
\<close>
theorem wildcard_match_is_glob: "Match pattern s = Some (glob pattern s)"
proof -
  have "glob ''*'' s" by (simp add: glob_star exI [of _ "length s"])
  then show ?thesis
    by (auto simp: Match_def matchByString_def match_loop_decides [OF wc_inv_init] glob_self)
qed
end
