(* ===== verification/Domain_Trie.thy ===== *)
theory Domain_Trie
  imports Go_Strings "HOL-Library.AList"
begin

text \<open>
  The domain trie of \<open>src/component/trie/domain.go\<close> and its nodes (\<open>node.go\<close>): patterns such as
  \<open>*.example.com\<close>, \<open>.example.com\<close> and \<open>+.example.com\<close> are stored label by label from the right.

  The nodes of a trie form a tree, so a node is a value of the datatype \<open>Node\<close> and a write through
  the pointer to a child is the update of the path from the root to it (\<open>writeChild\<close>). A Go map is
  an association list whose order stands for the unspecified order of \<open>range\<close>; \<open>None\<close> is the nil
  map. The zero value of the data type is the argument \<open>z\<close>. A callback of \<open>Foreach\<close> is a function
  that threads the state of its closure.
\<close>

section \<open>Nodes\<close>

datatype 'a Node = Node
  (childMap: "(string \<times> 'a Node) list option")
  (childNode: "'a Node option")
  (childStr: string)
  (inited: bool)
  (data: 'a)

definition wildcard :: string where "wildcard = ''*''"

definition dotWildcard :: string where "dotWildcard = ''''"

definition complexWildcard :: string where "complexWildcard = ''+''"

definition domainStep :: char where "domainStep = CHR ''.''"

lemmas wildcards = wildcard_def dotWildcard_def complexWildcard_def domainStep_def

definition newNode :: "'a \<Rightarrow> 'a Node" where
  "newNode z = Node None None '''' False z"

fun getChild :: "'a Node \<Rightarrow> string \<Rightarrow> 'a Node option" where
  "getChild (Node None cn cs i d) s =
     (case cn of Some c \<Rightarrow> if cs = s then Some c else None | None \<Rightarrow> None)"
| "getChild (Node (Some m) cn cs i d) s = map_of m s"

definition hasChild :: "'a Node \<Rightarrow> string \<Rightarrow> bool" where
  "hasChild n s \<longleftrightarrow> getChild n s \<noteq> None"

fun addChild :: "'a Node \<Rightarrow> string \<Rightarrow> 'a Node \<Rightarrow> 'a Node" where
  "addChild (Node None None cs i d) s child = Node None (Some child) s i d"
| "addChild (Node None (Some c) cs i d) s child = Node (Some (AList.update s child [(cs, c)])) None '''' i d"
| "addChild (Node (Some m) cn cs i d) s child = Node (Some (AList.update s child m)) cn cs i d"

text \<open>The node after the child at \<open>s\<close> has been changed through its pointer.\<close>

fun writeChild :: "'a Node \<Rightarrow> string \<Rightarrow> 'a Node \<Rightarrow> 'a Node" where
  "writeChild (Node None cn cs i d) s child = Node None (Some child) cs i d"
| "writeChild (Node (Some m) cn cs i d) s child = Node (Some (AList.update s child m)) cn cs i d"

definition getOrNewChild :: "'a \<Rightarrow> 'a Node \<Rightarrow> string \<Rightarrow> 'a Node \<times> 'a Node" where
  "getOrNewChild z n s =
     (case getChild n s of
        Some node \<Rightarrow> (node, n)
      | None \<Rightarrow> (let node = newNode z in (node, addChild n s node)))"

definition strClone :: "string \<Rightarrow> string" where
  "strClone key =
     (if key = wildcard then wildcard
      else if key = dotWildcard then dotWildcard
      else if key = complexWildcard then complexWildcard
      else if key = [domainStep] then [domainStep]
      else key)"

definition isEmpty :: "'a Node option \<Rightarrow> bool" where
  "isEmpty n = (case n of None \<Rightarrow> True | Some n \<Rightarrow> inited n = False)"

fun setData :: "'a Node \<Rightarrow> 'a \<Rightarrow> 'a Node" where
  "setData (Node m cn cs i d) v = Node m cn cs True v"

fun getChildren :: "'a Node \<Rightarrow> (string \<times> 'a Node) list" where
  "getChildren (Node None cn cs i d) = (case cn of Some c \<Rightarrow> [(cs, c)] | None \<Rightarrow> [])"
| "getChildren (Node (Some m) cn cs i d) = m"

lemma size_child_less:
  "kc \<in> set kids \<Longrightarrow> size (snd kc) < size_list (size_prod (\<lambda>x. 0) size) kids"
  by (induction kids) auto

function optimize :: "'a Node \<Rightarrow> 'a Node" where
  "optimize (Node m cn cs i d) =
     (let cs' = (if 0 < length cs then strClone cs else cs);
          cn' = map_option optimize cn
      in case m of
           None \<Rightarrow> Node None cn' cs' i d
         | Some kids \<Rightarrow>
             if length kids = 0 then Node None cn' cs' i d
             else if length kids = 1
             then optimize (Node None (Some (snd (hd kids))) (fst (hd kids)) i d)
             else Node (Some (map (\<lambda>kc. (strClone (fst kc), optimize (snd kc))) kids)) cn' cs' i d)"
  by pat_completeness auto
termination
  by (relation "measure size")
    (auto simp: length_Suc_conv size_child_less less_SucI trans_less_add1)

declare optimize.simps [simp del]

section \<open>Domains\<close>

datatype invalid_reason =
    DomainIsEmpty | TrailingDot | LeadingWhitespace | TrailingWhitespace
  | LabelIsEmpty nat
  | PlusMustOccupyLabel nat | PlusOnlyInFirstLabel | PlusMustBeFollowed
  | StarMustOccupyLabel nat

datatype ErrInvalidDomain = invalidDomainError string invalid_reason

fun first_empty_label :: "nat \<Rightarrow> string list \<Rightarrow> nat option" where
  "first_empty_label i [] = None"
| "first_empty_label i (part # parts) = (if part = '''' then Some (i + 2) else first_empty_label (i + 1) parts)"

fun wildcard_error :: "nat \<Rightarrow> nat \<Rightarrow> string list \<Rightarrow> invalid_reason option" where
  "wildcard_error n i [] = None"
| "wildcard_error n i (part # parts) =
     (if CHR ''+'' \<in> set part \<and> part \<noteq> complexWildcard then Some (PlusMustOccupyLabel (i + 1))
      else if CHR ''+'' \<in> set part \<and> i \<noteq> 0 then Some PlusOnlyInFirstLabel
      else if CHR ''+'' \<in> set part \<and> n = 1 then Some PlusMustBeFollowed
      else if CHR ''*'' \<in> set part \<and> part \<noteq> wildcard then Some (StarMustOccupyLabel (i + 1))
      else wildcard_error n (i + 1) parts)"

definition ValidAndSplitDomain :: "string \<Rightarrow> ErrInvalidDomain + string list" where
  "ValidAndSplitDomain domain =
     (if domain = '''' then Inl (invalidDomainError domain DomainIsEmpty)
      else if last domain = domainStep then Inl (invalidDomainError domain TrailingDot)
      else if IsSpace (hd domain) then Inl (invalidDomainError domain LeadingWhitespace)
      else if IsSpace (last domain) then Inl (invalidDomainError domain TrailingWhitespace)
      else
        (let parts = Split (ToLower domain) domainStep in
         if length parts = 1 \<and> parts ! 0 = '''' then Inl (invalidDomainError domain DomainIsEmpty)
         else
           (case (if length parts = 1 then None else first_empty_label 0 (tl parts)) of
              Some i \<Rightarrow> Inl (invalidDomainError domain (LabelIsEmpty i))
            | None \<Rightarrow>
                (case wildcard_error (length parts) 0 parts of
                   Some r \<Rightarrow> Inl (invalidDomainError domain r)
                 | None \<Rightarrow> Inr parts))))"

definition joinDomain :: "string list \<Rightarrow> string" where
  "joinDomain items = Join items domainStep"

section \<open>The trie\<close>

record 'a DomainTrie = root :: "'a Node"

definition DomainTrie_New :: "'a \<Rightarrow> 'a DomainTrie" where
  "DomainTrie_New z = \<lparr>root = newNode z\<rparr>"

fun insert_path :: "'a \<Rightarrow> string list \<Rightarrow> 'a \<Rightarrow> 'a Node \<Rightarrow> 'a Node" where
  "insert_path z [] v node = setData node v"
| "insert_path z (part # parts) v node =
     (case getOrNewChild z node part of (child, node) \<Rightarrow>
        writeChild node part (insert_path z parts v child))"

definition trie_insert :: "'a \<Rightarrow> string list \<Rightarrow> 'a \<Rightarrow> 'a DomainTrie \<Rightarrow> 'a DomainTrie" where
  "trie_insert z parts v t = t\<lparr>root := insert_path z (rev parts) v (root t)\<rparr>"

definition DomainTrie_Insert :: "'a \<Rightarrow> string \<Rightarrow> 'a \<Rightarrow> 'a DomainTrie \<Rightarrow> ErrInvalidDomain option \<times> 'a DomainTrie" where
  "DomainTrie_Insert z domain v t =
     (case ValidAndSplitDomain domain of
        Inl err \<Rightarrow> (Some err, t)
      | Inr parts \<Rightarrow>
          if parts ! 0 = complexWildcard
          then (None, trie_insert z (parts[0 := dotWildcard]) v (trie_insert z (tl parts) v t))
          else (None, trie_insert z parts v t))"

function search :: "'a Node \<Rightarrow> string list \<Rightarrow> 'a Node option" where
  "search node parts =
     (if length parts = 0 then Some node
      else
        (let static = (case getChild node (last parts) of
                         None \<Rightarrow> None | Some c \<Rightarrow> search c (butlast parts)) in
         if \<not> isEmpty static then static
         else
           (let wild = (case getChild node wildcard of
                          None \<Rightarrow> None | Some c \<Rightarrow> search c (butlast parts)) in
            if \<not> isEmpty wild then wild else getChild node dotWildcard)))"
  by pat_completeness auto
termination by (relation "measure (\<lambda>(node, parts). length parts)") auto

declare search.simps [simp del]

definition DomainTrie_Search :: "string \<Rightarrow> 'a DomainTrie \<Rightarrow> 'a Node option" where
  "DomainTrie_Search domain t =
     (case ValidAndSplitDomain domain of
        Inl err \<Rightarrow> None
      | Inr parts \<Rightarrow>
          if parts ! 0 = '''' then None
          else (let n = search (root t) parts in if isEmpty n then None else n))"

definition DomainTrie_Optimize :: "'a DomainTrie \<Rightarrow> 'a DomainTrie" where
  "DomainTrie_Optimize t = t\<lparr>root := optimize (root t)\<rparr>"

definition DomainTrie_IsEmpty :: "'a DomainTrie option \<Rightarrow> bool" where
  "DomainTrie_IsEmpty t = (case t of None \<Rightarrow> True | Some t \<Rightarrow> length (getChildren (root t)) = 0)"

type_synonym ('a, 's) visitor = "string \<Rightarrow> 'a \<Rightarrow> 's \<Rightarrow> bool \<times> 's"

lemma size_getChildren: "size_list (size_prod (\<lambda>x. 0) size) (getChildren n) < size n + 1"
  by (cases n rule: getChildren.cases) (auto split: option.splits)

function recursion :: "string list \<Rightarrow> 'a Node \<Rightarrow> ('a, 's) visitor \<Rightarrow> 's \<Rightarrow> bool \<times> 's"
  and recursion_children :: "string list \<Rightarrow> (string \<times> 'a Node) list \<Rightarrow> ('a, 's) visitor \<Rightarrow> 's \<Rightarrow> bool \<times> 's" where
  "recursion items node fn s = recursion_children items (getChildren node) fn s"
| "recursion_children items [] fn s = (True, s)"
| "recursion_children items ((key, child) # kids) fn s =
     (let newItems = key # items;
          (go, s) = (if \<not> isEmpty (Some child) then fn (joinDomain newItems) (data child) s else (True, s))
      in if \<not> go then (False, s)
         else (case recursion newItems child fn s of
                 (go, s) \<Rightarrow> if \<not> go then (False, s) else recursion_children items kids fn s))"
  by pat_completeness auto
termination
  by (relation "measure (\<lambda>x. case x of
        Inl (items, node, fn, s) \<Rightarrow> size node + 1
      | Inr (items, kids, fn, s) \<Rightarrow> size_list (size_prod (\<lambda>x. 0) size) kids)")
    (use size_getChildren in auto)

declare recursion.simps [simp del]

text \<open>
  The result of \<open>recursion\<close> on the subtree of a first label is not looked at: a visitor that
  returns false there does not end the iteration.
\<close>

fun foreach_children :: "(string \<times> 'a Node) list \<Rightarrow> ('a, 's) visitor \<Rightarrow> 's \<Rightarrow> 's" where
  "foreach_children [] fn s = s"
| "foreach_children ((key, child) # kids) fn s =
     (let s = snd (recursion [key] child fn s) in
      if \<not> isEmpty (Some child) then
        (case fn (joinDomain [key]) (data child) s of
           (go, s) \<Rightarrow> if \<not> go then s else foreach_children kids fn s)
      else foreach_children kids fn s)"

definition DomainTrie_Foreach :: "('a, 's) visitor \<Rightarrow> 'a DomainTrie \<Rightarrow> 's \<Rightarrow> 's" where
  "DomainTrie_Foreach fn t s = foreach_children (getChildren (root t)) fn s"
end
