(* ===== verification/Domain_Trie_Proofs.thy ===== *)
theory Domain_Trie_Proofs
  imports Domain_Trie
begin

text \<open>
  What the domain trie does, independent of the shape of its nodes. \<open>tmap\<close> reads a node as a map
  from paths to data, insertion is an update of this map, and \<open>optimize\<close> leaves it alone. Search
  is the function \<open>best\<close> on the map, and \<open>best\<close> returns the data of the most specific pattern that
  covers the domain. \<open>Foreach\<close> lists the map.
\<close>

section \<open>Nodes as maps\<close>

lemma getChild_addChild [simp]:
  "getChild (addChild n s c) s' = (if s' = s then Some c else getChild n s')"
  by (cases "(n, s, c)" rule: addChild.cases) (auto simp: update_conv')

lemma getChild_writeChild [simp]:
  "getChild n s \<noteq> None \<Longrightarrow> getChild (writeChild n s c) s' = (if s' = s then Some c else getChild n s')"
  by (cases "(n, s, c)" rule: writeChild.cases) (auto simp: update_conv' split: option.splits if_splits)

lemma getChild_setData [simp]: "getChild (setData n v) s = getChild n s"
  by (cases "(n, s)" rule: getChild.cases) auto

lemma getChild_newNode [simp]: "getChild (newNode z) s = None"
  by (simp add: newNode_def)

lemma inited_simps [simp]:
  "inited (newNode z) = False"
  "inited (addChild n s c) = inited n"
  "inited (writeChild n s c) = inited n"
  "inited (setData n v) = True"
  "data (addChild n s c) = data n"
  "data (writeChild n s c) = data n"
  "data (setData n v) = v"
proof -
  show "inited (newNode z) = False" by (simp add: newNode_def)
  show "inited (addChild n s c) = inited n" "data (addChild n s c) = data n"
    by (cases "(n, s, c)" rule: addChild.cases; simp)+
  show "inited (writeChild n s c) = inited n" "data (writeChild n s c) = data n"
    by (cases "(n, s, c)" rule: writeChild.cases; simp)+
  show "inited (setData n v) = True" "data (setData n v) = v" by (cases n; simp)+
qed

text \<open>What a node pointer stands for: the data, if there is any.\<close>

definition value_of :: "'a Node option \<Rightarrow> 'a option" where
  "value_of n = (case n of None \<Rightarrow> None | Some n \<Rightarrow> if inited n then Some (data n) else None)"

lemma value_of_simps [simp]:
  "value_of None = None"
  "value_of (Some n) = (if inited n then Some (data n) else None)"
  by (simp_all add: value_of_def)

lemma isEmpty_iff: "isEmpty n \<longleftrightarrow> value_of n = None"
  by (auto simp: isEmpty_def value_of_def split: option.splits)

fun tmap :: "'a Node \<Rightarrow> string list \<Rightarrow> 'a option" where
  "tmap n [] = value_of (Some n)"
| "tmap n (p # ps) = (case getChild n p of None \<Rightarrow> None | Some c \<Rightarrow> tmap c ps)"

lemma tmap_newNode [simp]: "tmap (newNode z) = Map.empty"
proof
  show "tmap (newNode z) ps = None" for ps by (cases ps) simp_all
qed

lemma tmap_insert_path: "tmap (insert_path z ps v n) = (tmap n)(ps \<mapsto> v)"
proof (induction ps arbitrary: n)
  case Nil
  show ?case
  proof
    show "tmap (insert_path z [] v n) q = ((tmap n)([] \<mapsto> v)) q" for q
      by (cases q) simp_all
  qed
next
  case (Cons p ps)
  show ?case
  proof
    show "tmap (insert_path z (p # ps) v n) q = ((tmap n)(p # ps \<mapsto> v)) q" for q
      using Cons by (cases q; cases "getChild n p") (auto simp: getOrNewChild_def Let_def)
  qed
qed

section \<open>Search on the map\<close>

fun best :: "(string list \<Rightarrow> 'a option) \<Rightarrow> string list \<Rightarrow> 'a option" where
  "best m [] = m []"
| "best m (x # xs) =
     (case best (\<lambda>p. m (x # p)) xs of
        Some v \<Rightarrow> Some v
      | None \<Rightarrow> (case best (\<lambda>p. m (wildcard # p)) xs of Some v \<Rightarrow> Some v | None \<Rightarrow> m [dotWildcard]))"

lemma best_empty [simp]: "best (\<lambda>_. None) xs = None"
  by (induction xs) simp_all

lemma value_of_search: "value_of (search n parts) = best (tmap n) (rev parts)"
proof (induction n parts rule: search.induct)
  case (1 n parts)
  show ?case
  proof (cases "parts = []")
    case True
    then show ?thesis by (simp add: search.simps)
  next
    case False
    then obtain qs x where parts: "parts = qs @ [x]" by (metis rev_exhaust)
    have sub: "value_of (case getChild n s of None \<Rightarrow> None | Some c \<Rightarrow> search c qs)
        = best (\<lambda>p. tmap n (s # p)) (rev qs)"
      if "\<And>c. getChild n s = Some c \<Longrightarrow> value_of (search c qs) = best (tmap c) (rev qs)" for s
      using that by (cases "getChild n s") simp_all
    have x: "value_of (case getChild n x of None \<Rightarrow> None | Some c \<Rightarrow> search c qs)
        = best (\<lambda>p. tmap n (x # p)) (rev qs)"
      by (rule sub) (use 1(1) parts in simp)
    have w: "value_of (case getChild n wildcard of None \<Rightarrow> None | Some c \<Rightarrow> search c qs)
        = best (\<lambda>p. tmap n (wildcard # p)) (rev qs)"
      if "best (\<lambda>p. tmap n (x # p)) (rev qs) = None"
    proof (rule sub)
      show "value_of (search c qs) = best (tmap c) (rev qs)" if "getChild n wildcard = Some c" for c
        using 1(2) [OF _ refl _ that, unfolded parts butlast_snoc last_snoc] x
          \<open>best (\<lambda>p. tmap n (x # p)) (rev qs) = None\<close>
        by (simp add: isEmpty_iff)
    qed
    have d: "value_of (getChild n dotWildcard) = tmap n [dotWildcard]"
      by (cases "getChild n dotWildcard") simp_all
    show ?thesis
      using parts x w d by (subst search.simps) (auto simp: isEmpty_iff Let_def split: option.splits)
  qed
qed

text \<open>
  A pattern covers a domain when its labels do, from the right: a star covers one label, a leading
  empty label covers the one or more labels that remain.
\<close>

fun pmatch :: "string list \<Rightarrow> string list \<Rightarrow> bool" where
  "pmatch [] xs = (xs = [])"
| "pmatch (p # ps) [] = False"
| "pmatch (p # ps) (x # xs) = (p = dotWildcard \<and> ps = [] \<or> (p = x \<or> p = wildcard) \<and> pmatch ps xs)"

definition rank :: "string \<Rightarrow> nat" where
  "rank p = (if p = dotWildcard then 2 else if p = wildcard then 1 else 0)"

fun outranks :: "string list \<Rightarrow> string list \<Rightarrow> bool" where
  "outranks (p # ps) (r # rs) = (if p = r then outranks ps rs else rank p < rank r)"
| "outranks _ _ = False"

lemma best_None: "[] \<notin> set xs \<Longrightarrow> best m xs = None \<longleftrightarrow> (\<forall>p. m p \<noteq> None \<longrightarrow> \<not> pmatch p xs)"
proof (induction xs arbitrary: m)
  case Nil
  then show ?case by (metis best.simps(1) pmatch.simps(1,2) neq_Nil_conv)
next
  case (Cons x xs)
  have "(\<forall>p. m p \<noteq> None \<longrightarrow> \<not> pmatch p (x # xs)) \<longleftrightarrow>
      m [dotWildcard] = None \<and> (\<forall>p. m (x # p) \<noteq> None \<longrightarrow> \<not> pmatch p xs)
      \<and> (\<forall>p. m (wildcard # p) \<noteq> None \<longrightarrow> \<not> pmatch p xs)"
    (is "?l = ?r")
  proof
    show "?l \<Longrightarrow> ?r" by auto
    assume r: ?r
    show ?l
    proof (intro allI impI)
      show "\<not> pmatch p (x # xs)" if "m p \<noteq> None" for p using r that by (cases p) auto
    qed
  qed
  moreover have "best m (x # xs) = None \<longleftrightarrow> m [dotWildcard] = None
      \<and> best (\<lambda>p. m (x # p)) xs = None \<and> best (\<lambda>p. m (wildcard # p)) xs = None"
    by (auto split: option.splits)
  ultimately show ?case using Cons by (simp del: best.simps)
qed

lemma best_Some:
  "[] \<notin> set xs \<Longrightarrow> best m xs = Some v \<Longrightarrow>
     \<exists>p. m p = Some v \<and> pmatch p xs \<and> (\<forall>r. m r \<noteq> None \<longrightarrow> pmatch r xs \<longrightarrow> r = p \<or> outranks p r)"
proof (induction xs arbitrary: m)
  case Nil
  have "r = []" if "pmatch r []" for r using that by (cases r) simp_all
  with Nil show ?case by (intro exI [of _ "[]"]) simp
next
  case (Cons x xs)
  have x: "x \<noteq> dotWildcard" "[] \<notin> set xs" using Cons.prems by (auto simp: dotWildcard_def)
  have *: "\<exists>p. m p = Some v \<and> pmatch p (x # xs)
      \<and> (\<forall>r. m r \<noteq> None \<longrightarrow> pmatch r (x # xs) \<longrightarrow> r = p \<or> outranks p r)"
    if b: "best (\<lambda>p. m (s # p)) xs = Some v" and s: "s = x \<or> s = wildcard"
      and out: "\<And>r. m r \<noteq> None \<Longrightarrow> pmatch r (x # xs) \<Longrightarrow> hd r \<noteq> s \<Longrightarrow> rank s < rank (hd r)" for s
  proof -
    from Cons.IH [OF x(2) b] obtain p where p: "m (s # p) = Some v" "pmatch p xs"
      "\<And>r. m (s # r) \<noteq> None \<Longrightarrow> pmatch r xs \<Longrightarrow> r = p \<or> outranks p r" by blast
    have sd: "s \<noteq> dotWildcard" using s x by (auto simp: wildcards)
    have "r = s # p \<or> outranks (s # p) r" if r: "m r \<noteq> None" "pmatch r (x # xs)" for r
    proof -
      from r(2) obtain t ts where t: "r = t # ts" by (cases r) auto
      show ?thesis
      proof (cases "t = s")
        case True
        then have "pmatch ts xs" using r(2) sd unfolding t by simp
        with p(3) [of ts] r(1) True show ?thesis unfolding t by simp
      next
        case False
        with out [OF r] show ?thesis unfolding t by simp
      qed
    qed
    with p s show ?thesis by (intro exI [of _ "s # p"]) auto
  qed
  show ?case
  proof (cases "best (\<lambda>p. m (x # p)) xs")
    case (Some w)
    with Cons.prems have "best (\<lambda>p. m (x # p)) xs = Some v" by simp
    then show ?thesis
    proof (rule *)
      show "rank x < rank (hd r)" if "pmatch r (x # xs)" "hd r \<noteq> x" for r
        using that x(1) by (cases r) (auto simp: rank_def wildcards)
    qed simp
  next
    case n1: None
    then have no_x: "\<not> pmatch r xs" if "m (x # r) \<noteq> None" for r
      using that best_None [OF x(2), of "\<lambda>p. m (x # p)"] by simp
    show ?thesis
    proof (cases "best (\<lambda>p. m (wildcard # p)) xs")
      case (Some w)
      with Cons.prems n1 have "best (\<lambda>p. m (wildcard # p)) xs = Some v" by simp
      then show ?thesis
      proof (rule *)
        show "rank wildcard < rank (hd r)" if "m r \<noteq> None" "pmatch r (x # xs)" "hd r \<noteq> wildcard" for r
          using that no_x x(1) by (cases r) (auto simp: rank_def wildcards)
      qed simp
    next
      case n2: None
      then have no_w: "\<not> pmatch r xs" if "m (wildcard # r) \<noteq> None" for r
        using that best_None [OF x(2), of "\<lambda>p. m (wildcard # p)"] by simp
      have "r = [dotWildcard]" if "m r \<noteq> None" "pmatch r (x # xs)" for r
        using that no_x no_w by (cases r) auto
      with n1 n2 Cons.prems show ?thesis by (intro exI [of _ "[dotWildcard]"]) auto
    qed
  qed
qed

section \<open>Well-formed nodes and \<open>optimize\<close>\<close>

function node_wf :: "'a Node \<Rightarrow> bool" where
  "node_wf (Node m cn cs i d) =
     (case m of
        None \<Rightarrow> (case cn of None \<Rightarrow> True | Some c \<Rightarrow> node_wf c)
      | Some kids \<Rightarrow> cn = None \<and> distinct (map fst kids) \<and> (\<forall>kc\<in>set kids. node_wf (snd kc)))"
  by pat_completeness auto
termination
  by (relation "measure size") (auto simp: size_child_less less_SucI trans_less_add1)

lemma node_wf_newNode [simp]: "node_wf (newNode z)"
  by (simp add: newNode_def)

lemma node_wf_setData [simp]: "node_wf (setData n v) = node_wf n"
  by (cases n) simp

lemma set_update_subset: "kc \<in> set (AList.update k v al) \<Longrightarrow> kc = (k, v) \<or> kc \<in> set al"
  by (induction al) (auto split: if_splits)

lemma node_wf_addChild: "node_wf n \<Longrightarrow> node_wf c \<Longrightarrow> node_wf (addChild n s c)"
  by (cases "(n, s, c)" rule: addChild.cases)
    (auto simp: distinct_update dest!: set_update_subset)

lemma node_wf_writeChild: "node_wf n \<Longrightarrow> node_wf c \<Longrightarrow> node_wf (writeChild n s c)"
  by (cases "(n, s, c)" rule: writeChild.cases)
    (auto simp: distinct_update dest!: set_update_subset)

lemma node_wf_getChild: "node_wf n \<Longrightarrow> getChild n s = Some c \<Longrightarrow> node_wf c"
  by (cases "(n, s)" rule: getChild.cases)
    (auto split: option.splits if_splits dest!: map_of_SomeD)

lemma node_wf_insert_path: "node_wf n \<Longrightarrow> node_wf (insert_path z ps v n)"
proof (induction ps arbitrary: n)
  case (Cons p ps)
  show ?case
  proof (cases "getChild n p")
    case None
    with Cons show ?thesis
      by (simp add: getOrNewChild_def Let_def node_wf_writeChild node_wf_addChild)
  next
    case (Some c)
    with Cons show ?thesis
      by (simp add: getOrNewChild_def node_wf_writeChild node_wf_getChild)
  qed
qed simp

lemma strClone_eq [simp]: "strClone s = s"
  by (simp add: strClone_def)

lemma map_of_optimized:
  "map_of (map (\<lambda>kc. (fst kc, f (snd kc))) kids) s = map_option f (map_of kids s)"
  by (induction kids) auto

lemma optimize_unfold:
  assumes "node_wf (Node m cn cs i d)"
  shows "optimize (Node m cn cs i d) =
    (case m of
       None \<Rightarrow> Node None (map_option optimize cn) cs i d
     | Some [] \<Rightarrow> Node None None cs i d
     | Some [(k, c)] \<Rightarrow> Node None (Some (optimize c)) k i d
     | Some kids \<Rightarrow> Node (Some (map (\<lambda>kc. (fst kc, optimize (snd kc))) kids)) None cs i d)"
  using assms
  by (subst optimize.simps) (auto simp: optimize.simps [of None] Let_def split: option.splits list.splits)

lemma getChild_optimize: "node_wf n \<Longrightarrow> getChild (optimize n) s = map_option optimize (getChild n s)"
  by (cases n) (auto simp: optimize_unfold map_of_optimized [of optimize, simplified] split: option.splits list.splits)

lemma optimize_keeps: "node_wf n \<Longrightarrow> inited (optimize n) = inited n \<and> data (optimize n) = data n"
  by (cases n) (auto simp: optimize_unfold split: option.splits list.splits)

lemma tmap_optimize: "node_wf n \<Longrightarrow> tmap (optimize n) ps = tmap n ps"
proof (induction ps arbitrary: n)
  case Nil
  then show ?case by (simp add: optimize_keeps)
next
  case (Cons p ps)
  then show ?case
    by (cases "getChild n p") (auto simp: getChild_optimize dest: node_wf_getChild)
qed

lemma node_wf_optimize: "node_wf n \<Longrightarrow> node_wf (optimize n)"
proof (induction n rule: node_wf.induct)
  case (1 m cn cs i d)
  show ?case
  proof (cases m)
    case None
    with 1 show ?thesis by (auto simp: optimize_unfold split: option.splits)
  next
    case (Some kids)
    have "node_wf (optimize (snd kc))" if "kc \<in> set kids" for kc
      using 1(2) [OF Some that] 1(3) Some that by auto
    moreover have "map fst (map (\<lambda>kc. (fst kc, optimize (snd kc))) kids) = map fst kids"
      by simp
    moreover have "distinct (map fst kids)" using 1(3) Some by simp
    ultimately have "node_wf (Node (Some (map (\<lambda>kc. (fst kc, optimize (snd kc))) kids)) None cs i d)"
      by (auto simp del: map_map)
    note many = this
    consider "kids = []" | k c where "kids = [(k, c)]" | a b r where "kids = a # b # r"
      by (metis list.exhaust surj_pair)
    then show ?thesis
    proof cases
      case 3
      then have "optimize (Node m cn cs i d)
          = Node (Some (map (\<lambda>kc. (fst kc, optimize (snd kc))) kids)) None cs i d"
        using optimize_unfold [OF 1(3)] Some by (cases a) simp
      with many show ?thesis by simp
    qed (use optimize_unfold [OF 1(3)] Some many in auto)
  qed
qed

section \<open>Valid domains\<close>

definition labels_ok :: "string list \<Rightarrow> bool" where
  "labels_ok parts \<longleftrightarrow> parts \<noteq> [] \<and> '''' \<notin> set (tl parts) \<and> parts \<noteq> [''''] \<and> parts \<noteq> [complexWildcard]
     \<and> (\<forall>p\<in>set (tl parts). CHR ''+'' \<notin> set p)
     \<and> (CHR ''+'' \<in> set (hd parts) \<longrightarrow> hd parts = complexWildcard)
     \<and> (\<forall>p\<in>set parts. CHR ''*'' \<in> set p \<longrightarrow> p = wildcard)"

lemma first_empty_label_None: "first_empty_label i ps = None \<longleftrightarrow> '''' \<notin> set ps"
  by (induction ps arbitrary: i) auto

lemma wildcard_error_None:
  "0 < i \<Longrightarrow> wildcard_error n i ps = None
     \<longleftrightarrow> (\<forall>p\<in>set ps. CHR ''+'' \<notin> set p \<and> (CHR ''*'' \<in> set p \<longrightarrow> p = wildcard))"
  by (induction ps arbitrary: i) auto

lemma valid_iff:
  "ValidAndSplitDomain d = Inr parts \<longleftrightarrow>
     d \<noteq> '''' \<and> last d \<noteq> domainStep \<and> \<not> IsSpace (hd d) \<and> \<not> IsSpace (last d)
     \<and> parts = Split (ToLower d) domainStep \<and> labels_ok parts"
proof -
  obtain p ps where s: "Split (ToLower d) domainStep = p # ps"
    by (metis Split_not_Nil neq_Nil_conv)
  have w: "wildcard_error (length (p # ps)) 0 (p # ps) = None \<longleftrightarrow>
      (\<forall>p\<in>set ps. CHR ''+'' \<notin> set p \<and> (CHR ''*'' \<in> set p \<longrightarrow> p = wildcard))
      \<and> (CHR ''+'' \<in> set p \<longrightarrow> p = complexWildcard \<and> ps \<noteq> []) \<and> (CHR ''*'' \<in> set p \<longrightarrow> p = wildcard)"
    by (auto simp: wildcard_error_None)
  define F W where "F = first_empty_label 0 (tl (p # ps))" and "W = wildcard_error (length (p # ps)) 0 (p # ps)"
  define B where "B = (if length (p # ps) = 1 \<and> (p # ps) ! 0 = '''' then Inl (invalidDomainError d DomainIsEmpty)
     else (case (if length (p # ps) = 1 then None else F) of
              Some i \<Rightarrow> Inl (invalidDomainError d (LabelIsEmpty i))
            | None \<Rightarrow> (case W of Some r \<Rightarrow> Inl (invalidDomainError d r) | None \<Rightarrow> Inr (p # ps))))"
  have F: "F = None \<longleftrightarrow> '''' \<notin> set ps" by (simp add: F_def first_empty_label_None)
  have "B = Inr parts \<longleftrightarrow> parts = p # ps \<and> \<not> (ps = [] \<and> p = '''') \<and> F = None \<and> W = None"
    unfolding B_def by (cases ps; cases F; cases W) (auto simp: F_def)
  moreover have "p = complexWildcard \<Longrightarrow> CHR ''+'' \<in> set p" by (simp add: complexWildcard_def)
  then have "labels_ok (p # ps) \<longleftrightarrow> \<not> (ps = [] \<and> p = '''') \<and> F = None \<and> W = None"
    unfolding F unfolding W_def w labels_ok_def by auto
  ultimately have "B = Inr parts \<longleftrightarrow> parts = p # ps \<and> labels_ok (p # ps)" by simp
  moreover have "ValidAndSplitDomain d =
     (if d = '''' then Inl (invalidDomainError d DomainIsEmpty)
      else if last d = domainStep then Inl (invalidDomainError d TrailingDot)
      else if IsSpace (hd d) then Inl (invalidDomainError d LeadingWhitespace)
      else if IsSpace (last d) then Inl (invalidDomainError d TrailingWhitespace) else B)"
    unfolding ValidAndSplitDomain_def Let_def s B_def F_def W_def by (rule refl)
  ultimately show ?thesis unfolding s by simp blast
qed

lemma labels_no_step: "p \<in> set (Split s domainStep) \<Longrightarrow> CHR ''.'' \<notin> set p"
  using Split_no_sep by (force simp: domainStep_def)

lemma valid_joins: "ValidAndSplitDomain d = Inr parts \<Longrightarrow> joinDomain parts = ToLower d"
  by (auto simp: valid_iff joinDomain_def Join_Split)

section \<open>Sequences of calls\<close>

datatype 'a trie_op = TInsert string 'a | TOptimize

fun trie_step :: "'a \<Rightarrow> 'a trie_op \<Rightarrow> 'a DomainTrie \<Rightarrow> 'a DomainTrie" where
  "trie_step z (TInsert d v) t = snd (DomainTrie_Insert z d v t)"
| "trie_step z TOptimize t = DomainTrie_Optimize t"

definition trie_run :: "'a \<Rightarrow> 'a trie_op list \<Rightarrow> 'a DomainTrie" where
  "trie_run z ops = fold (trie_step z) ops (DomainTrie_New z)"

text \<open>The paths that the insertion of a pattern writes, and the map that a sequence leaves.\<close>

definition expand :: "string list \<Rightarrow> string list list" where
  "expand parts =
     (if hd parts = complexWildcard then [rev (tl parts), rev (dotWildcard # tl parts)] else [rev parts])"

fun entries_step :: "'a trie_op \<Rightarrow> (string list \<Rightarrow> 'a option) \<Rightarrow> string list \<Rightarrow> 'a option" where
  "entries_step (TInsert d v) m =
     (case ValidAndSplitDomain d of
        Inl e \<Rightarrow> m | Inr parts \<Rightarrow> fold (\<lambda>p m. m(p \<mapsto> v)) (expand parts) m)"
| "entries_step TOptimize m = m"

definition entries :: "'a trie_op list \<Rightarrow> string list \<Rightarrow> 'a option" where
  "entries ops = fold entries_step ops Map.empty"

lemma valid_not_Nil: "ValidAndSplitDomain d = Inr parts \<Longrightarrow> parts \<noteq> []"
  by (auto simp: valid_iff labels_ok_def)

lemma trie_step_tmap:
  assumes "node_wf (root t)"
  shows "node_wf (root (trie_step z x t)) \<and> tmap (root (trie_step z x t)) = entries_step x (tmap (root t))"
proof (cases x)
  case (TInsert d v)
  show ?thesis
  proof (cases "ValidAndSplitDomain d")
    case (Inl e)
    with assms TInsert show ?thesis by (simp add: DomainTrie_Insert_def)
  next
    case (Inr parts)
    from valid_not_Nil [OF this] obtain p ps where "parts = p # ps" by (cases parts) auto
    with assms TInsert Inr show ?thesis
      by (simp add: DomainTrie_Insert_def trie_insert_def expand_def tmap_insert_path node_wf_insert_path)
  qed
next
  case TOptimize
  with assms show ?thesis
    by (auto simp: DomainTrie_Optimize_def tmap_optimize node_wf_optimize)
qed

lemma trie_run_tmap: "node_wf (root (trie_run z ops)) \<and> tmap (root (trie_run z ops)) = entries ops"
proof (induction ops rule: rev_induct)
  case Nil
  then show ?case by (simp add: trie_run_def entries_def DomainTrie_New_def)
next
  case (snoc x ops)
  then show ?case
    using trie_step_tmap [of "trie_run z ops" z x] by (simp add: trie_run_def entries_def)
qed

lemma Search_best:
  "map_option data (DomainTrie_Search d t) =
     (case ValidAndSplitDomain d of
        Inl e \<Rightarrow> None | Inr parts \<Rightarrow> if parts ! 0 = '''' then None else best (tmap (root t)) (rev parts))"
proof (cases "ValidAndSplitDomain d")
  case (Inr parts)
  have "map_option data (if isEmpty n then None else n) = value_of n" for n :: "'a Node option"
    by (cases n) (auto simp: isEmpty_def)
  with Inr show ?thesis by (simp add: DomainTrie_Search_def value_of_search Let_def)
qed (simp add: DomainTrie_Search_def)

lemma entries_dom:
  "entries ops p \<noteq> None \<longleftrightarrow>
     (\<exists>d v parts. TInsert d v \<in> set ops \<and> ValidAndSplitDomain d = Inr parts \<and> p \<in> set (expand parts))"
proof (induction ops rule: rev_induct)
  case Nil
  then show ?case by (simp add: entries_def)
next
  case (snoc x ops)
  have upd: "fold (\<lambda>p m. m(p \<mapsto> v)) qs m p \<noteq> None \<longleftrightarrow> p \<in> set qs \<or> m p \<noteq> None" for qs v m
    by (induction qs arbitrary: m) auto
  have "entries (ops @ [x]) = entries_step x (entries ops)" by (simp add: entries_def)
  then have "entries (ops @ [x]) p \<noteq> None \<longleftrightarrow> entries ops p \<noteq> None
      \<or> (\<exists>d v parts. x = TInsert d v \<and> ValidAndSplitDomain d = Inr parts \<and> p \<in> set (expand parts))"
    by (cases x) (auto simp: upd [unfolded not_None_eq] split: sum.splits)
  with snoc show ?case by fastforce
qed

section \<open>Patterns and domains\<close>

text \<open>
  What a pattern means: \<open>+.x\<close> is \<open>x\<close> and everything below it, \<open>.x\<close> is everything below \<open>x\<close>, and a
  star is one label.
\<close>

definition label_match :: "string list \<Rightarrow> string list \<Rightarrow> bool" where
  "label_match = list_all2 (\<lambda>p l. p = l \<or> p = wildcard)"

definition covers :: "string list \<Rightarrow> string list \<Rightarrow> bool" where
  "covers pat labels =
     (if hd pat = complexWildcard then (\<exists>pre suf. labels = pre @ suf \<and> label_match (tl pat) suf)
      else if hd pat = dotWildcard then (\<exists>pre suf. labels = pre @ suf \<and> pre \<noteq> [] \<and> label_match (tl pat) suf)
      else label_match pat labels)"

lemma pmatch_plain:
  "dotWildcard \<notin> set ps \<Longrightarrow> pmatch ps xs \<longleftrightarrow> list_all2 (\<lambda>p l. p = l \<or> p = wildcard) ps xs"
  by (induction ps xs rule: pmatch.induct) auto

lemma pmatch_dot:
  "dotWildcard \<notin> set ps \<Longrightarrow> pmatch (ps @ [dotWildcard]) xs \<longleftrightarrow>
     (\<exists>suf pre. xs = suf @ pre \<and> pre \<noteq> [] \<and> list_all2 (\<lambda>p l. p = l \<or> p = wildcard) ps suf)"
proof (induction ps arbitrary: xs)
  case Nil
  then show ?case by (cases xs) auto
next
  case (Cons p ps)
  then show ?case
  proof (cases xs)
    case Nil
    then show ?thesis by simp
  next
    case (Cons x ys)
    let ?R = "\<lambda>p l. p = l \<or> p = wildcard"
    have "(\<exists>suf pre. x # ys = suf @ pre \<and> pre \<noteq> [] \<and> list_all2 ?R (p # ps) suf)
        \<longleftrightarrow> ?R p x \<and> (\<exists>suf pre. ys = suf @ pre \<and> pre \<noteq> [] \<and> list_all2 ?R ps suf)"
    proof
      assume "\<exists>suf pre. x # ys = suf @ pre \<and> pre \<noteq> [] \<and> list_all2 ?R (p # ps) suf"
      then show "?R p x \<and> (\<exists>suf pre. ys = suf @ pre \<and> pre \<noteq> [] \<and> list_all2 ?R ps suf)"
      proof (elim exE conjE)
        fix suf pre
        assume a: "x # ys = suf @ pre" "pre \<noteq> []" "list_all2 ?R (p # ps) suf"
        from a(3) obtain y zs where "suf = y # zs" "?R p y" "list_all2 ?R ps zs"
          by (auto simp: list_all2_Cons1)
        with a(1,2) show ?thesis by (intro conjI exI [of _ zs] exI [of _ pre]) simp_all
      qed
    next
      assume "?R p x \<and> (\<exists>suf pre. ys = suf @ pre \<and> pre \<noteq> [] \<and> list_all2 ?R ps suf)"
      then obtain suf pre where "?R p x" "ys = suf @ pre" "pre \<noteq> []" "list_all2 ?R ps suf" by blast
      then show "\<exists>suf pre. x # ys = suf @ pre \<and> pre \<noteq> [] \<and> list_all2 ?R (p # ps) suf"
        by (intro exI [of _ "x # suf"] exI [of _ pre]) simp
    qed
    with Cons.IH [of ys] Cons.prems Cons show ?thesis by simp
  qed
qed

lemma label_match_rev: "label_match ps ls \<longleftrightarrow> list_all2 (\<lambda>p l. p = l \<or> p = wildcard) (rev ps) (rev ls)"
  by (simp add: label_match_def)

lemma covers_expand:
  assumes "labels_ok pat"
  shows "covers pat labels \<longleftrightarrow> (\<exists>p\<in>set (expand pat). pmatch p (rev labels))"
proof -
  obtain q qs where pat: "pat = q # qs" using assms by (cases pat) (auto simp: labels_ok_def)
  have qs: "dotWildcard \<notin> set (rev qs)" using assms by (auto simp: labels_ok_def pat dotWildcard_def)
  have dot: "pmatch (rev qs @ [dotWildcard]) (rev labels) \<longleftrightarrow>
      (\<exists>pre suf. labels = pre @ suf \<and> pre \<noteq> [] \<and> label_match qs suf)"
    unfolding pmatch_dot [OF qs] label_match_rev
  proof (intro iffI; elim exE conjE)
    fix suf pre
    assume "rev labels = suf @ pre" "pre \<noteq> []" "list_all2 (\<lambda>p l. p = l \<or> p = wildcard) (rev qs) suf"
    then show "\<exists>pre suf. labels = pre @ suf \<and> pre \<noteq> []
        \<and> list_all2 (\<lambda>p l. p = l \<or> p = wildcard) (rev qs) (rev suf)"
      by (intro exI [of _ "rev pre"] exI [of _ "rev suf"]) (simp add: rev_swap)
  next
    fix pre suf
    assume "labels = pre @ suf" "pre \<noteq> []" "list_all2 (\<lambda>p l. p = l \<or> p = wildcard) (rev qs) (rev suf)"
    then show "\<exists>suf pre. rev labels = suf @ pre \<and> pre \<noteq> []
        \<and> list_all2 (\<lambda>p l. p = l \<or> p = wildcard) (rev qs) suf"
      by (intro exI [of _ "rev suf"] exI [of _ "rev pre"]) simp
  qed
  have plain: "pmatch (rev qs) (rev labels) \<longleftrightarrow> label_match qs labels"
    unfolding pmatch_plain [OF qs] label_match_rev ..
  consider "q = complexWildcard" | "q = dotWildcard" | "q \<noteq> complexWildcard" "q \<noteq> dotWildcard" by blast
  then show ?thesis
  proof cases
    case 1
    have "(\<exists>pre suf. labels = pre @ suf \<and> label_match qs suf) \<longleftrightarrow>
        label_match qs labels \<or> (\<exists>pre suf. labels = pre @ suf \<and> pre \<noteq> [] \<and> label_match qs suf)"
      by (metis append_Nil)
    with 1 plain dot show ?thesis by (simp add: covers_def expand_def pat)
  next
    case 2
    then have "q \<noteq> complexWildcard" by (simp add: wildcards)
    with 2 dot show ?thesis by (simp add: covers_def expand_def pat)
  next
    case 3
    with qs have "dotWildcard \<notin> set (rev (q # qs))" by simp
    from pmatch_plain [OF this] 3 show ?thesis
      by (simp add: covers_def expand_def pat label_match_rev)
  qed
qed
end
