(* ===== verification/Domain_Trie_Properties.thy ===== *)
theory Domain_Trie_Properties
  imports Domain_Trie_Proofs
begin

text \<open>
  The properties of the domain trie: which domains are found, which pattern wins, and that
  \<open>Foreach\<close> lists patterns from which the trie can be built again.
\<close>

section \<open>Membership and priority\<close>

lemma valid_labels_not_empty:
  "ValidAndSplitDomain d = Inr labels \<Longrightarrow> hd labels \<noteq> '''' \<Longrightarrow> [] \<notin> set (rev labels)"
proof -
  assume "ValidAndSplitDomain d = Inr labels" and "hd labels \<noteq> ''''"
  moreover from this(1) have "labels_ok labels" unfolding valid_iff by blast
  ultimately show ?thesis by (cases labels) (auto simp: labels_ok_def)
qed

lemma Search_entries:
  "map_option data (DomainTrie_Search d (trie_run z ops)) =
     (case ValidAndSplitDomain d of
        Inl e \<Rightarrow> None | Inr parts \<Rightarrow> if hd parts = '''' then None else best (entries ops) (rev parts))"
  using valid_not_Nil [of d]
  by (auto simp: Search_best trie_run_tmap hd_conv_nth split: sum.splits)

text \<open>
  C3: After any sequence of \<open>Insert\<close> and \<open>Optimize\<close> calls on a new trie, \<open>Search\<close> finds a domain
  exactly if the domain is valid, does not begin with a dot, and one of the accepted patterns
  covers it: \<open>+.x\<close> covers \<open>x\<close> and all domains below it, \<open>.x\<close> the domains below \<open>x\<close>, \<open>*\<close> one label.
  In particular the backtracking finds every match, and \<open>Optimize\<close> changes no answer.
\<close>
theorem domain_trie_membership:
  "DomainTrie_Search d (trie_run z ops) \<noteq> None \<longleftrightarrow>
     (\<exists>labels p v pat. ValidAndSplitDomain d = Inr labels \<and> hd labels \<noteq> '''' \<and>
        TInsert p v \<in> set ops \<and> ValidAndSplitDomain p = Inr pat \<and> covers pat labels)"
proof -
  have "DomainTrie_Search d (trie_run z ops) \<noteq> None \<longleftrightarrow>
      (\<exists>labels. ValidAndSplitDomain d = Inr labels \<and> hd labels \<noteq> '''' \<and> best (entries ops) (rev labels) \<noteq> None)"
    unfolding map_option_is_None [of data, symmetric] Search_entries by (auto split: sum.splits)
  moreover have "best (entries ops) (rev labels) \<noteq> None \<longleftrightarrow>
      (\<exists>p v pat. TInsert p v \<in> set ops \<and> ValidAndSplitDomain p = Inr pat \<and> covers pat labels)"
    if "ValidAndSplitDomain d = Inr labels" "hd labels \<noteq> ''''" for labels
  proof -
    have "best (entries ops) (rev labels) \<noteq> None \<longleftrightarrow> (\<exists>p. entries ops p \<noteq> None \<and> pmatch p (rev labels))"
      using best_None [OF valid_labels_not_empty [OF that], of "entries ops"] by auto
    also have "\<dots> \<longleftrightarrow> (\<exists>d v parts. TInsert d v \<in> set ops \<and> ValidAndSplitDomain d = Inr parts
        \<and> (\<exists>p\<in>set (expand parts). pmatch p (rev labels)))"
      unfolding entries_dom by blast
    also have "\<dots> \<longleftrightarrow> (\<exists>p v pat. TInsert p v \<in> set ops \<and> ValidAndSplitDomain p = Inr pat \<and> covers pat labels)"
      using covers_expand by (metis valid_iff)
    finally show ?thesis .
  qed
  ultimately show ?thesis by blast
qed

text \<open>
  C20: The data that \<open>Search\<close> returns is the one last stored for the most specific path that
  covers the domain. Paths are compared label by label from the right; a literal label comes
  before a star and a star before the leading dot. A pattern \<open>+.x\<close> stores the paths of \<open>x\<close> and \<open>.x\<close>.
\<close>
theorem domain_trie_most_specific:
  assumes "DomainTrie_Search d (trie_run z ops) = Some n"
  shows "\<exists>labels path. ValidAndSplitDomain d = Inr labels \<and> entries ops path = Some (data n)
    \<and> pmatch path (rev labels)
    \<and> (\<forall>r. entries ops r \<noteq> None \<longrightarrow> pmatch r (rev labels) \<longrightarrow> r = path \<or> outranks path r)"
proof -
  from assms Search_entries [of d z ops] obtain labels where l: "ValidAndSplitDomain d = Inr labels"
    "hd labels \<noteq> ''''" "best (entries ops) (rev labels) = Some (data n)"
    by (auto split: sum.splits if_splits)
  from best_Some [OF valid_labels_not_empty [OF l(1,2)] l(3)] l(1) show ?thesis by blast
qed

theorem domain_trie_most_specific_witness:
  "\<exists>n. DomainTrie_Search ''foo.Example.dev'' (trie_run 0 [TInsert ''+.dev'' (1::nat),
       TInsert ''*.example.dev'' 2, TOptimize, TInsert ''bar.example.dev'' 3]) = Some n \<and> data n = 2
   \<and> (\<exists>labels path. ValidAndSplitDomain ''foo.Example.dev'' = Inr labels
       \<and> entries [TInsert ''+.dev'' (1::nat), TInsert ''*.example.dev'' 2, TOptimize,
            TInsert ''bar.example.dev'' 3] path = Some (data n)
       \<and> pmatch path (rev labels)
       \<and> (\<forall>r. entries [TInsert ''+.dev'' (1::nat), TInsert ''*.example.dev'' 2, TOptimize,
            TInsert ''bar.example.dev'' 3] r \<noteq> None \<longrightarrow> pmatch r (rev labels) \<longrightarrow> r = path \<or> outranks path r))"
proof -
  let ?ops = "[TInsert ''+.dev'' (1::nat), TInsert ''*.example.dev'' 2, TOptimize, TInsert ''bar.example.dev'' 3]"
  have "map_option data (DomainTrie_Search ''foo.Example.dev'' (trie_run 0 ?ops)) = Some 2"
    by code_simp
  then obtain n where "DomainTrie_Search ''foo.Example.dev'' (trie_run 0 ?ops) = Some n" "data n = 2"
    by auto
  with domain_trie_most_specific [OF this(1)] show ?thesis by blast
qed

section \<open>Foreach\<close>

lemma tmap_children:
  "node_wf n \<Longrightarrow> tmap n (k # q) = Some v \<longleftrightarrow> (\<exists>c. (k, c) \<in> set (getChildren n) \<and> tmap c q = Some v)"
  by (cases "(n, k)" rule: getChild.cases)
    (auto split: option.splits if_splits dest: map_of_SomeD eq_key_imp_eq_value)

lemma node_wf_children: "node_wf n \<Longrightarrow> kc \<in> set (getChildren n) \<Longrightarrow> node_wf (snd kc)"
  by (cases n rule: getChildren.cases) (auto split: option.splits)

definition collect :: "('a, (string \<times> 'a) list) visitor" where
  "collect d v acc = (True, acc @ [(d, v)])"

definition at_node :: "string list \<Rightarrow> 'a Node \<Rightarrow> (string \<times> 'a) set" where
  "at_node items n = {(joinDomain (rev q @ items), v) | q v. tmap n q = Some v}"

definition below :: "string list \<Rightarrow> 'a Node \<Rightarrow> (string \<times> 'a) set" where
  "below items n = {(joinDomain (rev q @ items), v) | q v. q \<noteq> [] \<and> tmap n q = Some v}"

lemma at_node_below:
  "at_node items n = (if inited n then {(joinDomain items, data n)} else {}) \<union> below items n"
  (is "?l = ?r")
proof (rule set_eqI)
  fix x
  have "x \<in> ?l \<longleftrightarrow> x \<in> below items n \<or> (\<exists>v. tmap n [] = Some v \<and> x = (joinDomain items, v))"
    unfolding at_node_def below_def mem_Collect_eq by (metis append_Nil rev.simps(1))
  then show "x \<in> ?l \<longleftrightarrow> x \<in> ?r" by auto
qed

lemma below_children:
  assumes "node_wf n"
  shows "below items n = (\<Union>(k, c)\<in>set (getChildren n). at_node (k # items) c)"
proof (rule set_eqI)
  fix x
  have "x \<in> below items n \<longleftrightarrow> (\<exists>k q v. x = (joinDomain (rev (k # q) @ items), v) \<and> tmap n (k # q) = Some v)"
    unfolding below_def mem_Collect_eq by (metis list.exhaust list.distinct(1))
  then show "x \<in> below items n \<longleftrightarrow> x \<in> (\<Union>(k, c)\<in>set (getChildren n). at_node (k # items) c)"
    unfolding tmap_children [OF assms] at_node_def by force
qed

lemma recursion_collects:
  fixes fn :: "('a, (string \<times> 'a) list) visitor"
  shows "fn = collect \<Longrightarrow> node_wf n \<Longrightarrow>
      fst (recursion items n fn s) \<and> set (snd (recursion items n fn s)) = set s \<union> below items n"
    and "fn = collect \<Longrightarrow> (\<forall>kc\<in>set kids. node_wf (snd kc)) \<Longrightarrow>
      fst (recursion_children items kids fn s) \<and>
      set (snd (recursion_children items kids fn s)) = set s \<union> (\<Union>(k, c)\<in>set kids. at_node (k # items) c)"
proof (induction items n fn s and items kids fn s rule: recursion_recursion_children.induct)
  case (1 items node fn s)
  then show ?case by (simp add: recursion.simps below_children node_wf_children)
next
  case (2 items fn s)
  then show ?case by simp
next
  case (3 items key child kids fn s)
  define s1 where "s1 = (if inited child then s @ [(joinDomain (key # items), data child)] else s)"
  have f: "(if \<not> isEmpty (Some child) then fn (joinDomain (key # items)) (data child) s else (True, s)) = (True, s1)"
    using 3(3) by (simp add: s1_def isEmpty_def collect_def)
  have r: "fst (recursion (key # items) child fn s1)
      \<and> set (snd (recursion (key # items) child fn s1)) = set s1 \<union> below (key # items) child"
    using 3(1) [OF refl refl f [symmetric]] 3(3,4) by simp
  then obtain s2 where s2: "recursion (key # items) child fn s1 = (True, s2)"
    by (cases "recursion (key # items) child fn s1") simp
  have k: "fst (recursion_children items kids fn s2)
      \<and> set (snd (recursion_children items kids fn s2)) = set s2 \<union> (\<Union>(k, c)\<in>set kids. at_node (k # items) c)"
    using 3(2) [OF refl refl f [symmetric] _ s2 [symmetric]] 3(3,4) by simp
  have "recursion_children items ((key, child) # kids) fn s = recursion_children items kids fn s2"
    unfolding recursion_children.simps Let_def f using s2 by simp
  with k r s2 show ?case by (auto simp: at_node_below s1_def)
qed

lemma foreach_children_collects:
  "(\<forall>kc\<in>set kids. node_wf (snd kc)) \<Longrightarrow>
     set (foreach_children kids collect s) = set s \<union> (\<Union>(k, c)\<in>set kids. at_node [k] c)"
proof (induction kids arbitrary: s)
  case (Cons kc kids)
  obtain key child where kc: "kc = (key, child)" by (cases kc)
  have "set (snd (recursion [key] child collect s)) = set s \<union> below [key] child"
    using recursion_collects(1) [OF refl, of child "[key]" s] Cons.prems kc by simp
  with Cons kc show ?case
    by (auto simp: Let_def isEmpty_def at_node_below [of "[key]" child]
        collect_def [of "joinDomain [key]" "data child" "snd (recursion [key] child collect s)"])
qed simp

definition Foreach_list :: "'a DomainTrie \<Rightarrow> (string \<times> 'a) list" where
  "Foreach_list t = DomainTrie_Foreach collect t []"

lemma Foreach_list_set:
  "node_wf (root t) \<Longrightarrow>
     set (Foreach_list t) = {(joinDomain (rev q), v) | q v. q \<noteq> [] \<and> tmap (root t) q = Some v}"
proof -
  assume wf: "node_wf (root t)"
  then have "set (Foreach_list t) = below [] (root t)"
    by (simp add: Foreach_list_def DomainTrie_Foreach_def foreach_children_collects node_wf_children
        below_children)
  then show ?thesis by (simp add: below_def)
qed

text \<open>Patterns that \<open>Insert\<close> takes back as they are: lower-case labels without white space.\<close>

definition plain_labels :: "string list \<Rightarrow> bool" where
  "plain_labels ps \<longleftrightarrow> (\<forall>p\<in>set ps. ToLower p = p \<and> CHR ''.'' \<notin> set p \<and> (\<forall>c\<in>set p. \<not> IsSpace c))"

lemma Join_chars: "set (Join ps c) \<subseteq> insert c (\<Union>p\<in>set ps. set p)"
  by (induction ps c rule: Join.induct) auto

lemma Join_last: "ps \<noteq> [] \<Longrightarrow> last ps \<noteq> [] \<Longrightarrow> last (Join ps c) = last (last ps)"
  by (induction ps c rule: Join.induct) (auto simp: Join_Cons)

lemma Join_not_Nil: "ps \<noteq> [] \<Longrightarrow> last ps \<noteq> [] \<Longrightarrow> Join ps c \<noteq> []"
  by (induction ps c rule: Join.induct) auto

lemma Join_lower: "(\<forall>p\<in>set ps. ToLower p = p) \<Longrightarrow> lower_char c = c \<Longrightarrow> ToLower (Join ps c) = Join ps c"
  by (induction ps c rule: Join.induct) (auto simp: ToLower_def)

lemma valid_joinDomain:
  assumes "plain_labels ps" and "labels_ok ps"
  shows "ValidAndSplitDomain (joinDomain ps) = Inr ps"
proof -
  have ps0: "ps \<noteq> []" "'''' \<notin> set (tl ps)" "ps \<noteq> ['''']" using assms(2) by (simp_all add: labels_ok_def)
  then have "last ps \<noteq> []" by (cases ps) (auto simp: last_ConsR dest: last_in_set)
  with ps0(1) have ps: "ps \<noteq> []" "last ps \<noteq> []" by simp_all
  have step: "lower_char domainStep = domainStep" by (simp add: domainStep_def lower_char_fix)
  have nsp: "\<not> IsSpace c" if "c \<in> set (joinDomain ps)" for c
    using that Join_chars [of ps domainStep] assms(1)
    by (auto simp: joinDomain_def plain_labels_def domainStep_def IsSpace_def)
  have ne: "joinDomain ps \<noteq> []" using Join_not_Nil [OF ps] by (simp add: joinDomain_def)
  have "last (last ps) \<in> set (last ps)" "last ps \<in> set ps" using ps by simp_all
  then have "last (joinDomain ps) \<noteq> domainStep"
    using Join_last [OF ps] assms(1) by (auto simp: joinDomain_def plain_labels_def domainStep_def)
  moreover have "Split (ToLower (joinDomain ps)) domainStep = ps"
    using assms(1) ps(1) step
    by (simp add: joinDomain_def Join_lower plain_labels_def Split_Join domainStep_def)
  ultimately show ?thesis
    using ne nsp [of "hd (joinDomain ps)"] nsp [of "last (joinDomain ps)"] assms(2)
    by (simp add: valid_iff)
qed

lemma IsSpace_lower [simp]: "IsSpace (lower_char c) = IsSpace c"
  by (auto simp: IsSpace_def lower_char_def Let_def)

lemma Split_chars: "p \<in> set (Split s sep) \<Longrightarrow> set p \<subseteq> set s"
  by (induction s arbitrary: p) (fastforce split: list.splits if_splits)+

lemma expanded_ok:
  assumes "ValidAndSplitDomain d = Inr parts" and "\<forall>c\<in>set d. \<not> IsSpace c" and "q \<in> set (expand parts)"
  shows "plain_labels (rev q)" and "labels_ok (rev q)" and "hd (rev q) \<noteq> complexWildcard"
proof -
  have ok: "labels_ok parts" and parts: "parts = Split (ToLower d) domainStep"
    using assms(1) by (auto simp: valid_iff)
  have "plain_labels parts"
    unfolding plain_labels_def
  proof (intro ballI conjI)
    fix p assume p: "p \<in> set parts"
    then show "CHR ''.'' \<notin> set p" using labels_no_step parts by blast
    obtain p' where p': "p' \<in> set (Split d CHR ''.'')" "p = ToLower p'"
      using p unfolding parts domainStep_def Split_ToLower by auto
    then show "ToLower p = p" by simp
    show "\<not> IsSpace c" if "c \<in> set p" for c
      using that p' Split_chars [OF p'(1)] assms(2) by (auto simp: ToLower_def)
  qed
  moreover obtain r rs where r: "parts = r # rs" using ok by (cases parts) (auto simp: labels_ok_def)
  ultimately have pl: "plain_labels rs" "plain_labels (r # rs)" by (auto simp: plain_labels_def)
  have "rev q = rs \<and> r = complexWildcard \<or> rev q = dotWildcard # rs \<and> r = complexWildcard
      \<or> rev q = parts \<and> r \<noteq> complexWildcard"
    using assms(3) r by (auto simp: expand_def split: if_splits)
  then consider "rev q = rs" "r = complexWildcard" | "rev q = dotWildcard # rs" "r = complexWildcard"
    | "rev q = r # rs" "r \<noteq> complexWildcard" using r by blast
  then have "plain_labels (rev q) \<and> labels_ok (rev q) \<and> hd (rev q) \<noteq> complexWildcard"
  proof cases
    case 1
    then obtain a as where "rs = a # as" using ok r by (cases rs) (auto simp: labels_ok_def)
    with 1 ok pl r show ?thesis by (auto simp: labels_ok_def wildcards)
  next
    case 2
    with ok pl r show ?thesis
      by (auto simp: labels_ok_def plain_labels_def wildcards ToLower_def)
  next
    case 3
    with ok pl r show ?thesis by simp
  qed
  then show "plain_labels (rev q)" "labels_ok (rev q)" "hd (rev q) \<noteq> complexWildcard" by simp_all
qed

lemma entries_of_listing:
  assumes "\<And>d v. (d, v) \<in> set L \<Longrightarrow> \<exists>q. ValidAndSplitDomain d = Inr (rev q) \<and> hd (rev q) \<noteq> complexWildcard
      \<and> m q = Some v"
    and "\<And>q v. m q = Some v \<Longrightarrow> \<exists>d. (d, v) \<in> set L \<and> ValidAndSplitDomain d = Inr (rev q) \<and> hd (rev q) \<noteq> complexWildcard"
  shows "entries (map (\<lambda>(d, v). TInsert d v) L) = m"
proof
  fix q
  have sub: "entries (map (\<lambda>(d, v). TInsert d v) L') \<subseteq>\<^sub>m m" if "set L' \<subseteq> set L" for L'
    using that
  proof (induction L' rule: rev_induct)
    case Nil
    then show ?case by (simp add: entries_def)
  next
    case (snoc x L')
    obtain d v where x: "x = (d, v)" by (cases x)
    with snoc.prems have "(d, v) \<in> set L" by simp
    from assms(1) [OF this] obtain p where p: "ValidAndSplitDomain d = Inr (rev p)"
      "hd (rev p) \<noteq> complexWildcard" "m p = Some v" by blast
    have e: "entries (map (\<lambda>(d, v). TInsert d v) (L' @ [x])) = (entries (map (\<lambda>(d, v). TInsert d v) L'))(p \<mapsto> v)"
      using p x by (simp add: entries_def expand_def)
    have "entries (map (\<lambda>(d, v). TInsert d v) L') \<subseteq>\<^sub>m m" using snoc by simp
    then show ?case unfolding e using p(3) by (auto simp: map_le_def dom_def)
  qed
  show "entries (map (\<lambda>(d, v). TInsert d v) L) q = m q"
  proof (cases "m q")
    case None
    with sub [of L] show ?thesis
      by (cases "entries (map (\<lambda>(d, v). TInsert d v) L) q") (auto simp: map_le_def dom_def)
  next
    case (Some v)
    from assms(2) [OF this] obtain d where "(d, v) \<in> set L" "ValidAndSplitDomain d = Inr (rev q)"
      "hd (rev q) \<noteq> complexWildcard" by blast
    then have "TInsert d v \<in> set (map (\<lambda>(d, v). TInsert d v) L) \<and> ValidAndSplitDomain d = Inr (rev q)
        \<and> q \<in> set (expand (rev q))"
      by (auto simp: expand_def)
    then have "entries (map (\<lambda>(d, v). TInsert d v) L) q \<noteq> None"
      unfolding entries_dom by blast
    with sub [of L] show ?thesis by (auto simp: map_le_def dom_def)
  qed
qed

text \<open>
  C21: \<open>Foreach\<close> reproduces the trie. If no inserted pattern has white space, then inserting the
  patterns that \<open>Foreach\<close> reports, with their data, into a new trie gives a trie with the same
  answers to every search. The hypothesis is needed: \<open>+. x\<close> is accepted, but the path of \<open> x\<close> that
  it stores is reported as a pattern that \<open>Insert\<close> rejects.
\<close>
theorem foreach_rebuilds_trie:
  assumes "\<forall>p v. TInsert p v \<in> set ops \<longrightarrow> (\<forall>c\<in>set p. \<not> IsSpace c)"
  shows "map_option data (DomainTrie_Search d
           (trie_run z (map (\<lambda>(p, v). TInsert p v) (Foreach_list (trie_run z ops)))))
         = map_option data (DomainTrie_Search d (trie_run z ops))"
proof -
  let ?m = "entries ops"
  have L: "set (Foreach_list (trie_run z ops)) = {(joinDomain (rev q), v) | q v. q \<noteq> [] \<and> ?m q = Some v}"
    using Foreach_list_set [of "trie_run z ops"] trie_run_tmap [of z ops] by simp
  have ok: "q \<noteq> [] \<and> ValidAndSplitDomain (joinDomain (rev q)) = Inr (rev q) \<and> hd (rev q) \<noteq> complexWildcard"
    if m: "?m q = Some v" for q v
  proof -
    from m have "?m q \<noteq> None" by simp
    then obtain p u parts where p: "TInsert p u \<in> set ops" "ValidAndSplitDomain p = Inr parts"
      "q \<in> set (expand parts)" unfolding entries_dom by blast
    have "\<forall>c\<in>set p. \<not> IsSpace c" using assms p(1) by blast
    from expanded_ok [OF p(2) this p(3)] show ?thesis
      by (auto simp: valid_joinDomain labels_ok_def)
  qed
  have "entries (map (\<lambda>(p, v). TInsert p v) (Foreach_list (trie_run z ops))) = ?m"
  proof (rule entries_of_listing)
    fix p v
    assume "(p, v) \<in> set (Foreach_list (trie_run z ops))"
    then obtain q where "p = joinDomain (rev q)" "?m q = Some v" unfolding L by blast
    with ok [of q v] show "\<exists>q. ValidAndSplitDomain p = Inr (rev q) \<and> hd (rev q) \<noteq> complexWildcard \<and> ?m q = Some v"
      by blast
  next
    fix q v
    assume "?m q = Some v"
    with ok [of q v] show "\<exists>p. (p, v) \<in> set (Foreach_list (trie_run z ops))
        \<and> ValidAndSplitDomain p = Inr (rev q) \<and> hd (rev q) \<noteq> complexWildcard"
      unfolding L by blast
  qed
  then have e: "entries (map (\<lambda>(p, v). TInsert p v) (Foreach_list (trie_run z ops))) = ?m" .
  show ?thesis unfolding Search_entries e by (rule refl)
qed

theorem foreach_rebuilds_trie_witness:
  "map_option data (DomainTrie_Search ''a.b.org''
      (trie_run 0 (map (\<lambda>(p, v). TInsert p v) (Foreach_list (trie_run 0 [TInsert ''+.b.org'' (7::nat), TOptimize])))))
    = map_option data (DomainTrie_Search ''a.b.org'' (trie_run 0 [TInsert ''+.b.org'' (7::nat), TOptimize]))
  \<and> map_option data (DomainTrie_Search ''a.b.org'' (trie_run 0 [TInsert ''+.b.org'' (7::nat), TOptimize])) = Some 7"
proof
  show "map_option data (DomainTrie_Search ''a.b.org''
      (trie_run 0 (map (\<lambda>(p, v). TInsert p v) (Foreach_list (trie_run 0 [TInsert ''+.b.org'' (7::nat), TOptimize])))))
    = map_option data (DomainTrie_Search ''a.b.org'' (trie_run 0 [TInsert ''+.b.org'' (7::nat), TOptimize]))"
    by (rule foreach_rebuilds_trie) (simp add: IsSpace_def)
qed code_simp

text \<open>
  The two corner cases of \<open>Foreach\<close>: a pattern that cannot be inserted again, and a visitor that
  asks to stop inside the subtree of a first label but is called again.
\<close>

lemma foreach_unparsable:
  "Foreach_list (trie_run 0 [TInsert ''+. x'' (7::nat)]) = [('' x'', 7), (''. x'', 7)]
     \<or> Foreach_list (trie_run 0 [TInsert ''+. x'' (7::nat)]) = [(''. x'', 7), ('' x'', 7)]"
  "\<exists>e. ValidAndSplitDomain '' x'' = Inl e"
  by code_simp (simp add: ValidAndSplitDomain_def domainStep_def IsSpace_def)

lemma foreach_ignores_stop:
  "DomainTrie_Foreach (\<lambda>p v n. (False, n + 1)) (trie_run 0 [TInsert ''a.com'' (7::nat), TInsert ''b.org'' 8]) (0::nat) = 2"
  by code_simp
end
