(* ===== verification/Int_Ranges.thy ===== *)
theory Int_Ranges
  imports Go_Strings
begin

text \<open>
  The integer ranges of \<open>src/common/utils/range.go\<close> and \<open>ranges.go\<close>, which the port, DSCP and uid
  rules, the health checks and the port hopping of the QUIC clients use. The unsigned Go types
  are words of the width of the type, so that \<open>+ 1\<close> and the conversion of a parsed number wrap
  as in Go. The instances at signed types are not modelled.
\<close>

record 'a IRange =
  rstart :: 'a
  rend :: 'a

definition NewRange :: "'a::linorder \<Rightarrow> 'a \<Rightarrow> 'a IRange" where
  "NewRange start end' =
     (if end' < start then \<lparr>rstart = end', rend = start\<rparr> else \<lparr>rstart = start, rend = end'\<rparr>)"

definition Range_Contains :: "'a::linorder IRange \<Rightarrow> 'a \<Rightarrow> bool" where
  "Range_Contains r t \<longleftrightarrow> rstart r \<le> t \<and> t \<le> rend r"

definition Range_LeftContains :: "'a::linorder IRange \<Rightarrow> 'a \<Rightarrow> bool" where
  "Range_LeftContains r t \<longleftrightarrow> rstart r \<le> t \<and> t < rend r"

definition Range_RightContains :: "'a::linorder IRange \<Rightarrow> 'a \<Rightarrow> bool" where
  "Range_RightContains r t \<longleftrightarrow> rstart r < t \<and> t \<le> rend r"

definition Range_String :: "'a::len word IRange \<Rightarrow> string" where
  "Range_String r =
     (if rstart r = rend r then FormatUint (unat (rstart r))
      else FormatUint (unat (rstart r)) @ ''-'' @ FormatUint (unat (rend r)))"

section \<open>Parsing\<close>

datatype range_error = InvalidRange string | TooManyRanges

definition parseUnsigned :: "string \<Rightarrow> 'a::len word option" where
  "parseUnsigned s = (case ParseUint64 s of Some val \<Rightarrow> Some (of_nat val) | None \<Rightarrow> None)"

definition newIntRange :: "string \<Rightarrow> (string \<Rightarrow> 'a option) \<Rightarrow> range_error + 'a::{linorder, zero} IRange" where
  "newIntRange s parseFn =
     (let s = TrimSpace s in
      if length s = 0 then Inr (NewRange 0 0)
      else
        (let status = Split s CHR ''-'' in
         case parseFn (Trim (status ! 0) ''[ ]'') of
           None \<Rightarrow> Inl (InvalidRange s)
         | Some start \<Rightarrow>
             if length status = 1 then Inr (NewRange start start)
             else if length status = 2 then
               (case parseFn (Trim (status ! 1) ''[ ]'') of
                  None \<Rightarrow> Inl (InvalidRange s)
                | Some end' \<Rightarrow> Inr (NewRange start end'))
             else Inl (InvalidRange s)))"

definition NewUnsignedRange :: "string \<Rightarrow> range_error + 'a::len word IRange" where
  "NewUnsignedRange expected = newIntRange expected parseUnsigned"

fun newIntRangesFromList ::
  "string list \<Rightarrow> (string \<Rightarrow> 'a option) \<Rightarrow> range_error + 'a::{linorder, zero} IRange list" where
  "newIntRangesFromList [] parseFn = Inr []"
| "newIntRangesFromList (s # list) parseFn =
     (if s = '''' then newIntRangesFromList list parseFn
      else
        rbind (newIntRange s parseFn) (\<lambda>r.
        rbind (newIntRangesFromList list parseFn) (\<lambda>ranges. Inr (r # ranges))))"

definition newIntRanges ::
  "string \<Rightarrow> (string \<Rightarrow> 'a option) \<Rightarrow> range_error + 'a::{linorder, zero} IRange list" where
  "newIntRanges expected parseFn =
     (let expected = TrimSpace expected in
      if length expected = 0 \<or> expected = ''*'' then Inr []
      else
        (let expected = ReplaceAll expected CHR '','' CHR ''/'';
             list = Split expected CHR ''/''
         in if 28 < length list then Inl TooManyRanges else newIntRangesFromList list parseFn))"

definition NewUnsignedRanges :: "string \<Rightarrow> range_error + 'a::len word IRange list" where
  "NewUnsignedRanges expected = newIntRanges expected parseUnsigned"

definition NewUnsignedRangesFromList :: "string list \<Rightarrow> range_error + 'a::len word IRange list" where
  "NewUnsignedRangesFromList list = newIntRangesFromList list parseUnsigned"

section \<open>Operations\<close>

fun check_any :: "'a::linorder IRange list \<Rightarrow> 'a \<Rightarrow> bool" where
  "check_any [] status = False"
| "check_any (segment # ranges) status = (if Range_Contains segment status then True else check_any ranges status)"

definition IntRanges_Check :: "'a::linorder IRange list \<Rightarrow> 'a \<Rightarrow> bool" where
  "IntRanges_Check ranges status = (if length ranges = 0 then True else check_any ranges status)"

definition IntRanges_String :: "'a::len word IRange list \<Rightarrow> string" where
  "IntRanges_String ranges =
     (if length ranges = 0 then ''*'' else Join (map Range_String ranges) CHR ''/'')"

lemma unat_less_exp: "unat w < 2 ^ LENGTH('a)" for w :: "'a::len word"
  by (rule unsigned_less)

lemma unat_succ: "\<not> i + 1 < i \<Longrightarrow> unat (i + 1) = Suc (unat i)" for i :: "'a::len word"
proof -
  assume a: "\<not> i + 1 < i"
  have "i + 1 \<noteq> 0"
  proof
    assume "i + 1 = 0"
    with a have "i = 0" by (simp add: not_less)
    with \<open>i + 1 = 0\<close> show False by simp
  qed
  then have "1 + i \<noteq> 0" by (simp add: add.commute)
  then have "unat (1 + i) = Suc (unat i)" by (rule unatSuc)
  then show ?thesis by (simp add: add.commute)
qed

text \<open>The visitor of \<open>Range\<close> threads the state of its closure and says whether to go on.\<close>

function range_values :: "'a::len word IRange \<Rightarrow> 'a word \<Rightarrow> ('a word \<Rightarrow> 's \<Rightarrow> bool \<times> 's) \<Rightarrow> 's \<Rightarrow> bool \<times> 's" where
  "range_values r i f s =
     (if i \<le> rend r \<and> rstart r \<le> i then
        (case f i s of
           (go, s) \<Rightarrow>
             if \<not> go then (False, s)
             else if i + 1 < i then (True, s)
             else range_values r (i + 1) f s)
      else (True, s))"
  by pat_completeness auto
termination
proof (relation "measure (\<lambda>(r, i, f, s). 2 ^ LENGTH('a) - unat i)")
  fix r :: "'a word IRange" and i :: "'a word" and f :: "'a word \<Rightarrow> 's \<Rightarrow> bool \<times> 's"
    and s x1 s' and go :: bool
  assume "\<not> i + 1 < i"
  then have "unat (i + 1) = Suc (unat i)" by (rule unat_succ)
  moreover have "unat (i + 1) < 2 ^ LENGTH('a)" by (rule unsigned_less)
  ultimately show "((r, i + 1, f, s'), r, i, f, s) \<in> measure (\<lambda>(r, i, f, s). 2 ^ LENGTH('a) - unat i)"
    by simp
qed simp

declare range_values.simps [simp del]

fun IntRanges_Range :: "'a::len word IRange list \<Rightarrow> ('a word \<Rightarrow> 's \<Rightarrow> bool \<times> 's) \<Rightarrow> 's \<Rightarrow> 's" where
  "IntRanges_Range [] f s = s"
| "IntRanges_Range (r # ranges) f s =
     (case range_values r (rstart r) f s of (go, s) \<Rightarrow> if \<not> go then s else IntRanges_Range ranges f s)"

text \<open>
  The loop of \<open>Merge\<close>. The merged slice shares the array of the argument, but the loop only
  writes positions it has already read.
\<close>

fun merge_loop :: "'a::len word IRange list \<Rightarrow> nat \<Rightarrow> 'a word IRange list \<Rightarrow> 'a word IRange list" where
  "merge_loop merged rangeIndex [] = merged"
| "merge_loop merged rangeIndex (r # ranges) =
     (let cur = merged ! rangeIndex in
      if rend cur < rend cur + 1 \<and> rend cur + 1 < rstart r
      then merge_loop (merged @ [r]) (rangeIndex + 1) ranges
      else if rend cur < rend r
      then merge_loop (merged[rangeIndex := cur\<lparr>rend := rend r\<rparr>]) rangeIndex ranges
      else merge_loop merged rangeIndex ranges)"

definition Merge :: "'a::len word IRange list \<Rightarrow> 'a word IRange list" where
  "Merge ranges =
     (if length ranges = 0 then []
      else (let ranges = sort_key rstart ranges in merge_loop (take 1 ranges) 0 (drop 1 ranges)))"

section \<open>Merging\<close>

definition range_ok :: "'a::linorder IRange \<Rightarrow> bool" where
  "range_ok r \<longleftrightarrow> rstart r \<le> rend r"

lemma NewRange_ok: "range_ok (NewRange a b)"
  by (auto simp: NewRange_def range_ok_def)

lemma check_any_iff: "check_any rs t \<longleftrightarrow> (\<exists>r\<in>set rs. Range_Contains r t)"
  by (induction rs) auto

text \<open>Two ranges are apart if a value lies strictly between them.\<close>

definition apart :: "'a::len word IRange \<Rightarrow> 'a word IRange \<Rightarrow> bool" where
  "apart a b \<longleftrightarrow> unat (rend a) + 1 < unat (rstart b)"

lemma unat_add1: "unat i + 1 < 2 ^ LENGTH('a) \<Longrightarrow> unat (i + 1) = Suc (unat i)" for i :: "'a::len word"
  using unat_add_lem [of i 1] by simp

lemma succ_cases:
  fixes a b :: "'a::len word"
  shows "a < a + 1 \<and> a + 1 < b \<longleftrightarrow> unat a + 1 < unat b"
proof -
  have "a < a + 1 \<Longrightarrow> unat (a + 1) = Suc (unat a)" by (rule unat_succ) simp
  moreover have "a < a + 1" if "unat a + 1 < unat b"
  proof -
    have "unat a + 1 < 2 ^ LENGTH('a)" using that unat_less_exp [of b] by linarith
    then have "unat (a + 1) = Suc (unat a)" by (rule unat_add1)
    then show ?thesis unfolding word_less_nat_alt by linarith
  qed
  ultimately show ?thesis by (auto simp: word_less_nat_alt)
qed

lemma merge_loop_spec:
  assumes "rangeIndex = length ms" and "range_ok cur" and "\<And>r. r \<in> set ranges \<Longrightarrow> range_ok r"
    and "\<And>r. r \<in> set ranges \<Longrightarrow> rstart cur \<le> rstart r" and "sorted (map rstart ranges)"
    and "sorted_wrt apart (ms @ [cur])"
  shows "(check_any (merge_loop (ms @ [cur]) rangeIndex ranges) t \<longleftrightarrow> check_any (ms @ cur # ranges) t)
    \<and> sorted_wrt apart (merge_loop (ms @ [cur]) rangeIndex ranges)"
  using assms
proof (induction ranges arbitrary: ms cur rangeIndex)
  case Nil
  then show ?case by simp
next
  case (Cons r ranges)
  have ord: "rstart cur \<le> rstart r" "range_ok r" "\<And>q. q \<in> set ranges \<Longrightarrow> rstart r \<le> rstart q"
    using Cons.prems by auto
  consider (gap) "unat (rend cur) + 1 < unat (rstart r)"
    | (grow) "\<not> unat (rend cur) + 1 < unat (rstart r)" "rend cur < rend r"
    | (inside) "\<not> unat (rend cur) + 1 < unat (rstart r)" "\<not> rend cur < rend r" by blast
  then show ?case
  proof cases
    case gap
    have "apart a r" if "a \<in> set ms" for a
      using that Cons.prems(6) ord(1) by (auto simp: apart_def sorted_wrt_append word_le_nat_alt)
    then have "sorted_wrt apart ((ms @ [cur]) @ [r])"
      using Cons.prems(6) gap by (auto simp: sorted_wrt_append apart_def [of cur r])
    with Cons.IH [of "Suc rangeIndex" "ms @ [cur]" r] Cons.prems ord gap show ?thesis
      by (simp add: succ_cases)
  next
    case grow
    let ?cur = "cur\<lparr>rend := rend r\<rparr>"
    have "sorted_wrt apart (ms @ [?cur])"
      using Cons.prems(6) by (auto simp: sorted_wrt_append apart_def [of _ cur] apart_def [of _ ?cur])
    moreover have "range_ok ?cur" using Cons.prems(2) grow by (simp add: range_ok_def)
    moreover have "Range_Contains ?cur t \<longleftrightarrow> Range_Contains cur t \<or> Range_Contains r t"
      using grow ord(1) Cons.prems(2) by (auto simp: Range_Contains_def range_ok_def word_le_nat_alt word_less_nat_alt)
    ultimately show ?thesis
      using Cons.IH [of rangeIndex ms ?cur] Cons.prems grow
      by (auto simp: succ_cases nth_append check_any_iff)
  next
    case inside
    then have "Range_Contains r t \<Longrightarrow> Range_Contains cur t"
      using ord(1) by (auto simp: Range_Contains_def)
    with Cons.IH [of rangeIndex ms cur] Cons.prems inside show ?thesis
      by (auto simp: succ_cases nth_append check_any_iff)
  qed
qed

lemma Merge_spec:
  assumes "\<And>r. r \<in> set rs \<Longrightarrow> range_ok r"
  shows "(check_any (Merge rs) t \<longleftrightarrow> check_any rs t) \<and> sorted_wrt apart (Merge rs)"
proof (cases "rs = []")
  case False
  let ?s = "sort_key rstart rs"
  obtain c cs where s: "?s = c # cs" using False by (cases ?s) (metis length_0_conv length_sort, blast)
  have st: "set (c # cs) = set rs" by (metis s set_sort)
  have so: "sorted (map rstart (c # cs))" by (metis s sorted_sort_key)
  have "range_ok q" if "q \<in> set (c # cs)" for q using that assms st by blast
  then have "(check_any (merge_loop ([] @ [c]) 0 cs) t \<longleftrightarrow> check_any ([] @ c # cs) t)
      \<and> sorted_wrt apart (merge_loop ([] @ [c]) 0 cs)"
    using so by (intro merge_loop_spec) auto
  moreover have "check_any (c # cs) t = check_any rs t" unfolding check_any_iff st ..
  moreover have "Merge rs = merge_loop [c] 0 cs" using False s by (simp add: Merge_def)
  ultimately show ?thesis by simp
qed (simp add: Merge_def)

lemma Merge_Nil_iff:
  assumes "\<And>r. r \<in> set rs \<Longrightarrow> range_ok r"
  shows "Merge rs = [] \<longleftrightarrow> rs = []"
proof
  assume m: "Merge rs = []"
  show "rs = []"
  proof (rule ccontr)
    assume "rs \<noteq> []"
    then obtain r where r: "r \<in> set rs" by (cases rs) auto
    then have "check_any rs (rstart r)"
      using assms [OF r] by (auto simp: check_any_iff Range_Contains_def range_ok_def)
    with Merge_spec [of rs "rstart r"] assms m show False by simp
  qed
qed (simp add: Merge_def)

text \<open>
  C23: Merging ranges changes no answer: the merged list accepts a number exactly if the given list
  does, also at the largest value of the type, where adding one wraps. The merged ranges are
  ascending and no two of them touch, so no shorter list of this kind exists for the numbers.
\<close>
theorem merge_keeps_numbers:
  fixes rs :: "'a::len word IRange list"
  assumes "list_all range_ok rs"
  shows "IntRanges_Check (Merge rs) t = IntRanges_Check rs t \<and> sorted_wrt apart (Merge rs)"
proof -
  have "\<And>r. r \<in> set rs \<Longrightarrow> range_ok r" using assms by (simp add: list_all_iff)
  from Merge_spec [of rs t, OF this] Merge_Nil_iff [of rs, OF this] show ?thesis
    by (simp add: IntRanges_Check_def)
qed

theorem merge_keeps_numbers_witness:
  "IntRanges_Check (Merge [NewRange 250 255, NewRange 1 3, NewRange 4 (9 :: 8 word)]) 4
     = IntRanges_Check [NewRange 250 255, NewRange 1 3, NewRange 4 (9 :: 8 word)] 4
   \<and> sorted_wrt apart (Merge [NewRange 250 255, NewRange 1 3, NewRange 4 (9 :: 8 word)])
   \<and> Merge [NewRange 250 255, NewRange 1 3, NewRange 4 (9 :: 8 word)] = [NewRange 1 9, NewRange 250 255]"
proof -
  have "list_all range_ok [NewRange 250 255, NewRange 1 3, NewRange 4 (9 :: 8 word)]"
    by (simp add: NewRange_ok)
  moreover have "Merge [NewRange 250 255, NewRange 1 3, NewRange 4 (9 :: 8 word)] = [NewRange 1 9, NewRange 250 255]"
    by code_simp
  ultimately show ?thesis using merge_keeps_numbers [of _ 4] by blast
qed

section \<open>Enumerating\<close>

abbreviation collect_num :: "'a::len word \<Rightarrow> 'a word list \<Rightarrow> bool \<times> 'a word list" where
  "collect_num i acc \<equiv> (True, acc @ [i])"

lemma range_values_step:
  "rstart r \<le> i \<Longrightarrow> i \<le> rend r \<Longrightarrow> range_values r i collect_num acc
     = (if i + 1 < i then (True, acc @ [i]) else range_values r (i + 1) collect_num (acc @ [i]))"
  by (subst range_values.simps) simp

lemma no_wrap_below: "i < b \<Longrightarrow> \<not> i + 1 < i" for i b :: "'a::len word"
proof -
  assume "i < b"
  then have "unat i < unat b" by (simp add: word_less_nat_alt)
  then have "unat i + 1 < 2 ^ LENGTH('a)" using unat_less_exp [of b] by linarith
  then have "unat (i + 1) = Suc (unat i)" by (rule unat_add1)
  then show ?thesis unfolding word_less_nat_alt by linarith
qed

lemma range_values_all:
  "rstart r \<le> i \<Longrightarrow> range_values r i collect_num acc
     = (True, acc @ map of_nat [unat i..<Suc (unat (rend r))])"
proof (induction "Suc (unat (rend r)) - unat i" arbitrary: i acc)
  case 0
  then have "\<not> i \<le> rend r" by (simp add: word_le_nat_alt)
  with 0(1) show ?case by (subst range_values.simps) simp
next
  case (Suc n)
  then have le: "i \<le> rend r" by (simp add: word_le_nat_alt)
  show ?case
  proof (cases "i = rend r")
    case True
    have "range_values r (i + 1) collect_num (acc @ [i]) = (True, acc @ [i])" if "\<not> i + 1 < i"
    proof -
      have "\<not> i + 1 \<le> rend r" using unat_succ [OF that] True by (simp add: word_le_nat_alt)
      then show ?thesis by (subst range_values.simps) simp
    qed
    with True range_values_step [OF Suc.prems le] show ?thesis by simp
  next
    case False
    with le have nw: "\<not> i + 1 < i" using no_wrap_below [of i "rend r"] by simp
    note s = unat_succ [OF nw]
    have "n = Suc (unat (rend r)) - unat (i + 1)" using Suc.hyps(2) unfolding s by linarith
    moreover have "rstart r \<le> i + 1" using Suc.prems unfolding word_le_nat_alt s by linarith
    ultimately have "range_values r (i + 1) collect_num (acc @ [i])
        = (True, (acc @ [i]) @ map of_nat [unat (i + 1)..<Suc (unat (rend r))])"
      by (rule Suc.hyps(1))
    moreover have "[unat i..<Suc (unat (rend r))] = unat i # [unat (i + 1)..<Suc (unat (rend r))]"
      unfolding s using le by (intro upt_conv_Cons) (simp add: word_le_nat_alt)
    ultimately show ?thesis using range_values_step [OF Suc.prems le] nw by (simp del: upt_Suc)
  qed
qed

text \<open>
  C27: \<open>Range\<close> ends, also for a range that reaches the largest value of the type, and calls its
  function for the numbers of the ranges one after the other, each number of a range once and in
  ascending order.
\<close>
theorem ranges_enumerated:
  "IntRanges_Range rs (\<lambda>i acc. (True, acc @ [i])) acc
     = acc @ concat (map (\<lambda>r. map of_nat [unat (rstart r)..<Suc (unat (rend r))]) rs)"
proof (induction rs arbitrary: acc)
  case (Cons r rs)
  then show ?case by (simp add: range_values_all del: upt_Suc)
qed simp

section \<open>Text\<close>

lemma format_digit: "c \<in> set (FormatUint n) \<Longrightarrow> is_digit c"
  using format_base_digits [of 10 n] by auto

lemma digit_plain:
  "is_digit c \<Longrightarrow> c \<noteq> CHR ''-'' \<and> c \<noteq> CHR ''/'' \<and> c \<noteq> CHR '','' \<and> c \<noteq> CHR ''*'' \<and> \<not> IsSpace c
     \<and> c \<notin> set ''[ ]''"
  by (auto simp: is_digit_def IsSpace_def Let_def)

lemma Range_String_char:
  "c \<in> set (Range_String r) \<Longrightarrow> is_digit c \<or> c = CHR ''-''"
  by (auto simp: Range_String_def dest: format_digit split: if_splits)

lemma parseUnsigned_format:
  "LENGTH('a) \<le> 64 \<Longrightarrow> parseUnsigned (FormatUint (unat w)) = Some (w :: 'a::len word)"
proof -
  assume "LENGTH('a) \<le> 64"
  then have "(2::nat) ^ LENGTH('a) \<le> 2 ^ 64" by (rule power_increasing) simp
  then have "unat w < 2 ^ 64" using unat_less_exp [of w] by linarith
  then show ?thesis by (simp add: parseUnsigned_def ParseUint64_format)
qed

lemma Trim_format: "Trim (FormatUint n) ''[ ]'' = FormatUint n"
  unfolding Trim_def by (rule trim_by_id) (use format_digit digit_plain in blast)

lemma TrimSpace_range: "TrimSpace (Range_String r) = Range_String r"
  unfolding TrimSpace_def
proof (rule trim_by_id)
  show "\<not> IsSpace c" if "c \<in> set (Range_String r)" for c
    using Range_String_char [OF that] digit_plain [of c] by (auto simp: IsSpace_def)
qed

lemma Range_String_not_Nil: "Range_String r \<noteq> []"
  by (auto simp: Range_String_def)

lemma newIntRange_String:
  fixes r :: "'a::len word IRange"
  assumes "LENGTH('a) \<le> 64" and "range_ok r"
  shows "newIntRange (Range_String r) parseUnsigned = Inr r"
proof -
  let ?s = "FormatUint (unat (rstart r))" and ?e = "FormatUint (unat (rend r))"
  have nd: "CHR ''-'' \<notin> set (FormatUint n)" for n using format_digit digit_plain by blast
  show ?thesis
  proof (cases "rstart r = rend r")
    case True
    then have "Split (Range_String r) CHR ''-'' = [?s]" by (simp add: Range_String_def Split_word nd)
    with True assms show ?thesis
      by (cases r) (simp add: newIntRange_def TrimSpace_range Range_String_not_Nil Trim_format
          parseUnsigned_format NewRange_def)
  next
    case False
    then have "Split (Range_String r) CHR ''-'' = [?s, ?e]"
      by (simp add: Range_String_def Split_word Split_prefix nd)
    with assms show ?thesis
      by (cases r) (simp add: newIntRange_def TrimSpace_range Range_String_not_Nil Trim_format
          parseUnsigned_format NewRange_def range_ok_def leD)
  qed
qed

lemma newIntRangesFromList_String:
  fixes rs :: "'a::len word IRange list"
  assumes "LENGTH('a) \<le> 64" and "list_all range_ok rs"
  shows "newIntRangesFromList (map Range_String rs) parseUnsigned = Inr rs"
  using assms(2) by (induction rs) (simp_all add: newIntRange_String [OF assms(1)] Range_String_not_Nil)

lemma IntRanges_String_char:
  "rs \<noteq> [] \<Longrightarrow> c \<in> set (IntRanges_String rs) \<Longrightarrow> is_digit c \<or> c = CHR ''-'' \<or> c = CHR ''/''"
proof -
  have "c \<in> set (Join ws x) \<Longrightarrow> c = x \<or> (\<exists>w\<in>set ws. c \<in> set w)" for ws x
    by (induction ws x rule: Join.induct) auto
  then show "rs \<noteq> [] \<Longrightarrow> c \<in> set (IntRanges_String rs) \<Longrightarrow> is_digit c \<or> c = CHR ''-'' \<or> c = CHR ''/''"
    using Range_String_char by (fastforce simp: IntRanges_String_def)
qed

text \<open>
  C28: Printing and parsing: a list of one to 28 ranges of a type of at most 64 bits is what
  \<open>NewUnsignedRanges\<close> reads from its own text.
\<close>
theorem ranges_parse_print:
  fixes rs :: "'a::len word IRange list"
  assumes "LENGTH('a) \<le> 64" and "rs \<noteq> []" and "length rs \<le> 28" and "list_all range_ok rs"
  shows "NewUnsignedRanges (IntRanges_String rs) = Inr rs"
proof -
  let ?s = "IntRanges_String rs"
  have ch: "is_digit c \<or> c = CHR ''-'' \<or> c = CHR ''/''" if "c \<in> set ?s" for c
    using IntRanges_String_char [OF assms(2) that] .
  have trim: "TrimSpace ?s = ?s"
    unfolding TrimSpace_def by (rule trim_by_id) (use ch digit_plain in \<open>fastforce simp: IsSpace_def\<close>)
  have rep: "ReplaceAll ?s CHR '','' CHR ''/'' = ?s"
    unfolding ReplaceAll_def by (rule map_idI) (use ch digit_plain in fastforce)
  have ne: "?s \<noteq> ''*''" using ch digit_plain [of "CHR ''*''"] by force
  obtain r rs' where rs: "rs = r # rs'" using assms(2) by (cases rs) auto
  have ns: "CHR ''/'' \<notin> set (Range_String q)" for q :: "'a word IRange"
    using Range_String_char [of "CHR ''/''" q] digit_plain [of "CHR ''/''"] by auto
  have sp: "Split ?s CHR ''/'' = map Range_String rs"
    using assms(2) ns by (simp add: IntRanges_String_def) (rule Split_Join, auto)
  have "?s \<noteq> []"
    using Range_String_not_Nil [of r] rs by (cases rs') (auto simp: IntRanges_String_def)
  then show ?thesis
    using assms by (simp add: NewUnsignedRanges_def newIntRanges_def trim rep ne sp newIntRangesFromList_String)
qed

theorem ranges_parse_print_witness:
  "NewUnsignedRanges (IntRanges_String [NewRange 80 (80 :: 16 word), NewRange 8000 9000])
     = Inr [NewRange 80 80, NewRange 8000 (9000 :: 16 word)]
   \<and> IntRanges_String [NewRange 80 (80 :: 16 word), NewRange 8000 9000] = ''80/8000-9000''"
proof
  show "NewUnsignedRanges (IntRanges_String [NewRange 80 (80 :: 16 word), NewRange 8000 9000])
     = Inr [NewRange 80 80, NewRange 8000 (9000 :: 16 word)]"
    by (rule ranges_parse_print) (simp_all add: NewRange_ok)
qed (simp add: IntRanges_String_def Range_String_def NewRange_def format_base.simps digit_char_def, code_simp)

text \<open>
  C40: A number that does not fit the type is not rejected but wrapped: the text of any number
  below \<open>2^64\<close> is accepted as the range of the number modulo the size of the type. The port
  rule for 65616 is the rule for port 80.
\<close>
theorem range_number_wraps:
  assumes "n < 2 ^ 64"
  shows "NewUnsignedRanges (FormatUint n) = Inr [NewRange (of_nat n) (of_nat n :: 'a::len word)]"
proof -
  have ch: "is_digit c" if "c \<in> set (FormatUint n)" for c using format_digit that .
  have trim: "TrimSpace (FormatUint n) = FormatUint n"
    unfolding TrimSpace_def by (rule trim_by_id) (use ch digit_plain in blast)
  have rep: "ReplaceAll (FormatUint n) CHR '','' CHR ''/'' = FormatUint n"
    unfolding ReplaceAll_def by (rule map_idI) (use ch digit_plain in fastforce)
  have ne: "FormatUint n \<noteq> ''*''" using ch digit_plain [of "CHR ''*''"] by force
  have sp: "Split (FormatUint n) CHR ''/'' = [FormatUint n]" "Split (FormatUint n) CHR ''-'' = [FormatUint n]"
    by (rule Split_word, use ch digit_plain in blast)+
  show ?thesis
    by (simp add: NewUnsignedRanges_def newIntRanges_def newIntRange_def trim rep ne sp Trim_format
        parseUnsigned_def ParseUint64_format [OF assms])
qed

theorem range_number_wraps_witness:
  "NewUnsignedRanges (FormatUint 65616) = Inr [NewRange 80 (80 :: 16 word)]"
proof -
  have n: "(of_nat 65616 :: 16 word) = 80" by simp
  have "NewUnsignedRanges (FormatUint 65616) = Inr [NewRange (of_nat 65616) (of_nat 65616 :: 16 word)]"
    by (rule range_number_wraps) simp
  then show ?thesis unfolding n .
qed
end
