(* ===== verification/Rules_Common.thy ===== *)
theory Rules_Common
  imports Constants Int_Ranges Wildcard "HOL-Library.Monad_Syntax"
begin

text \<open>
  The rules of \<open>src/rules/common\<close>: one record per struct, one definition per method. A rule is
  matched against the metadata of a connection. The helper of a match has closures that resolve
  the destination and look up the process; they change the metadata and the variables they
  capture, so a state \<open>'s mstate\<close> of both is threaded through every match. A match that does not
  return normally is \<open>None\<close>.

  What the rules take from outside is the record \<open>rule_env\<close>: the regular expressions of the
  package \<open>regexp2\<close> and the country, ASN and site databases.
\<close>

type_synonym 's mstate = "Metadata \<times> 's"

record 's RuleMatchHelper =
  ResolveIP :: "('s mstate \<Rightarrow> 's mstate) option"
  FindProcess :: "('s mstate \<Rightarrow> 's mstate) option"
  CheckPassRule :: "(string \<Rightarrow> 's mstate \<Rightarrow> bool) option"

record rule_env =
  env_Compile :: "string \<Rightarrow> bool"
  env_MatchString :: "string \<Rightarrow> string \<Rightarrow> bool"
  env_GeodataMode :: bool
  env_InitGeoIP :: bool
  env_LoadGeoIPMatcher :: "string \<Rightarrow> (addr \<Rightarrow> bool) option"
  env_LookupCode :: "string \<Rightarrow> string list"
  env_InitASN :: bool
  env_LookupASN :: "string \<Rightarrow> string \<times> string"
  env_InitGeoSite :: bool
  env_LoadGeoSiteMatcher :: "string \<Rightarrow> (string \<Rightarrow> bool) option"
  env_GOOS :: string

definition call_helper :: "('s mstate \<Rightarrow> 's mstate) option \<Rightarrow> 's mstate \<Rightarrow> 's mstate" where
  "call_helper f st = (case f of None \<Rightarrow> st | Some f \<Rightarrow> f st)"

datatype rule_error =
    ErrPayload | ErrPayloadRange range_error | ErrDSCP range_error | ErrDSCPExceeds63
  | ErrEmptyName | ErrUnsupportedNetwork | ErrUnknownType string | ErrUidPlatform | ErrRegexp
  | ErrGeodata | ErrSourceAppType
  | ErrPayloadFormat | ErrMissingOpen | ErrMissingClose | ErrSubRuleCount | ErrNotCount
  | ErrLogicType string | ErrLogicFormat string | ErrMissingParameters string | ErrUnsupportedRule string

type_synonym rmatch = "bool \<times> string"

section \<open>Splitting the text of a rule\<close>

definition NoResolve :: string where "NoResolve = ''no-resolve''"

definition Src :: string where "Src = ''src''"

definition ParseParams :: "string list \<Rightarrow> bool \<times> bool" where
  "ParseParams params =
     (let isSrc = Src \<in> set params in (isSrc, if isSrc then True else NoResolve \<in> set params))"

definition trimArr :: "string list \<Rightarrow> string list" where
  "trimArr arr = map (\<lambda>e. Trim e '' '') arr"

definition comma_types :: "string list" where
  "comma_types = [''NOT'', ''OR'', ''AND'', ''SUB-RULE'', ''DOMAIN-REGEX'', ''PROCESS-NAME-REGEX'', ''PROCESS-PATH-REGEX'']"

text \<open>Type, payload, target and parameters.\<close>

definition ParseRulePayload :: "string \<Rightarrow> bool \<Rightarrow> string \<times> string \<times> string \<times> string list" where
  "ParseRulePayload ruleRaw needTarget =
     (let item = trimArr (Split ruleRaw CHR '','');
          tp = ToUpper (item ! 0)
      in if 1 < length item then
           (if tp = ''MATCH'' then (tp, '''', item ! 1, [])
            else if tp \<in> set comma_types then
              (let target = (if needTarget then last item else '''');
                   item = (if needTarget then butlast item else item)
               in (tp, Join (drop 1 item) CHR '','', target, []))
            else
              (tp, item ! 1,
               if 2 < length item \<and> needTarget then item ! 2 else '''',
               if 2 < length item then (if needTarget then drop 3 item else drop 2 item) else []))
         else (tp, '''', '''', []))"

section \<open>Domain rules\<close>

record Domain =
  d_domain :: string
  d_adapter :: string

definition Domain_Match :: "Domain \<Rightarrow> Metadata \<Rightarrow> rmatch" where
  "Domain_Match d m = (RuleHost m = d_domain d, d_adapter d)"

definition NewDomain :: "string \<Rightarrow> string \<Rightarrow> Domain" where
  "NewDomain domain adapter = \<lparr>d_domain = ToLower domain, d_adapter = adapter\<rparr>"

record DomainKeyword =
  dk_keyword :: string
  dk_adapter :: string

definition DomainKeyword_Match :: "DomainKeyword \<Rightarrow> Metadata \<Rightarrow> rmatch" where
  "DomainKeyword_Match dk m = (Contains (RuleHost m) (dk_keyword dk), dk_adapter dk)"

definition NewDomainKeyword :: "string \<Rightarrow> string \<Rightarrow> DomainKeyword" where
  "NewDomainKeyword keyword adapter = \<lparr>dk_keyword = ToLower keyword, dk_adapter = adapter\<rparr>"

record DomainSuffix =
  ds_suffix :: string
  ds_adapter :: string

definition DomainSuffix_Match :: "DomainSuffix \<Rightarrow> Metadata \<Rightarrow> rmatch" where
  "DomainSuffix_Match ds m =
     (let domain = RuleHost m in
      (HasSuffix domain (''.'' @ ds_suffix ds) \<or> domain = ds_suffix ds, ds_adapter ds))"

definition NewDomainSuffix :: "string \<Rightarrow> string \<Rightarrow> DomainSuffix" where
  "NewDomainSuffix suffix adapter = \<lparr>ds_suffix = ToLower suffix, ds_adapter = adapter\<rparr>"

record DomainWildcard =
  dw_pattern :: string
  dw_adapter :: string

definition DomainWildcard_Match :: "DomainWildcard \<Rightarrow> Metadata \<Rightarrow> rmatch option" where
  "DomainWildcard_Match dw m = map_option (\<lambda>b. (b, dw_adapter dw)) (Wildcard.Match (dw_pattern dw) (RuleHost m))"

definition NewDomainWildcard :: "string \<Rightarrow> string \<Rightarrow> DomainWildcard" where
  "NewDomainWildcard pattern adapter = \<lparr>dw_pattern = ToLower pattern, dw_adapter = adapter\<rparr>"

record DomainRegex =
  dr_regex :: string
  dr_adapter :: string

definition DomainRegex_Match :: "rule_env \<Rightarrow> DomainRegex \<Rightarrow> Metadata \<Rightarrow> rmatch" where
  "DomainRegex_Match E dr m = (env_MatchString E (dr_regex dr) (RuleHost m), dr_adapter dr)"

definition NewDomainRegex :: "rule_env \<Rightarrow> string \<Rightarrow> string \<Rightarrow> rule_error + DomainRegex" where
  "NewDomainRegex E regex adapter =
     (if env_Compile E regex then Inr \<lparr>dr_regex = regex, dr_adapter = adapter\<rparr> else Inl ErrRegexp)"

record GEOSITE =
  gs_country :: string
  gs_adapter :: string

definition GEOSITE_MatchDomain :: "rule_env \<Rightarrow> GEOSITE \<Rightarrow> string \<Rightarrow> bool" where
  "GEOSITE_MatchDomain E gs domain =
     (if length domain = 0 then False
      else (case env_LoadGeoSiteMatcher E (gs_country gs) of None \<Rightarrow> False | Some matcher \<Rightarrow> matcher domain))"

definition GEOSITE_Match :: "rule_env \<Rightarrow> GEOSITE \<Rightarrow> Metadata \<Rightarrow> rmatch" where
  "GEOSITE_Match E gs m = (GEOSITE_MatchDomain E gs (RuleHost m), gs_adapter gs)"

definition NewGEOSITE :: "rule_env \<Rightarrow> string \<Rightarrow> string \<Rightarrow> rule_error + GEOSITE" where
  "NewGEOSITE E country adapter =
     (if \<not> env_InitGeoSite E then Inl ErrGeodata
      else (case env_LoadGeoSiteMatcher E country of
              None \<Rightarrow> Inl ErrGeodata
            | Some _ \<Rightarrow> Inr \<lparr>gs_country = country, gs_adapter = adapter\<rparr>))"

section \<open>Address rules\<close>

record IPCIDR =
  ic_ipnet :: prefix
  ic_adapter :: string
  ic_isSourceIP :: bool
  ic_noResolveIP :: bool

definition IPCIDR_RuleType :: "IPCIDR \<Rightarrow> RuleType" where
  "IPCIDR_RuleType i = (if ic_isSourceIP i then RT_SrcIPCIDR else RT_IPCIDR)"

definition IPCIDR_Match :: "'s RuleMatchHelper \<Rightarrow> IPCIDR \<Rightarrow> 's mstate \<Rightarrow> rmatch \<times> 's mstate" where
  "IPCIDR_Match H i st =
     (let st = (if \<not> ic_noResolveIP i \<and> \<not> ic_isSourceIP i then call_helper (ResolveIP H) st else st);
          ip = (if ic_isSourceIP i then md_SrcIP (fst st) else md_DstIP (fst st))
      in ((addr_IsValid ip \<and> prefix_Contains (ic_ipnet i) ip, ic_adapter i), st))"

text \<open>The options of \<open>NewIPCIDR\<close> set the two flags.\<close>

definition NewIPCIDR :: "string \<Rightarrow> string \<Rightarrow> bool \<Rightarrow> bool \<Rightarrow> rule_error + IPCIDR" where
  "NewIPCIDR s adapter isSrc noResolve =
     (case ParsePrefix s of
        None \<Rightarrow> Inl ErrPayload
      | Some ipnet \<Rightarrow> Inr \<lparr>ic_ipnet = ipnet, ic_adapter = adapter, ic_isSourceIP = isSrc, ic_noResolveIP = noResolve\<rparr>)"

record IPSuffix =
  is_ipBytes :: string
  is_bits :: nat
  is_payload :: string
  is_adapter :: string
  is_isSourceIP :: bool
  is_noResolveIP :: bool

definition IPSuffix_RuleType :: "IPSuffix \<Rightarrow> RuleType" where
  "IPSuffix_RuleType r = (if is_isSourceIP r then RT_SrcIPSuffix else RT_IPSuffix)"

definition byte_at :: "string \<Rightarrow> int \<Rightarrow> char option" where
  "byte_at bs k = (if 0 \<le> k \<and> k < int (length bs) then Some (bs ! nat k) else None)"

fun suffix_bytes :: "string \<Rightarrow> string \<Rightarrow> nat \<Rightarrow> bool option" where
  "suffix_bytes a b 0 = Some True"
| "suffix_bytes a b (Suc i) = do {
     x \<leftarrow> byte_at a (int (length b) - int (Suc i));
     y \<leftarrow> byte_at b (int (length b) - int (Suc i));
     if x \<noteq> y then Some False else suffix_bytes a b i }"

definition shl8 :: "char \<Rightarrow> nat \<Rightarrow> 8 word" where
  "shl8 c n = push_bit n (of_nat (of_char c))"

definition IPSuffix_Match :: "'s RuleMatchHelper \<Rightarrow> IPSuffix \<Rightarrow> 's mstate \<Rightarrow> (rmatch \<times> 's mstate) option" where
  "IPSuffix_Match H r st =
     (let st = (if \<not> is_noResolveIP r \<and> \<not> is_isSourceIP r then call_helper (ResolveIP H) st else st);
          ip = (if is_isSourceIP r then md_SrcIP (fst st) else md_DstIP (fst st));
          mIPBytes = addr_AsSlice ip;
          size = length mIPBytes;
          bits = is_bits r
      in if length (is_ipBytes r) \<noteq> size then Some ((False, ''''), st)
         else do {
           same \<leftarrow> suffix_bytes (is_ipBytes r) mIPBytes (bits div 8);
           if \<not> same then Some ((False, ''''), st)
           else if bits mod 8 \<noteq> 0 then do {
             x \<leftarrow> byte_at (is_ipBytes r) (int size - int (bits div 8) - 1);
             y \<leftarrow> byte_at mIPBytes (int size - int (bits div 8) - 1);
             if shl8 x (8 - bits mod 8) \<noteq> shl8 y (8 - bits mod 8) then Some ((False, ''''), st)
             else Some ((True, is_adapter r), st) }
           else Some ((True, is_adapter r), st) })"

definition NewIPSuffix :: "string \<Rightarrow> string \<Rightarrow> bool \<Rightarrow> bool \<Rightarrow> rule_error + IPSuffix" where
  "NewIPSuffix payload adapter isSrc noResolveIP =
     (case ParsePrefix payload of
        None \<Rightarrow> Inl ErrPayload
      | Some ipnet \<Rightarrow> Inr \<lparr>is_ipBytes = addr_AsSlice (pfx_ip ipnet), is_bits = nat (pfx_bits ipnet),
           is_payload = payload, is_adapter = adapter, is_isSourceIP = isSrc, is_noResolveIP = noResolveIP\<rparr>)"

record ASN =
  asn_asn :: string
  asn_adapter :: string
  asn_noResolveIP :: bool
  asn_isSourceIP :: bool

definition ASN_RuleType :: "ASN \<Rightarrow> RuleType" where
  "ASN_RuleType a = (if asn_isSourceIP a then RT_SrcIPASN else RT_IPASN)"

definition ASN_Match :: "rule_env \<Rightarrow> 's RuleMatchHelper \<Rightarrow> ASN \<Rightarrow> 's mstate \<Rightarrow> rmatch \<times> 's mstate" where
  "ASN_Match E H a st =
     (let st = (if \<not> asn_noResolveIP a \<and> \<not> asn_isSourceIP a then call_helper (ResolveIP H) st else st);
          m = fst st;
          ip = (if asn_isSourceIP a then md_SrcIP m else md_DstIP m)
      in if \<not> addr_IsValid ip then ((False, ''''), st)
         else
           (case env_LookupASN E (addr_AsSlice ip) of
              (asn, aso) \<Rightarrow>
                (let m = (if asn_isSourceIP a then m\<lparr>md_SrcIPASN := asn @ '' '' @ aso\<rparr>
                          else m\<lparr>md_DstIPASN := asn @ '' '' @ aso\<rparr>)
                 in ((asn_asn a = asn, asn_adapter a), (m, snd st)))))"

definition NewIPASN :: "rule_env \<Rightarrow> string \<Rightarrow> string \<Rightarrow> bool \<Rightarrow> bool \<Rightarrow> rule_error + ASN" where
  "NewIPASN E asn adapter isSrc noResolveIP =
     (if \<not> env_InitASN E then Inl ErrGeodata
      else Inr \<lparr>asn_asn = asn, asn_adapter = adapter, asn_noResolveIP = noResolveIP, asn_isSourceIP = isSrc\<rparr>)"

record GEOIP =
  gi_country :: string
  gi_adapter :: string
  gi_noResolveIP :: bool
  gi_isSourceIP :: bool

definition GEOIP_RuleType :: "GEOIP \<Rightarrow> RuleType" where
  "GEOIP_RuleType g = (if gi_isSourceIP g then RT_SrcGEOIP else RT_GEOIP)"

definition isLan :: "addr \<Rightarrow> bool" where
  "isLan ip \<longleftrightarrow> addr_IsPrivate ip \<or> addr_IsUnspecified ip \<or> addr_IsLoopback ip \<or> addr_IsMulticast ip
     \<or> addr_IsLinkLocalUnicast ip"

definition geo_codes :: "GEOIP \<Rightarrow> Metadata \<Rightarrow> string list option" where
  "geo_codes g m = (if gi_isSourceIP g then md_SrcGeoIP m else md_DstGeoIP m)"

definition set_geo_codes :: "GEOIP \<Rightarrow> string list \<Rightarrow> Metadata \<Rightarrow> Metadata" where
  "set_geo_codes g codes m =
     (if gi_isSourceIP g then m\<lparr>md_SrcGeoIP := Some codes\<rparr> else m\<lparr>md_DstGeoIP := Some codes\<rparr>)"

text \<open>\<open>slices.Contains\<close> and \<open>append\<close> on a slice that can be nil.\<close>

definition nil_list :: "'a list option \<Rightarrow> 'a list" where
  "nil_list xs = (case xs of None \<Rightarrow> [] | Some xs \<Rightarrow> xs)"

definition GEOIP_Match :: "rule_env \<Rightarrow> 's RuleMatchHelper \<Rightarrow> GEOIP \<Rightarrow> 's mstate \<Rightarrow> rmatch \<times> 's mstate" where
  "GEOIP_Match E H g st =
     (let st = (if \<not> gi_noResolveIP g \<and> \<not> gi_isSourceIP g then call_helper (ResolveIP H) st else st);
          m = fst st;
          ip = (if gi_isSourceIP g then md_SrcIP m else md_DstIP m)
      in if \<not> addr_IsValid ip then ((False, ''''), st)
         else if gi_country g = ''lan'' then ((isLan ip, gi_adapter g), st)
         else if env_GeodataMode E then
           (if gi_country g \<in> set (nil_list (geo_codes g m)) then ((True, gi_adapter g), st)
            else
              (case env_LoadGeoIPMatcher E (gi_country g) of
                 None \<Rightarrow> ((False, ''''), st)
               | Some matcher \<Rightarrow>
                   if matcher ip
                   then ((True, gi_adapter g), (set_geo_codes g (nil_list (geo_codes g m) @ [gi_country g]) m, snd st))
                   else ((False, gi_adapter g), st)))
         else
           (case geo_codes g m of
              Some codes \<Rightarrow> ((gi_country g \<in> set codes, gi_adapter g), st)
            | None \<Rightarrow>
                (let codes = env_LookupCode E (addr_AsSlice ip);
                     st = (set_geo_codes g codes m, snd st)
                 in if gi_country g \<in> set codes then ((True, gi_adapter g), st) else ((False, ''''), st))))"

definition GEOIP_MatchIp :: "rule_env \<Rightarrow> GEOIP \<Rightarrow> addr \<Rightarrow> bool" where
  "GEOIP_MatchIp E g ip =
     (if \<not> addr_IsValid ip then False
      else if gi_country g = ''lan'' then isLan ip
      else if env_GeodataMode E then
        (case env_LoadGeoIPMatcher E (gi_country g) of None \<Rightarrow> False | Some matcher \<Rightarrow> matcher ip)
      else gi_country g \<in> set (env_LookupCode E (addr_AsSlice ip)))"

definition dnsFallbackFilter_MatchIp :: "rule_env \<Rightarrow> GEOIP \<Rightarrow> addr \<Rightarrow> bool" where
  "dnsFallbackFilter_MatchIp E g ip =
     (if \<not> addr_IsValid ip then False
      else if isLan ip then False
      else if gi_country g = ''lan'' then \<not> isLan ip
      else if env_GeodataMode E then
        (case env_LoadGeoIPMatcher E (gi_country g) of None \<Rightarrow> False | Some matcher \<Rightarrow> \<not> matcher ip)
      else gi_country g \<notin> set (env_LookupCode E (addr_AsSlice ip)))"

definition NewGEOIP :: "rule_env \<Rightarrow> string \<Rightarrow> string \<Rightarrow> bool \<Rightarrow> bool \<Rightarrow> rule_error + GEOIP" where
  "NewGEOIP E country adapter isSrc noResolveIP =
     (let country = ToLower country;
          geoip = \<lparr>gi_country = country, gi_adapter = adapter, gi_noResolveIP = noResolveIP, gi_isSourceIP = isSrc\<rparr>
      in if country = ''lan'' then Inr geoip
         else if \<not> env_InitGeoIP E then Inl ErrGeodata
         else if env_GeodataMode E \<and> env_LoadGeoIPMatcher E country = None then Inl ErrGeodata
         else Inr geoip)"

section \<open>Port, DSCP and uid rules\<close>

record Port =
  p_adapter :: string
  p_port :: string
  p_ruleType :: RuleType
  p_portRanges :: "16 word IRange list"

definition Port_Match :: "Port \<Rightarrow> Metadata \<Rightarrow> rmatch" where
  "Port_Match p m =
     (let targetPort = (if p_ruleType p = RT_InPort then md_InPort m
                        else if p_ruleType p = RT_SrcPort then md_SrcPort m
                        else md_DstPort m)
      in (IntRanges_Check (p_portRanges p) targetPort, p_adapter p))"

definition NewPort :: "string \<Rightarrow> string \<Rightarrow> RuleType \<Rightarrow> rule_error + Port" where
  "NewPort port adapter ruleType =
     (case NewUnsignedRanges port of
        Inl err \<Rightarrow> Inl (ErrPayloadRange err)
      | Inr portRanges \<Rightarrow>
          if length portRanges = 0 then Inl ErrPayload
          else Inr \<lparr>p_adapter = adapter, p_port = port, p_ruleType = ruleType, p_portRanges = portRanges\<rparr>)"

record DSCP =
  dscp_ranges :: "8 word IRange list"
  dscp_payload :: string
  dscp_adapter :: string

definition DSCP_Match :: "DSCP \<Rightarrow> Metadata \<Rightarrow> rmatch" where
  "DSCP_Match d m = (IntRanges_Check (dscp_ranges d) (md_DSCP m), dscp_adapter d)"

definition NewDSCP :: "string \<Rightarrow> string \<Rightarrow> rule_error + DSCP" where
  "NewDSCP dscp adapter =
     (case NewUnsignedRanges dscp of
        Inl err \<Rightarrow> Inl (ErrDSCP err)
      | Inr ranges \<Rightarrow>
          if list_ex (\<lambda>r. 63 < rend r) ranges then Inl ErrDSCPExceeds63
          else Inr \<lparr>dscp_ranges = ranges, dscp_payload = dscp, dscp_adapter = adapter\<rparr>)"

record Uid =
  u_uids :: "32 word IRange list"
  u_oUid :: string
  u_adapter :: string

definition NewUid :: "rule_env \<Rightarrow> string \<Rightarrow> string \<Rightarrow> rule_error + Uid" where
  "NewUid E oUid adapter =
     (if \<not> (env_GOOS E = ''linux'' \<or> env_GOOS E = ''android'' \<or> env_GOOS E = ''darwin'') then Inl ErrUidPlatform
      else
        (case NewUnsignedRanges oUid of
           Inl err \<Rightarrow> Inl (ErrPayloadRange err)
         | Inr uidRange \<Rightarrow>
             if length uidRange = 0 then Inl ErrPayload
             else Inr \<lparr>u_uids = uidRange, u_oUid = oUid, u_adapter = adapter\<rparr>))"

definition Uid_Match :: "'s RuleMatchHelper \<Rightarrow> Uid \<Rightarrow> 's mstate \<Rightarrow> rmatch \<times> 's mstate" where
  "Uid_Match H u st =
     (let st = call_helper (FindProcess H) st in
      if Metadata_HasUID (fst st) \<and> IntRanges_Check (u_uids u) (md_Uid (fst st))
      then ((True, u_adapter u), st) else ((False, ''''), st))"

section \<open>Inbound, network and process rules\<close>

text \<open>
  The loop of \<open>InName\<close>, \<open>InUser\<close> and \<open>RematchName\<close> over their names, and the check of their
  payload, a list of names separated by slashes.
\<close>

definition names_match :: "'a list \<Rightarrow> string \<Rightarrow> 'a \<Rightarrow> rmatch" where
  "names_match names adapter x = (if x \<in> set names then (True, adapter) else (False, ''''))"

definition slash_names :: "string \<Rightarrow> rule_error + string list" where
  "slash_names s =
     (let names = map TrimSpace (Split s CHR ''/'') in
      if list_ex (\<lambda>n. length n = 0) names then Inl ErrEmptyName else Inr names)"

record InName =
  inn_names :: "string list"
  inn_adapter :: string
  inn_payload :: string

definition InName_Match :: "InName \<Rightarrow> Metadata \<Rightarrow> rmatch" where
  "InName_Match u m = names_match (inn_names u) (inn_adapter u) (md_InName m)"

definition NewInName :: "string \<Rightarrow> string \<Rightarrow> rule_error + InName" where
  "NewInName iNames adapter =
     rbind (slash_names iNames) (\<lambda>names. Inr \<lparr>inn_names = names, inn_adapter = adapter, inn_payload = iNames\<rparr>)"

record InUser =
  inu_users :: "string list"
  inu_adapter :: string
  inu_payload :: string

definition InUser_Match :: "InUser \<Rightarrow> Metadata \<Rightarrow> rmatch" where
  "InUser_Match u m = names_match (inu_users u) (inu_adapter u) (md_InUser m)"

definition NewInUser :: "string \<Rightarrow> string \<Rightarrow> rule_error + InUser" where
  "NewInUser iUsers adapter =
     rbind (slash_names iUsers) (\<lambda>users. Inr \<lparr>inu_users = users, inu_adapter = adapter, inu_payload = iUsers\<rparr>)"

record RematchName =
  rn_names :: "string list"
  rn_adapter :: string
  rn_payload :: string

definition RematchName_Match :: "RematchName \<Rightarrow> Metadata \<Rightarrow> rmatch" where
  "RematchName_Match u m = names_match (rn_names u) (rn_adapter u) (md_RematchName m)"

definition NewRematchName :: "string \<Rightarrow> string \<Rightarrow> rule_error + RematchName" where
  "NewRematchName iNames adapter =
     rbind (slash_names iNames) (\<lambda>names. Inr \<lparr>rn_names = names, rn_adapter = adapter, rn_payload = iNames\<rparr>)"

record InType =
  int_types :: "CType list"
  int_adapter :: string
  int_payload :: string

definition InType_Match :: "InType \<Rightarrow> Metadata \<Rightarrow> rmatch" where
  "InType_Match u m = names_match (int_types u) (int_adapter u) (md_Type m)"

fun parseInTypes :: "string list \<Rightarrow> rule_error + CType list" where
  "parseInTypes [] = Inr []"
| "parseInTypes (tp # tps) =
     (let utp = ToUpper tp in
      rbind (if utp = ''SOCKS'' then Inr [SOCKS4, SOCKS5]
             else (case ParseType utp of None \<Rightarrow> Inl (ErrUnknownType utp) | Some r \<Rightarrow> Inr [r]))
        (\<lambda>r. rbind (parseInTypes tps) (\<lambda>res. Inr (r @ res))))"

definition NewInType :: "string \<Rightarrow> string \<Rightarrow> rule_error + InType" where
  "NewInType iTypes adapter =
     rbind (slash_names iTypes) (\<lambda>types.
     rbind (parseInTypes types) (\<lambda>tps.
       Inr \<lparr>int_types = tps, int_adapter = adapter, int_payload = ToUpper iTypes\<rparr>))"

record NetworkType =
  nt_network :: NetWork
  nt_adapter :: string

definition NewNetworkType :: "string \<Rightarrow> string \<Rightarrow> rule_error + NetworkType" where
  "NewNetworkType network adapter =
     (if ToUpper network = ''TCP'' then Inr \<lparr>nt_network = TCP, nt_adapter = adapter\<rparr>
      else if ToUpper network = ''UDP'' then Inr \<lparr>nt_network = UDP, nt_adapter = adapter\<rparr>
      else Inl ErrUnsupportedNetwork)"

definition NetworkType_Match :: "NetworkType \<Rightarrow> Metadata \<Rightarrow> rmatch" where
  "NetworkType_Match n m = (nt_network n = md_NetWork m, nt_adapter n)"

record Process =
  ps_pattern :: string
  ps_adapter :: string
  ps_ruleType :: RuleType
  ps_regexp :: "string option"

definition Process_Match :: "rule_env \<Rightarrow> 's RuleMatchHelper \<Rightarrow> Process \<Rightarrow> 's mstate \<Rightarrow> (rmatch \<times> 's mstate) option" where
  "Process_Match E H ps st =
     (let st = call_helper (FindProcess H) st;
          target = (if ps_ruleType ps \<in> set [RT_ProcessName, RT_ProcessNameRegex, RT_ProcessNameWildcard]
                    then md_Process (fst st) else md_ProcessPath (fst st))
      in if ps_ruleType ps \<in> set [RT_ProcessNameRegex, RT_ProcessPathRegex] then
           (case ps_regexp ps of
              None \<Rightarrow> None
            | Some rx \<Rightarrow> Some ((env_MatchString E rx target, ps_adapter ps), st))
         else if ps_ruleType ps \<in> set [RT_ProcessNameWildcard, RT_ProcessPathWildcard] then do {
           b \<leftarrow> Wildcard.Match (ToLower (ps_pattern ps)) (ToLower target);
           Some ((b, ps_adapter ps), st) }
         else Some ((EqualFold target (ps_pattern ps), ps_adapter ps), st))"

definition NewProcess :: "rule_env \<Rightarrow> string \<Rightarrow> string \<Rightarrow> RuleType \<Rightarrow> rule_error + Process" where
  "NewProcess E pattern adapter ruleType =
     (if ruleType \<in> set [RT_ProcessNameRegex, RT_ProcessPathRegex] then
        (if env_Compile E pattern
         then Inr \<lparr>ps_pattern = pattern, ps_adapter = adapter, ps_ruleType = ruleType, ps_regexp = Some pattern\<rparr>
         else Inl ErrRegexp)
      else Inr \<lparr>ps_pattern = pattern, ps_adapter = adapter, ps_ruleType = ruleType, ps_regexp = None\<rparr>)"

record SourceAppIdentity =
  sa_pattern :: string
  sa_adapter :: string
  sa_ruleType :: RuleType

definition maximumSourceAppSigningIdentifierBytes :: nat where
  "maximumSourceAppSigningIdentifierBytes = 1024"

definition maximumSourceAppTeamIdentifierBytes :: nat where
  "maximumSourceAppTeamIdentifierBytes = 256"

definition NewSourceAppIdentity :: "string \<Rightarrow> string \<Rightarrow> RuleType \<Rightarrow> rule_error + SourceAppIdentity" where
  "NewSourceAppIdentity pattern adapter ruleType =
     (case (if ruleType = RT_SourceAppSigningID then Some maximumSourceAppSigningIdentifierBytes
            else if ruleType = RT_SourceAppTeamID then Some maximumSourceAppTeamIdentifierBytes
            else None) of
        None \<Rightarrow> Inl ErrSourceAppType
      | Some limit \<Rightarrow>
          if pattern = '''' \<or> limit < length pattern \<or> char_of (0::nat) \<in> set pattern then Inl ErrPayload
          else Inr \<lparr>sa_pattern = pattern, sa_adapter = adapter, sa_ruleType = ruleType\<rparr>)"

definition SourceAppIdentity_Match ::
  "'s RuleMatchHelper \<Rightarrow> SourceAppIdentity \<Rightarrow> 's mstate \<Rightarrow> rmatch \<times> 's mstate" where
  "SourceAppIdentity_Match H rule st =
     (let st = (if \<not> md_SourceIdentityKnown (fst st) then call_helper (FindProcess H) st else st) in
      case (if sa_ruleType rule = RT_SourceAppSigningID then Some (md_SourceAppSigningIdentifier (fst st))
            else if sa_ruleType rule = RT_SourceAppTeamID then Some (md_SourceAppTeamIdentifier (fst st))
            else None) of
        None \<Rightarrow> ((False, ''''), st)
      | Some actual \<Rightarrow>
          if actual = sa_pattern rule then ((True, sa_adapter rule), st) else ((False, ''''), st))"

record MatchRule = f_adapter :: string

definition Final_Match :: "MatchRule \<Rightarrow> rmatch" where
  "Final_Match f = (True, f_adapter f)"

definition NewMatch :: "string \<Rightarrow> MatchRule" where
  "NewMatch adapter = \<lparr>f_adapter = adapter\<rparr>"
end
