(* ===== verification/Rules_Logic.thy ===== *)
theory Rules_Logic
  imports Rules_Common "HOL-Library.AList"
begin

text \<open>
  The rule interface with its implementations as the datatype \<open>Rule\<close>, the logic rules of
  \<open>src/rules/logic/logic.go\<close>, the rule sets of \<open>src/rules/provider\<close>, and matching. The map of
  sub-rules that every sub-rule of a configuration shares and the rule providers of the tunnel
  are arguments of the match. A chain of sub-rules and rule sets may be endless, so a match has
  fuel, which a call of \<open>matchSubRules\<close> or of a classical rule set uses up; \<open>None\<close> means that the
  fuel was not enough or that the code panics.
\<close>

section \<open>Rules\<close>

record RuleSet =
  rs_ruleProviderName :: string
  rs_adapter :: string
  rs_isSrc :: bool
  rs_noResolveIP :: bool

datatype CommonRule =
    R_Domain Domain | R_DomainKeyword DomainKeyword | R_DomainSuffix DomainSuffix
  | R_DomainWildcard DomainWildcard | R_DomainRegex DomainRegex | R_GEOSITE GEOSITE
  | R_IPCIDR IPCIDR | R_IPSuffix IPSuffix | R_ASN ASN | R_GEOIP GEOIP
  | R_Port Port | R_DSCP DSCP | R_Uid Uid | R_InName InName | R_InUser InUser
  | R_RematchName RematchName | R_InType InType | R_NetworkType NetworkType | R_Process Process
  | R_SourceApp SourceAppIdentity | R_Match MatchRule

datatype Rule =
    R_Common CommonRule
  | R_RuleSet RuleSet
  | R_Logic (logic_payload: string) (logic_adapter: string) (logic_ruleType: RuleType) (logic_rules: "Rule list")

fun Common_RuleType :: "CommonRule \<Rightarrow> RuleType" where
  "Common_RuleType (R_Domain r) = RT_Domain"
| "Common_RuleType (R_DomainKeyword r) = RT_DomainKeyword"
| "Common_RuleType (R_DomainSuffix r) = RT_DomainSuffix"
| "Common_RuleType (R_DomainWildcard r) = RT_DomainWildcard"
| "Common_RuleType (R_DomainRegex r) = RT_DomainRegex"
| "Common_RuleType (R_GEOSITE r) = RT_GEOSITE"
| "Common_RuleType (R_IPCIDR r) = IPCIDR_RuleType r"
| "Common_RuleType (R_IPSuffix r) = IPSuffix_RuleType r"
| "Common_RuleType (R_ASN r) = ASN_RuleType r"
| "Common_RuleType (R_GEOIP r) = GEOIP_RuleType r"
| "Common_RuleType (R_Port r) = p_ruleType r"
| "Common_RuleType (R_DSCP r) = RT_DSCP"
| "Common_RuleType (R_Uid r) = RT_Uid"
| "Common_RuleType (R_InName r) = RT_InName"
| "Common_RuleType (R_InUser r) = RT_InUser"
| "Common_RuleType (R_RematchName r) = RT_RematchName"
| "Common_RuleType (R_InType r) = RT_InType"
| "Common_RuleType (R_NetworkType r) = RT_Network"
| "Common_RuleType (R_Process r) = ps_ruleType r"
| "Common_RuleType (R_SourceApp r) = sa_ruleType r"
| "Common_RuleType (R_Match r) = RT_MATCH"

fun Rule_RuleType :: "Rule \<Rightarrow> RuleType" where
  "Rule_RuleType (R_Common r) = Common_RuleType r"
| "Rule_RuleType (R_RuleSet r) = RT_RuleSet"
| "Rule_RuleType (R_Logic p a t rs) = t"

fun Common_Adapter :: "CommonRule \<Rightarrow> string" where
  "Common_Adapter (R_Domain r) = d_adapter r"
| "Common_Adapter (R_DomainKeyword r) = dk_adapter r"
| "Common_Adapter (R_DomainSuffix r) = ds_adapter r"
| "Common_Adapter (R_DomainWildcard r) = dw_adapter r"
| "Common_Adapter (R_DomainRegex r) = dr_adapter r"
| "Common_Adapter (R_GEOSITE r) = gs_adapter r"
| "Common_Adapter (R_IPCIDR r) = ic_adapter r"
| "Common_Adapter (R_IPSuffix r) = is_adapter r"
| "Common_Adapter (R_ASN r) = asn_adapter r"
| "Common_Adapter (R_GEOIP r) = gi_adapter r"
| "Common_Adapter (R_Port r) = p_adapter r"
| "Common_Adapter (R_DSCP r) = dscp_adapter r"
| "Common_Adapter (R_Uid r) = u_adapter r"
| "Common_Adapter (R_InName r) = inn_adapter r"
| "Common_Adapter (R_InUser r) = inu_adapter r"
| "Common_Adapter (R_RematchName r) = rn_adapter r"
| "Common_Adapter (R_InType r) = int_adapter r"
| "Common_Adapter (R_NetworkType r) = nt_adapter r"
| "Common_Adapter (R_Process r) = ps_adapter r"
| "Common_Adapter (R_SourceApp r) = sa_adapter r"
| "Common_Adapter (R_Match r) = f_adapter r"

fun Rule_Adapter :: "Rule \<Rightarrow> string" where
  "Rule_Adapter (R_Common r) = Common_Adapter r"
| "Rule_Adapter (R_RuleSet r) = rs_adapter r"
| "Rule_Adapter (R_Logic p a t rs) = a"

fun join_with :: "string \<Rightarrow> string list \<Rightarrow> string" where
  "join_with sep [] = ''''"
| "join_with sep [w] = w"
| "join_with sep (w # v # ws) = w @ sep @ join_with sep (v # ws)"

fun Common_Payload :: "CommonRule \<Rightarrow> string" where
  "Common_Payload (R_Domain r) = (d_domain r)"
| "Common_Payload (R_DomainKeyword r) = (dk_keyword r)"
| "Common_Payload (R_DomainSuffix r) = (ds_suffix r)"
| "Common_Payload (R_DomainWildcard r) = (dw_pattern r)"
| "Common_Payload (R_DomainRegex r) = (dr_regex r)"
| "Common_Payload (R_GEOSITE r) = (gs_country r)"
| "Common_Payload (R_IPCIDR r) = (prefix_String (ic_ipnet r))"
| "Common_Payload (R_IPSuffix r) = (is_payload r)"
| "Common_Payload (R_ASN r) = (asn_asn r)"
| "Common_Payload (R_GEOIP r) = (gi_country r)"
| "Common_Payload (R_Port r) = (p_port r)"
| "Common_Payload (R_DSCP r) = (dscp_payload r)"
| "Common_Payload (R_Uid r) = (u_oUid r)"
| "Common_Payload (R_InName r) = (inn_payload r)"
| "Common_Payload (R_InUser r) = (inu_payload r)"
| "Common_Payload (R_RematchName r) = (rn_payload r)"
| "Common_Payload (R_InType r) = (int_payload r)"
| "Common_Payload (R_NetworkType r) = (NetWork_String (nt_network r))"
| "Common_Payload (R_Process r) = (ps_pattern r)"
| "Common_Payload (R_SourceApp r) = (sa_pattern r)"
| "Common_Payload (R_Match r) = ''''"

text \<open>The payload as it is shown; \<open>None\<close> is the panic of a \<open>NOT\<close> without a rule.\<close>

fun Rule_Payload :: "Rule \<Rightarrow> string option" where
  "Rule_Payload (R_Common r) = Some (Common_Payload r)"
| "Rule_Payload (R_RuleSet r) = Some (rs_ruleProviderName r)"
| "Rule_Payload (R_Logic p a t rs) =
     (case those (map (\<lambda>r. map_option (\<lambda>q. RuleType_String (Rule_RuleType r) @ '','' @ q) (Rule_Payload r)) rs) of
        None \<Rightarrow> None
      | Some ps \<Rightarrow>
          if t = RT_NOT then (case ps of [] \<Rightarrow> None | q # _ \<Rightarrow> Some (''(!('' @ q @ ''))''))
          else if t = RT_OR then Some (''('' @ join_with '' || '' (map (\<lambda>q. ''('' @ q @ '')'') ps) @ '')'')
          else if t = RT_AND then Some (''('' @ join_with '' && '' (map (\<lambda>q. ''('' @ q @ '')'') ps) @ '')'')
          else Some p)"

fun ProviderNames :: "Rule \<Rightarrow> string list" where
  "ProviderNames (R_RuleSet r) = [rs_ruleProviderName r]"
| "ProviderNames (R_Logic p a t rs) = concat (map ProviderNames rs)"
| "ProviderNames r = []"

section \<open>Matching\<close>

datatype ruleStrategy =
    domainStrategy "string \<Rightarrow> bool" | ipcidrStrategy "addr \<Rightarrow> bool" | classicalStrategy "Rule list"

type_synonym sub_rules = "(string \<times> Rule list) list"

type_synonym rule_providers = "(string \<times> ruleStrategy) list"

definition sub_rules_of :: "sub_rules \<Rightarrow> string \<Rightarrow> Rule list" where
  "sub_rules_of S name = (case map_of S name of None \<Rightarrow> [] | Some rs \<Rightarrow> rs)"

definition pass_rule :: "'s RuleMatchHelper \<Rightarrow> string \<Rightarrow> 's mstate \<Rightarrow> bool" where
  "pass_rule H a st \<longleftrightarrow> a = ''PASS-RULE'' \<or> (case CheckPassRule H of None \<Rightarrow> False | Some f \<Rightarrow> f a st)"

text \<open>What \<open>RuleSet.Match\<close> does to the metadata and the helper before it asks the provider.\<close>

definition rule_set_enter :: "RuleSet \<Rightarrow> 's RuleMatchHelper \<Rightarrow> 's mstate \<Rightarrow> 's RuleMatchHelper \<times> 's mstate" where
  "rule_set_enter r H st =
     (if rs_isSrc r then (H\<lparr>ResolveIP := None\<rparr>, (SwapSrcDst (fst st), snd st))
      else if rs_noResolveIP r then (H\<lparr>ResolveIP := None\<rparr>, st)
      else (H, st))"

definition rule_set_leave :: "RuleSet \<Rightarrow> 's mstate \<Rightarrow> 's mstate" where
  "rule_set_leave r st = (if rs_isSrc r then (SwapSrcDst (fst st), snd st) else st)"

fun Common_Match :: "rule_env \<Rightarrow> 's RuleMatchHelper \<Rightarrow> CommonRule \<Rightarrow> 's mstate \<Rightarrow> (rmatch \<times> 's mstate) option" where
  "Common_Match E H (R_Domain r) st = Some (Domain_Match r (fst st), st)"
| "Common_Match E H (R_DomainKeyword r) st = Some (DomainKeyword_Match r (fst st), st)"
| "Common_Match E H (R_DomainSuffix r) st = Some (DomainSuffix_Match r (fst st), st)"
| "Common_Match E H (R_DomainWildcard r) st = map_option (\<lambda>b. (b, st)) (DomainWildcard_Match r (fst st))"
| "Common_Match E H (R_DomainRegex r) st = Some (DomainRegex_Match E r (fst st), st)"
| "Common_Match E H (R_GEOSITE r) st = Some (GEOSITE_Match E r (fst st), st)"
| "Common_Match E H (R_IPCIDR r) st = Some (IPCIDR_Match H r st)"
| "Common_Match E H (R_IPSuffix r) st = IPSuffix_Match H r st"
| "Common_Match E H (R_ASN r) st = Some (ASN_Match E H r st)"
| "Common_Match E H (R_GEOIP r) st = Some (GEOIP_Match E H r st)"
| "Common_Match E H (R_Port r) st = Some (Port_Match r (fst st), st)"
| "Common_Match E H (R_DSCP r) st = Some (DSCP_Match r (fst st), st)"
| "Common_Match E H (R_Uid r) st = Some (Uid_Match H r st)"
| "Common_Match E H (R_InName r) st = Some (InName_Match r (fst st), st)"
| "Common_Match E H (R_InUser r) st = Some (InUser_Match r (fst st), st)"
| "Common_Match E H (R_RematchName r) st = Some (RematchName_Match r (fst st), st)"
| "Common_Match E H (R_InType r) st = Some (InType_Match r (fst st), st)"
| "Common_Match E H (R_NetworkType r) st = Some (NetworkType_Match r (fst st), st)"
| "Common_Match E H (R_Process r) st = Process_Match E H r st"
| "Common_Match E H (R_SourceApp r) st = Some (SourceAppIdentity_Match H r st)"
| "Common_Match E H (R_Match r) st = Some (Final_Match r, st)"

text \<open>The loops over a list of rules, with the match of one rule as argument.\<close>

type_synonym 's rule_match = "Rule \<Rightarrow> 's mstate \<Rightarrow> (rmatch \<times> 's mstate) option"

fun any_rule :: "'s rule_match \<Rightarrow> Rule list \<Rightarrow> 's mstate \<Rightarrow> (bool \<times> 's mstate) option" where
  "any_rule match [] st = Some (False, st)"
| "any_rule match (rule # rules) st = do {
     ((m, _), st) \<leftarrow> match rule st;
     if m then Some (True, st) else any_rule match rules st }"

fun all_rules :: "'s rule_match \<Rightarrow> Rule list \<Rightarrow> 's mstate \<Rightarrow> (bool \<times> 's mstate) option" where
  "all_rules match [] st = Some (True, st)"
| "all_rules match (rule # rules) st = do {
     ((m, _), st) \<leftarrow> match rule st;
     if \<not> m then Some (False, st) else all_rules match rules st }"

fun sub_rules_loop :: "'s RuleMatchHelper \<Rightarrow> 's rule_match \<Rightarrow> (string \<Rightarrow> 's mstate \<Rightarrow> (rmatch \<times> 's mstate) option)
      \<Rightarrow> Rule list \<Rightarrow> 's mstate \<Rightarrow> (rmatch \<times> 's mstate) option" where
  "sub_rules_loop H match nested [] st = Some ((False, ''''), st)"
| "sub_rules_loop H match nested (rule # rules) st = do {
     ((m, a), st) \<leftarrow> match rule st;
     if m then do {
       ((m, a), st) \<leftarrow> (if Rule_RuleType rule = RT_SubRules then nested (Rule_Adapter rule) st
                         else Some ((m, a), st));
       if m \<and> pass_rule H a st then sub_rules_loop H match nested rules st
       else Some ((m, a), st) }
     else sub_rules_loop H match nested rules st }"

lemma any_rule_cong [fundef_cong]:
  assumes "rs = rs'" "st = st'" "\<And>r s. r \<in> set rs' \<Longrightarrow> f r s = g r s"
  shows "any_rule f rs st = any_rule g rs' st'"
  using assms(3) unfolding assms(1,2)
proof (induction rs' arbitrary: st')
  case (Cons r rs)
  then have "any_rule f rs = any_rule g rs" "f r = g r" by auto
  then show ?case by (simp only: any_rule.simps)
qed simp

lemma all_rules_cong [fundef_cong]:
  assumes "rs = rs'" "st = st'" "\<And>r s. r \<in> set rs' \<Longrightarrow> f r s = g r s"
  shows "all_rules f rs st = all_rules g rs' st'"
  using assms(3) unfolding assms(1,2)
proof (induction rs' arbitrary: st')
  case (Cons r rs)
  then have "all_rules f rs = all_rules g rs" "f r = g r" by auto
  then show ?case by (simp only: all_rules.simps)
qed simp

text \<open>One rule, with the calls that leave its tree of rules as arguments: \<open>sub\<close> is
  \<open>matchSubRules\<close> and \<open>classical\<close> the match of a classical provider.\<close>

definition Strategy_Match :: "('s RuleMatchHelper \<Rightarrow> Rule list \<Rightarrow> 's mstate \<Rightarrow> (bool \<times> 's mstate) option)
      \<Rightarrow> 's RuleMatchHelper \<Rightarrow> ruleStrategy \<Rightarrow> 's mstate \<Rightarrow> (bool \<times> 's mstate) option" where
  "Strategy_Match classical H strategy st =
     (case strategy of
        domainStrategy has \<Rightarrow> Some (has (RuleHost (fst st)), st)
      | ipcidrStrategy isContain \<Rightarrow>
          (let st = call_helper (ResolveIP H) st in Some (isContain (md_DstIP (fst st)), st))
      | classicalStrategy rules \<Rightarrow> classical H rules st)"

definition RuleSet_Match :: "rule_providers \<Rightarrow> ('s RuleMatchHelper \<Rightarrow> Rule list \<Rightarrow> 's mstate \<Rightarrow> (bool \<times> 's mstate) option)
      \<Rightarrow> 's RuleMatchHelper \<Rightarrow> RuleSet \<Rightarrow> 's mstate \<Rightarrow> (rmatch \<times> 's mstate) option" where
  "RuleSet_Match P classical H r st =
     (case map_of P (rs_ruleProviderName r) of
        None \<Rightarrow> Some ((False, ''''), st)
      | Some provider \<Rightarrow>
          (case rule_set_enter r H st of
             (H, st) \<Rightarrow> do {
               (m, st) \<leftarrow> Strategy_Match classical H provider st;
               Some ((m, rs_adapter r), rule_set_leave r st) }))"

fun Match_one :: "rule_env \<Rightarrow> rule_providers
      \<Rightarrow> ('s RuleMatchHelper \<Rightarrow> string \<Rightarrow> 's mstate \<Rightarrow> (rmatch \<times> 's mstate) option)
      \<Rightarrow> ('s RuleMatchHelper \<Rightarrow> Rule list \<Rightarrow> 's mstate \<Rightarrow> (bool \<times> 's mstate) option)
      \<Rightarrow> 's RuleMatchHelper \<Rightarrow> 's rule_match" where
  "Match_one E P sub classical H (R_Common r) st = Common_Match E H r st"
| "Match_one E P sub classical H (R_RuleSet r) st = RuleSet_Match P classical H r st"
| "Match_one E P sub classical H (R_Logic p a t rs) st =
     (if t = RT_SubRules then
        (case rs of
           [] \<Rightarrow> None
         | r # _ \<Rightarrow> do {
             ((m, _), st) \<leftarrow> Match_one E P sub classical H r st;
             if m then sub H a st else Some ((False, ''''), st) })
      else if t = RT_NOT then
        (case rs of
           [] \<Rightarrow> None
         | r # _ \<Rightarrow> do {
             ((m, _), st) \<leftarrow> Match_one E P sub classical H r st;
             if \<not> m then Some ((True, a), st) else Some ((False, ''''), st) })
      else if t = RT_OR then do {
        (m, st) \<leftarrow> any_rule (\<lambda>r s. Match_one E P sub classical H r s) rs st;
        if m then Some ((True, a), st) else Some ((False, ''''), st) }
      else if t = RT_AND then do {
        (m, st) \<leftarrow> all_rules (\<lambda>r s. Match_one E P sub classical H r s) rs st;
        Some ((m, a), st) }
      else Some ((False, ''''), st))"

text \<open>The knot, tied by fuel.\<close>

fun matchSubRules :: "rule_env \<Rightarrow> sub_rules \<Rightarrow> rule_providers \<Rightarrow> nat \<Rightarrow> 's RuleMatchHelper \<Rightarrow> string \<Rightarrow> 's mstate
      \<Rightarrow> (rmatch \<times> 's mstate) option"
  and Classical_Match :: "rule_env \<Rightarrow> sub_rules \<Rightarrow> rule_providers \<Rightarrow> nat \<Rightarrow> 's RuleMatchHelper \<Rightarrow> Rule list \<Rightarrow> 's mstate
      \<Rightarrow> (bool \<times> 's mstate) option" where
  "matchSubRules E S P 0 H name st = None"
| "matchSubRules E S P (Suc n) H name st =
     sub_rules_loop H (Match_one E P (\<lambda>H name st. matchSubRules E S P n H name st) (\<lambda>H rs st. Classical_Match E S P n H rs st) H)
       (\<lambda>name st. matchSubRules E S P n H name st) (sub_rules_of S name) st"
| "Classical_Match E S P 0 H rules st = None"
| "Classical_Match E S P (Suc n) H rules st =
     any_rule (Match_one E P (\<lambda>H name st. matchSubRules E S P n H name st) (\<lambda>H rs st. Classical_Match E S P n H rs st) H) rules st"

definition Rule_Match :: "rule_env \<Rightarrow> sub_rules \<Rightarrow> rule_providers \<Rightarrow> nat \<Rightarrow> 's RuleMatchHelper \<Rightarrow> 's rule_match" where
  "Rule_Match E S P n H rule st =
     Match_one E P (\<lambda>H name st. matchSubRules E S P n H name st) (\<lambda>H rs st. Classical_Match E S P n H rs st) H rule st"

section \<open>Logic rules from their payload\<close>

record Range =
  rg_start :: nat
  rg_end :: nat

definition containRange :: "Range \<Rightarrow> nat \<Rightarrow> nat \<Rightarrow> bool" where
  "containRange r preStart preEnd \<longleftrightarrow> preStart < rg_start r \<and> preEnd > rg_end r"

type_synonym ParseRuleFunc = "string \<Rightarrow> string \<Rightarrow> string \<Rightarrow> string list \<Rightarrow> rule_error + Rule"

definition payloadToRule :: "string \<Rightarrow> ParseRuleFunc \<Rightarrow> rule_error + Rule" where
  "payloadToRule subPayload parseRule =
     (case ParseRulePayload subPayload False of
        (tp, payload, target, param) \<Rightarrow>
          if tp = ''MATCH'' \<or> tp = ''SUB-RULE'' then Inl (ErrLogicType tp)
          else if tp = '''' then Inl (ErrLogicFormat subPayload)
          else parseRule tp payload target param)"

fun format_loop :: "nat \<Rightarrow> string \<Rightarrow> nat list \<Rightarrow> Range list \<Rightarrow> rule_error + nat list \<times> Range list" where
  "format_loop i [] stack subRanges = Inr (stack, subRanges)"
| "format_loop i (c # cs) stack subRanges =
     (if c = CHR ''('' then format_loop (i + 1) cs (i # stack) subRanges
      else if c = CHR '')'' then
        (case stack of
           [] \<Rightarrow> Inl ErrMissingOpen
         | start # stack \<Rightarrow>
             format_loop (i + 1) cs stack (subRanges @ [\<lparr>rg_start = start, rg_end = i\<rparr>]))
      else format_loop (i + 1) cs stack subRanges)"

definition format :: "string \<Rightarrow> rule_error + Range list" where
  "format payload =
     (case format_loop 0 payload [] [] of
        Inl e \<Rightarrow> Inl e
      | Inr (stack, subRanges) \<Rightarrow>
          if stack \<noteq> [] then Inl ErrMissingClose else Inr (sort_key rg_start subRanges))"

fun find_loop :: "nat \<Rightarrow> Range list \<Rightarrow> Range list \<Rightarrow> Range list" where
  "find_loop payloadLen subRuleRange [] = subRuleRange"
| "find_loop payloadLen subRuleRange (rr # ruleRanges) =
     (if rg_start rr = 0 \<and> int (rg_end rr) = int payloadLen - 1
      then find_loop payloadLen subRuleRange ruleRanges
      else if list_ex (\<lambda>r. containRange rr (rg_start r) (rg_end r)) subRuleRange
      then find_loop payloadLen subRuleRange ruleRanges
      else find_loop payloadLen (subRuleRange @ [rr]) ruleRanges)"

definition findSubRuleRange :: "string \<Rightarrow> Range list \<Rightarrow> Range list" where
  "findSubRuleRange payload ruleRanges = find_loop (length payload) [] ruleRanges"

definition sub_payload :: "string \<Rightarrow> Range \<Rightarrow> string" where
  "sub_payload payload r = take (rg_end r - (rg_start r + 1)) (drop (rg_start r + 1) payload)"

fun parse_all :: "ParseRuleFunc \<Rightarrow> string list \<Rightarrow> rule_error + Rule list" where
  "parse_all parseRule [] = Inr []"
| "parse_all parseRule (p # ps) =
     (case payloadToRule p parseRule of
        Inl e \<Rightarrow> Inl e
      | Inr r \<Rightarrow> (case parse_all parseRule ps of Inl e \<Rightarrow> Inl e | Inr rs \<Rightarrow> Inr (r # rs)))"

definition parsePayload :: "string \<Rightarrow> ParseRuleFunc \<Rightarrow> rule_error + Rule list" where
  "parsePayload payload parseRule =
     (if \<not> HasPrefix payload ''('' \<or> \<not> HasSuffix payload '')'' then Inl ErrPayloadFormat
      else (case format payload of
              Inl e \<Rightarrow> Inl e
            | Inr subAllRanges \<Rightarrow>
                parse_all parseRule (map (sub_payload payload) (findSubRuleRange payload subAllRanges))))"

definition NewSubRule :: "string \<Rightarrow> string \<Rightarrow> ParseRuleFunc \<Rightarrow> rule_error + Rule" where
  "NewSubRule payload adapter parseRule =
     (case parsePayload (''('' @ payload @ '')'') parseRule of
        Inl e \<Rightarrow> Inl e
      | Inr rules \<Rightarrow> if length rules \<noteq> 1 then Inl ErrSubRuleCount
                     else Inr (R_Logic payload adapter RT_SubRules rules))"

definition NewNOT :: "string \<Rightarrow> string \<Rightarrow> ParseRuleFunc \<Rightarrow> rule_error + Rule" where
  "NewNOT payload adapter parseRule =
     (case parsePayload payload parseRule of
        Inl e \<Rightarrow> Inl e
      | Inr rules \<Rightarrow> if length rules \<noteq> 1 then Inl ErrNotCount
                     else Inr (R_Logic payload adapter RT_NOT rules))"

definition NewOR :: "string \<Rightarrow> string \<Rightarrow> ParseRuleFunc \<Rightarrow> rule_error + Rule" where
  "NewOR payload adapter parseRule =
     (case parsePayload payload parseRule of
        Inl e \<Rightarrow> Inl e
      | Inr rules \<Rightarrow> Inr (R_Logic payload adapter RT_OR rules))"

definition NewAND :: "string \<Rightarrow> string \<Rightarrow> ParseRuleFunc \<Rightarrow> rule_error + Rule" where
  "NewAND payload adapter parseRule =
     (case parsePayload payload parseRule of
        Inl e \<Rightarrow> Inl e
      | Inr rules \<Rightarrow> Inr (R_Logic payload adapter RT_AND rules))"

definition NewRuleSet :: "string \<Rightarrow> string \<Rightarrow> bool \<Rightarrow> bool \<Rightarrow> RuleSet" where
  "NewRuleSet ruleProviderName adapter isSrc noResolveIP =
     \<lparr>rs_ruleProviderName = ruleProviderName, rs_adapter = adapter, rs_isSrc = isSrc, rs_noResolveIP = noResolveIP\<rparr>"

text \<open>The matcher interfaces of a rule set, as its DNS users call them.\<close>

definition no_helper :: "'s RuleMatchHelper" where
  "no_helper = \<lparr>ResolveIP = None, FindProcess = None, CheckPassRule = None\<rparr>"

definition RuleSet_MatchDomain :: "rule_providers \<Rightarrow> (unit RuleMatchHelper \<Rightarrow> Rule list \<Rightarrow> unit mstate \<Rightarrow> (bool \<times> unit mstate) option)
      \<Rightarrow> RuleSet \<Rightarrow> string \<Rightarrow> bool option" where
  "RuleSet_MatchDomain P classical rs domain =
     map_option (\<lambda>((ok, _), _). ok) (RuleSet_Match P classical no_helper rs (zero_Metadata\<lparr>md_Host := domain\<rparr>, ()))"

definition RuleSet_MatchIp :: "rule_providers \<Rightarrow> (unit RuleMatchHelper \<Rightarrow> Rule list \<Rightarrow> unit mstate \<Rightarrow> (bool \<times> unit mstate) option)
      \<Rightarrow> RuleSet \<Rightarrow> addr \<Rightarrow> bool option" where
  "RuleSet_MatchIp P classical rs ip =
     map_option (\<lambda>((ok, _), _). ok) (RuleSet_Match P classical no_helper rs (zero_Metadata\<lparr>md_DstIP := ip\<rparr>, ()))"
end
