(* ===== verification/Rule_Parser.thy ===== *)
theory Rule_Parser
  imports Rules_Logic
begin

text \<open>
  \<open>ParseRule\<close> of \<open>src/rules/parser.go\<close>. A logic rule parses its sub-rules with \<open>ParseRule\<close> again;
  the payload of a sub-rule is shorter than the payload of the rule, so the recursion ends.
\<close>

section \<open>Lengths of payloads\<close>

lemma length_Trim: "length (Trim s cs) \<le> length s"
  by (simp add: Trim_def length_trim_by)

lemma length_Split: "sum_list (map (\<lambda>w. length w + 1) (Split s sep)) = length s + 1"
  by (induction s sep rule: Split.induct) (auto split: list.splits)

lemma length_Join: "ws \<noteq> [] \<Longrightarrow> length (Join ws sep) + 1 = sum_list (map (\<lambda>w. length w + 1) ws)"
  by (induction ws sep rule: Join.induct) auto

lemma length_trimArr: "sum_list (map (\<lambda>w. length w + 1) (trimArr ws)) \<le> sum_list (map (\<lambda>w. length w + 1) ws)"
  unfolding trimArr_def by (induction ws) (auto intro: add_mono length_Trim)

lemma trimArr_simps [simp]: "length (trimArr ws) = length ws" "trimArr ws = [] \<longleftrightarrow> ws = []"
  by (auto simp: trimArr_def)

lemma ParseRulePayload_shorter:
  assumes "ParseRulePayload s False = (tp, payload, target, params)" and "payload \<noteq> ''''"
  shows "length payload < length s"
proof -
  define item where "item = trimArr (Split s CHR '','')"
  have sum: "sum_list (map (\<lambda>w. length w + 1) item) \<le> length s + 1"
    using length_trimArr[of "Split s CHR '',''"] length_Split[of s "CHR '',''"] by (simp add: item_def)
  have "payload = Join (drop 1 item) CHR '','' \<or> payload = item ! 1" and "1 < length item"
    using assms unfolding ParseRulePayload_def item_def[symmetric] Let_def by (auto split: if_splits)
  then obtain a b ws where it: "item = a # b # ws"
    by (metis One_nat_def Suc_length_conv Suc_less_eq2 length_Cons less_Suc_eq_0_disj list.exhaust list.size(3) nat_neq_iff not_less_zero)
  have "length payload + 1 \<le> sum_list (map (\<lambda>w. length w + 1) (b # ws))"
    using \<open>payload = _ \<or> _\<close> length_Join[of "b # ws" "CHR '',''"] by (auto simp: it)
  then show ?thesis using sum by (simp add: it)
qed

lemma format_loop_bound:
  assumes "format_loop i cs stack rs = Inr (stack', rs')" and "\<forall>r \<in> set rs. rg_end r < i + length cs"
  shows "\<forall>r \<in> set rs'. rg_end r < i + length cs"
  using assms
proof (induction i cs stack rs rule: format_loop.induct)
  case (2 i c cs stack rs)
  then show ?case by (auto split: if_splits list.splits)
qed simp

lemma format_bound: "format payload = Inr rs \<Longrightarrow> r \<in> set rs \<Longrightarrow> rg_end r < length payload"
  unfolding format_def using format_loop_bound[of 0 payload "[]" "[]"] by (auto split: sum.splits if_splits)

lemma find_loop_subset: "set (find_loop n acc rs) \<subseteq> set acc \<union> set rs"
  by (induction n acc rs rule: find_loop.induct) auto

lemma sub_payload_length: "rg_end r < n \<Longrightarrow> length (sub_payload p r) \<le> n - 2"
  by (simp add: sub_payload_def)

lemma parse_all_cong:
  assumes "\<And>p. p \<in> set ps \<Longrightarrow> payloadToRule p f = payloadToRule p g"
  shows "parse_all f ps = parse_all g ps"
  using assms by (induction ps) (auto split: sum.splits)

lemma parsePayload_cong [fundef_cong]:
  assumes "p = p'" and eq: "\<And>tp q t ps. q = '''' \<or> length q + 2 < length p' \<Longrightarrow> f tp q t ps = g tp q t ps"
  shows "parsePayload p f = parsePayload p' g"
proof -
  have "payloadToRule (sub_payload p' r) f = payloadToRule (sub_payload p' r) g"
    if fm: "format p' = Inr rs" and r: "r \<in> set (findSubRuleRange p' rs)" for r rs
  proof -
    have "rg_end r < length p'"
      using format_bound[OF fm] r find_loop_subset[of "length p'" "[]" rs] by (auto simp: findSubRuleRange_def)
    then have len: "length (sub_payload p' r) \<le> length p' - 2" by (rule sub_payload_length)
    obtain tp q t ps where q: "ParseRulePayload (sub_payload p' r) False = (tp, q, t, ps)" by (metis prod_cases4)
    then have "q = '''' \<or> length q + 2 < length p'"
      using ParseRulePayload_shorter[OF q] len by linarith
    then show ?thesis by (simp add: payloadToRule_def q eq)
  qed
  then show ?thesis
    unfolding parsePayload_def \<open>p = p'\<close> by (auto split: sum.splits intro!: parse_all_cong)
qed

lemma NewSubRule_cong [fundef_cong]:
  assumes "p = p'" "a = a'" and eq: "\<And>tp q t ps. q = '''' \<or> length q < length p' \<Longrightarrow> f tp q t ps = g tp q t ps"
  shows "NewSubRule p a f = NewSubRule p' a' g"
  unfolding NewSubRule_def assms(1,2)
  using parsePayload_cong[OF refl, of "''('' @ p' @ '')''" f g] eq by auto

lemma NewLogic_cong [fundef_cong]:
  assumes "p = p'" "a = a'" and eq: "\<And>tp q t ps. q = '''' \<or> length q < length p' \<Longrightarrow> f tp q t ps = g tp q t ps"
  shows "NewNOT p a f = NewNOT p' a' g" "NewOR p a f = NewOR p' a' g" "NewAND p a f = NewAND p' a' g"
proof -
  have "parsePayload p' f = parsePayload p' g" by (rule parsePayload_cong[OF refl]) (auto intro!: eq)
  then show "NewNOT p a f = NewNOT p' a' g" "NewOR p a f = NewOR p' a' g" "NewAND p a f = NewAND p' a' g"
    by (simp_all add: NewNOT_def NewOR_def NewAND_def assms(1,2))
qed

section \<open>ParseRule\<close>

definition lift_rule :: "('r \<Rightarrow> CommonRule) \<Rightarrow> rule_error + 'r \<Rightarrow> rule_error + Rule" where
  "lift_rule C x = (case x of Inl e \<Rightarrow> Inl e | Inr r \<Rightarrow> Inr (R_Common (C r)))"

text \<open>The rule types of \<open>rules/common\<close>; \<open>None\<close> for a type that is none of them.\<close>

definition ParseCommonRule :: "rule_env \<Rightarrow> string \<Rightarrow> string \<Rightarrow> string \<Rightarrow> string list \<Rightarrow> (rule_error + Rule) option" where
  "ParseCommonRule E tp payload target params =
     (let (isSrc, noResolve) = ParseParams params in
      if tp = ''DOMAIN'' then Some (Inr (R_Common (R_Domain (NewDomain payload target))))
      else if tp = ''DOMAIN-SUFFIX'' then Some (Inr (R_Common (R_DomainSuffix (NewDomainSuffix payload target))))
      else if tp = ''DOMAIN-KEYWORD'' then Some (Inr (R_Common (R_DomainKeyword (NewDomainKeyword payload target))))
      else if tp = ''DOMAIN-REGEX'' then Some (lift_rule R_DomainRegex (NewDomainRegex E payload target))
      else if tp = ''DOMAIN-WILDCARD'' then Some (Inr (R_Common (R_DomainWildcard (NewDomainWildcard payload target))))
      else if tp = ''GEOSITE'' then Some (lift_rule R_GEOSITE (NewGEOSITE E payload target))
      else if tp = ''GEOIP'' then Some (lift_rule R_GEOIP (NewGEOIP E payload target isSrc noResolve))
      else if tp = ''SRC-GEOIP'' then Some (lift_rule R_GEOIP (NewGEOIP E payload target True True))
      else if tp = ''IP-ASN'' then Some (lift_rule R_ASN (NewIPASN E payload target isSrc noResolve))
      else if tp = ''SRC-IP-ASN'' then Some (lift_rule R_ASN (NewIPASN E payload target True True))
      else if tp = ''IP-CIDR'' \<or> tp = ''IP-CIDR6'' then Some (lift_rule R_IPCIDR (NewIPCIDR payload target isSrc noResolve))
      else if tp = ''SRC-IP-CIDR'' then Some (lift_rule R_IPCIDR (NewIPCIDR payload target True True))
      else if tp = ''IP-SUFFIX'' then Some (lift_rule R_IPSuffix (NewIPSuffix payload target isSrc noResolve))
      else if tp = ''SRC-IP-SUFFIX'' then Some (lift_rule R_IPSuffix (NewIPSuffix payload target True True))
      else if tp = ''SRC-PORT'' then Some (lift_rule R_Port (NewPort payload target RT_SrcPort))
      else if tp = ''DST-PORT'' then Some (lift_rule R_Port (NewPort payload target RT_DstPort))
      else if tp = ''IN-PORT'' then Some (lift_rule R_Port (NewPort payload target RT_InPort))
      else if tp = ''DSCP'' then Some (lift_rule R_DSCP (NewDSCP payload target))
      else if tp = ''PROCESS-NAME'' then Some (lift_rule R_Process (NewProcess E payload target RT_ProcessName))
      else if tp = ''PROCESS-PATH'' then Some (lift_rule R_Process (NewProcess E payload target RT_ProcessPath))
      else if tp = ''PROCESS-NAME-REGEX'' then Some (lift_rule R_Process (NewProcess E payload target RT_ProcessNameRegex))
      else if tp = ''PROCESS-PATH-REGEX'' then Some (lift_rule R_Process (NewProcess E payload target RT_ProcessPathRegex))
      else if tp = ''PROCESS-NAME-WILDCARD'' then Some (lift_rule R_Process (NewProcess E payload target RT_ProcessNameWildcard))
      else if tp = ''PROCESS-PATH-WILDCARD'' then Some (lift_rule R_Process (NewProcess E payload target RT_ProcessPathWildcard))
      else if tp = ''NETWORK'' then Some (lift_rule R_NetworkType (NewNetworkType payload target))
      else if tp = ''UID'' then Some (lift_rule R_Uid (NewUid E payload target))
      else if tp = ''SOURCE-APP-SIGNING-ID'' then Some (lift_rule R_SourceApp (NewSourceAppIdentity payload target RT_SourceAppSigningID))
      else if tp = ''SOURCE-APP-TEAM-ID'' then Some (lift_rule R_SourceApp (NewSourceAppIdentity payload target RT_SourceAppTeamID))
      else if tp = ''IN-TYPE'' then Some (lift_rule R_InType (NewInType payload target))
      else if tp = ''IN-USER'' then Some (lift_rule R_InUser (NewInUser payload target))
      else if tp = ''IN-NAME'' then Some (lift_rule R_InName (NewInName payload target))
      else if tp = ''REMATCH-NAME'' then Some (lift_rule R_RematchName (NewRematchName payload target))
      else if tp = ''MATCH'' then Some (Inr (R_Common (R_Match (NewMatch target))))
      else None)"

function ParseRule :: "rule_env \<Rightarrow> string \<Rightarrow> string \<Rightarrow> string \<Rightarrow> string list \<Rightarrow> rule_error + Rule" where
  "ParseRule E tp payload target params =
     (if tp \<noteq> ''MATCH'' \<and> payload = '''' then Inl (ErrMissingParameters tp)
      else case ParseCommonRule E tp payload target params of
        Some r \<Rightarrow> r
      | None \<Rightarrow>
          if tp = ''SUB-RULE'' then NewSubRule payload target (\<lambda>tp payload target params. ParseRule E tp payload target params)
          else if tp = ''AND'' then NewAND payload target (\<lambda>tp payload target params. ParseRule E tp payload target params)
          else if tp = ''OR'' then NewOR payload target (\<lambda>tp payload target params. ParseRule E tp payload target params)
          else if tp = ''NOT'' then NewNOT payload target (\<lambda>tp payload target params. ParseRule E tp payload target params)
          else if tp = ''RULE-SET'' then
            (case ParseParams params of
               (isSrc, noResolve) \<Rightarrow> Inr (R_RuleSet (NewRuleSet payload target isSrc noResolve)))
          else Inl (ErrUnsupportedRule tp))"
  by pat_completeness auto
termination
  by (relation "measure (\<lambda>(E, tp, payload, target, params). length payload)") auto

declare ParseRule.simps [simp del]

end
