(* ===== verification/Rule_Config.thy ===== *)
theory Rule_Config
  imports Rule_Parser
begin

text \<open>
  The rules of a configuration, from \<open>src/config/config.go\<close>: the lists of rules, the sub-rules and the
  check that these refer to each other without a cycle; the classical strategy of a rule provider
  (\<open>src/rules/provider\<close>); and the wrapper with counters around the rules of the top level
  (\<open>src/rules/wrapper\<close>). The keys of a map of the code are the keys of an association list, whose
  order stands for the order in which the code happens to visit the map.
\<close>

datatype config_error =
    ErrNameEmpty | ErrSubRuleNotFound nat string string | ErrCircular "string list"
  | ErrFormatInvalid string nat string | ErrProxyNotFound string nat string string
  | ErrSubRuleTarget string nat string string | ErrParseRule string nat string rule_error
  | ErrRuleSetNotFound string nat string string

section \<open>Classical rule providers\<close>

record classical =
  cl_rules :: "Rule list"
  cl_count :: nat

definition NewClassicalStrategy :: classical where
  "NewClassicalStrategy = \<lparr>cl_rules = [], cl_count = 0\<rparr>"

definition classical_Reset :: "classical \<Rightarrow> classical" where
  "classical_Reset c = c\<lparr>cl_rules := [], cl_count := 0\<rparr>"

definition classical_payloadToRule :: "rule_env \<Rightarrow> string \<Rightarrow> rule_error + Rule" where
  "classical_payloadToRule E rule =
     (case ParseRulePayload rule False of
        (tp, payload, target, params) \<Rightarrow>
          if tp = ''MATCH'' \<or> tp = ''RULE-SET'' \<or> tp = ''SUB-RULE'' then Inl (ErrUnsupportedRule tp)
          else ParseRule E tp payload target params)"

definition classical_Insert :: "rule_env \<Rightarrow> string \<Rightarrow> classical \<Rightarrow> classical" where
  "classical_Insert E rule c =
     (case classical_payloadToRule E rule of
        Inl _ \<Rightarrow> c
      | Inr r \<Rightarrow> c\<lparr>cl_rules := cl_rules c @ [r], cl_count := cl_count c + 1\<rparr>)"

text \<open>\<open>rulesParseInline\<close> at a classical strategy.\<close>

definition rulesParseInline :: "rule_env \<Rightarrow> string list \<Rightarrow> classical \<Rightarrow> classical" where
  "rulesParseInline E rs c = fold (\<lambda>r c. if r \<noteq> '''' then classical_Insert E r c else c) rs (classical_Reset c)"

section \<open>Wrapped rules\<close>

record RuleWrapper =
  rw_Rule :: Rule
  rw_disabled :: bool
  rw_hitCount :: "64 word"
  rw_hitAt :: int
  rw_missCount :: "64 word"
  rw_missAt :: int

definition NewRuleWrapper :: "Rule \<Rightarrow> RuleWrapper" where
  "NewRuleWrapper rule =
     \<lparr>rw_Rule = rule, rw_disabled = False, rw_hitCount = 0, rw_hitAt = 0, rw_missCount = 0, rw_missAt = 0\<rparr>"

definition SetDisabled :: "bool \<Rightarrow> RuleWrapper \<Rightarrow> RuleWrapper" where
  "SetDisabled v r = r\<lparr>rw_disabled := v\<rparr>"

definition Hit :: "int \<Rightarrow> RuleWrapper \<Rightarrow> RuleWrapper" where
  "Hit now r = r\<lparr>rw_hitCount := rw_hitCount r + 1, rw_hitAt := now\<rparr>"

definition Miss :: "int \<Rightarrow> RuleWrapper \<Rightarrow> RuleWrapper" where
  "Miss now r = r\<lparr>rw_missCount := rw_missCount r + 1, rw_missAt := now\<rparr>"

text \<open>\<open>match\<close> is the match of the rule inside, \<open>now\<close> the reading of the clock.\<close>

definition RuleWrapper_Match :: "'s rule_match \<Rightarrow> int \<Rightarrow> RuleWrapper \<Rightarrow> 's mstate \<Rightarrow> (rmatch \<times> RuleWrapper \<times> 's mstate) option" where
  "RuleWrapper_Match match now r st =
     (if rw_disabled r then Some ((False, ''''), r, st)
      else do {
        ((ok, adapter), st) \<leftarrow> match (rw_Rule r) st;
        Some ((ok, adapter), if ok then Hit now r else Miss now r, st) })"

text \<open>A rule of the tunnel: wrapped on the top level, bare in a list of sub-rules.\<close>

datatype CRule = Bare Rule | Wrapped RuleWrapper

fun unwrap_rule :: "CRule \<Rightarrow> Rule" where
  "unwrap_rule (Bare r) = r"
| "unwrap_rule (Wrapped w) = rw_Rule w"

fun CRule_Match :: "'s rule_match \<Rightarrow> int \<Rightarrow> CRule \<Rightarrow> 's mstate \<Rightarrow> (rmatch \<times> CRule \<times> 's mstate) option" where
  "CRule_Match match now (Bare r) st = map_option (\<lambda>(m, st). (m, Bare r, st)) (match r st)"
| "CRule_Match match now (Wrapped w) st = map_option (\<lambda>(m, w, st). (m, Wrapped w, st)) (RuleWrapper_Match match now w st)"

section \<open>Circular references\<close>

text \<open>A loop that returns the first error.\<close>

fun first_error :: "('a \<Rightarrow> 'e option) \<Rightarrow> 'a list \<Rightarrow> 'e option" where
  "first_error f [] = None"
| "first_error f (x # xs) = (case f x of Some e \<Rightarrow> Some e | None \<Rightarrow> first_error f xs)"

lemma first_error_cong [fundef_cong]:
  assumes "xs = ys" "\<And>x. x \<in> set ys \<Longrightarrow> f x = g x"
  shows "first_error f xs = first_error g ys"
  using assms(2) unfolding assms(1) by (induction ys) (auto split: option.splits)

lemma first_error_None [simp]: "first_error f xs = None \<longleftrightarrow> (\<forall>x \<in> set xs. f x = None)"
  by (induction xs) (auto split: option.splits)

lemma first_error_Some: "first_error f xs = Some e \<Longrightarrow> \<exists>x \<in> set xs. f x = Some e"
  by (induction xs) (auto split: option.splits)

lemma names_left_less:
  assumes "map_of S a \<noteq> None" and "a \<notin> set arr"
  shows "card (fst ` set S - set (arr @ [a])) < card (fst ` set S - set arr)"
proof (rule psubset_card_mono)
  have "a \<in> fst ` set S" using assms(1) by (simp add: map_of_eq_None_iff)
  with assms(2) show "fst ` set S - set (arr @ [a]) \<subset> fst ` set S - set arr" by auto
qed simp

function verifySubRuleCircularReferences :: "string \<Rightarrow> sub_rules \<Rightarrow> string list \<Rightarrow> config_error option" where
  "verifySubRuleCircularReferences n S arr =
     first_error (\<lambda>(i, rule).
         if Rule_RuleType rule = RT_SubRules then
           (if map_of S (Rule_Adapter rule) = None then Some (ErrSubRuleNotFound i n (Rule_Adapter rule))
            else if Rule_Adapter rule \<in> set (arr @ [n]) then Some (ErrCircular (arr @ [n] @ [Rule_Adapter rule]))
            else verifySubRuleCircularReferences (Rule_Adapter rule) S (arr @ [n]))
         else None)
       (enumerate 0 (sub_rules_of S n))"
  by pat_completeness auto
termination
proof (relation "measure (\<lambda>(n, S, arr). card (fst ` set S - set (arr @ [n])))", goal_cases)
  case (2 n S arr x i rule)
  then show ?case using names_left_less[of S "Rule_Adapter rule" "arr @ [n]"] by (simp add: insert_commute)
qed simp

declare verifySubRuleCircularReferences.simps [simp del]

definition verifySubRule :: "sub_rules \<Rightarrow> config_error option" where
  "verifySubRule S = first_error (\<lambda>name. verifySubRuleCircularReferences name S []) (map fst S)"

section \<open>Rule lists\<close>

definition parse_line :: "rule_env \<Rightarrow> string list \<Rightarrow> string list \<Rightarrow> string list \<Rightarrow> string \<Rightarrow> nat \<Rightarrow> string \<Rightarrow> config_error + Rule" where
  "parse_line E proxies ruleProviders subRules form idx line =
     (case ParseRulePayload line True of
        (tp, payload, target, params) \<Rightarrow>
          if target = '''' then Inl (ErrFormatInvalid form idx line)
          else if target \<notin> set proxies \<and> tp \<noteq> ''SUB-RULE'' then Inl (ErrProxyNotFound form idx line target)
          else if target \<notin> set proxies \<and> target \<notin> set subRules then Inl (ErrSubRuleTarget form idx line target)
          else (case ParseRule E tp payload target params of
                  Inl err \<Rightarrow> Inl (ErrParseRule form idx line err)
                | Inr parsed \<Rightarrow>
                    (case first_error (\<lambda>name. if name \<notin> set ruleProviders then Some (ErrRuleSetNotFound form idx line name) else None)
                            (ProviderNames parsed) of
                       Some err \<Rightarrow> Inl err
                     | None \<Rightarrow> Inr parsed)))"

fun parse_lines :: "(nat \<Rightarrow> string \<Rightarrow> config_error + Rule) \<Rightarrow> nat \<Rightarrow> string list \<Rightarrow> config_error + Rule list" where
  "parse_lines f idx [] = Inr []"
| "parse_lines f idx (line # lines) =
     (case f idx line of
        Inl err \<Rightarrow> Inl err
      | Inr r \<Rightarrow> (case parse_lines f (idx + 1) lines of Inl err \<Rightarrow> Inl err | Inr rs \<Rightarrow> Inr (r # rs)))"

text \<open>\<open>proxies\<close>, \<open>ruleProviders\<close> and \<open>subRules\<close> are the keys of the maps; only these are looked up.\<close>

definition parseRules :: "rule_env \<Rightarrow> string list \<Rightarrow> string list \<Rightarrow> string list \<Rightarrow> string list \<Rightarrow> string \<Rightarrow> config_error + CRule list" where
  "parseRules E rulesConfig proxies ruleProviders subRules form =
     (case parse_lines (parse_line E proxies ruleProviders subRules form) 0 rulesConfig of
        Inl err \<Rightarrow> Inl err
      | Inr rules \<Rightarrow> Inr (map (\<lambda>r. if form = ''rules'' then Wrapped (NewRuleWrapper r) else Bare r) rules))"

fun sub_rules_parse :: "(string \<Rightarrow> string list \<Rightarrow> config_error + CRule list) \<Rightarrow> (string \<times> string list) list \<Rightarrow> config_error + sub_rules" where
  "sub_rules_parse f [] = Inr []"
| "sub_rules_parse f ((name, rawRules) # cfg) =
     (if length name = 0 then Inl ErrNameEmpty
      else (case f name rawRules of
              Inl err \<Rightarrow> Inl err
            | Inr rules \<Rightarrow>
                (case sub_rules_parse f cfg of
                   Inl err \<Rightarrow> Inl err
                 | Inr subRules \<Rightarrow> Inr ((name, map unwrap_rule rules) # subRules))))"

definition parseSubRules :: "rule_env \<Rightarrow> (string \<times> string list) list \<Rightarrow> string list \<Rightarrow> string list \<Rightarrow> config_error + sub_rules" where
  "parseSubRules E cfg proxies ruleProviders =
     (case sub_rules_parse (\<lambda>name rawRules. parseRules E rawRules proxies ruleProviders (map fst cfg)
              (''sub-rules['' @ name @ '']'')) cfg of
        Inl err \<Rightarrow> Inl err
      | Inr subRules \<Rightarrow> (case verifySubRule subRules of Some err \<Rightarrow> Inl err | None \<Rightarrow> Inr subRules))"
end
