(* ===== verification/Tunnel_Match.thy ===== *)
theory Tunnel_Match
  imports Rule_Config
begin

text \<open>
  How the tunnel chooses the outbound proxy of a connection: \<open>resolveMetadataContext\<close>, \<open>match\<close> and
  \<open>getRules\<close> of \<open>src/tunnel/tunnel.go\<close>, with the callbacks it passes to the rules. A proxy is a value of
  the type \<open>'p\<close> with the operations of the interface in the record \<open>tunnel\<close>, beside the configuration.
  What the callbacks ask (the resolver, the hosts, the process table) is in the same record. The
  loops over \<open>Unwrap\<close> and over rematches have no bound in the code and are partial functions.
\<close>

section \<open>Proxies\<close>

datatype AdapterType =
    AT_Direct | AT_Reject | AT_RejectDrop | AT_Compatible | AT_Pass | AT_PassRule | AT_Rematch | AT_Dns
  | AT_Relay | AT_Selector | AT_Fallback | AT_URLTest | AT_LoadBalance
  | AT_Shadowsocks | AT_ShadowsocksR | AT_Snell | AT_Socks5 | AT_Http | AT_Vmess | AT_Vless | AT_Trojan
  | AT_Hysteria | AT_Hysteria2 | AT_WireGuard | AT_Tuic | AT_Ssh | AT_Mieru | AT_AnyTLS | AT_Sudoku | AT_Masque
  | AT_TrustTunnel | AT_ShadowQuic | AT_OpenVPN | AT_Tailscale | AT_ZeroTier | AT_EasyTier | AT_GostRelay

text \<open>The outbound that only changes the metadata, \<open>src/adapter/outbound/rematch.go\<close>.\<close>

record Rematch =
  rm_name :: string
  rm_targetRematchName :: "string option"
  rm_targetSubRule :: "string option"

definition applyMetadata :: "Rematch \<Rightarrow> Metadata \<Rightarrow> Metadata" where
  "applyMetadata l m =
     (let m = (case rm_targetRematchName l of None \<Rightarrow> m | Some n \<Rightarrow> m\<lparr>md_RematchName := n\<rparr>)
      in case rm_targetSubRule l of None \<Rightarrow> m | Some n \<Rightarrow> m\<lparr>md_SpecialRules := n\<rparr>)"

definition NewRematch :: "string \<Rightarrow> string option \<Rightarrow> string option \<Rightarrow> Rematch option" where
  "NewRematch name rematchName subRule =
     (if rematchName = None \<and> subRule = None then None
      else Some \<lparr>rm_name = name, rm_targetRematchName = rematchName, rm_targetSubRule = subRule\<rparr>)"

datatype FindProcessMode = FindProcessStrict | FindProcessAlways | FindProcessOff

datatype TunnelMode = ModeGlobal | ModeRule | ModeDirect

record 'p tunnel =
  tn_proxies :: "(string \<times> 'p) list"
  tn_Type :: "'p \<Rightarrow> AdapterType"
  tn_Name :: "'p \<Rightarrow> string"
  tn_Unwrap :: "'p \<Rightarrow> Metadata \<Rightarrow> 'p option"
  tn_SupportUDP :: "'p \<Rightarrow> bool"
  tn_Dial :: "'p \<Rightarrow> Metadata \<Rightarrow> Metadata \<times> bool"
  tn_env :: rule_env
  tn_subRules :: sub_rules
  tn_ruleProviders :: rule_providers
  tn_mode :: TunnelMode
  tn_findProcessMode :: FindProcessMode
  tn_hosts :: "string \<Rightarrow> addr option"
  tn_ResolveIP :: "string \<Rightarrow> addr option"
  tn_rawDst :: "(addr \<times> nat) option"
  tn_FindConnectionOwner :: "string \<Rightarrow> addr \<Rightarrow> nat \<Rightarrow> addr \<Rightarrow> nat \<Rightarrow> (32 word \<times> string) option"
  tn_FindPackageName :: "Metadata \<Rightarrow> string option"
  tn_resolvesOwnerByPackageName :: bool

datatype tunnel_error = ErrProxyMissing string

definition lookupProxy :: "'p tunnel \<Rightarrow> string \<Rightarrow> tunnel_error + 'p" where
  "lookupProxy T name = (case map_of (tn_proxies T) name of Some p \<Rightarrow> Inr p | None \<Rightarrow> Inl (ErrProxyMissing name))"

section \<open>The callbacks\<close>

record hstate =
  hs_resolved :: bool
  hs_attemptProcessLookup :: bool

definition helper_ResolveIP :: "'p tunnel \<Rightarrow> hstate mstate \<Rightarrow> hstate mstate" where
  "helper_ResolveIP T st =
     (case st of (m, h) \<Rightarrow>
        if \<not> hs_resolved h \<and> md_Host m \<noteq> '''' \<and> \<not> Resolved m
        then ((case tn_ResolveIP T (md_Host m) of None \<Rightarrow> m | Some ip \<Rightarrow> m\<lparr>md_DstIP := ip\<rparr>), h\<lparr>hs_resolved := True\<rparr>)
        else st)"

text \<open>\<open>filepath.Base\<close> with the separator \<open>/\<close>.\<close>

definition path_Base :: "string \<Rightarrow> string" where
  "path_Base path =
     (if path = '''' then ''.''
      else
        (let p = rev (dropWhile (\<lambda>c. c = CHR ''/'') (rev path))
         in if p = '''' then ''/'' else rev (takeWhile (\<lambda>c. c \<noteq> CHR ''/'') (rev p))))"

definition ownerDestination :: "'p tunnel \<Rightarrow> Metadata \<Rightarrow> addr \<times> nat" where
  "ownerDestination T m =
     (case tn_rawDst T of
        Some (a, port) \<Rightarrow> if addr_IsValid a then (addr_Unmap a, port) else (md_DstIP m, unat (md_DstPort m))
      | None \<Rightarrow> (md_DstIP m, unat (md_DstPort m)))"

definition find_owner :: "'p tunnel \<Rightarrow> Metadata \<Rightarrow> Metadata" where
  "find_owner T m =
     (case ownerDestination T m of
        (dstIP, dstPort) \<Rightarrow>
          (case tn_FindConnectionOwner T (NetWork_String (md_NetWork m)) (md_SrcIP m) (unat (md_SrcPort m)) dstIP dstPort of
             None \<Rightarrow> m
           | Some (uid, path) \<Rightarrow>
               (let m = m\<lparr>md_Process := path_Base path, md_ProcessPath := path, md_Uid := uid, md_UidKnown := True,
                          md_SourceIdentityKnown := True\<rparr>
                in case tn_FindPackageName T m of Some pkg \<Rightarrow> m\<lparr>md_Process := pkg\<rparr> | None \<Rightarrow> m)))"

definition helper_FindProcess :: "'p tunnel \<Rightarrow> hstate mstate \<Rightarrow> hstate mstate" where
  "helper_FindProcess T st =
     (case st of (m, h) \<Rightarrow>
        if hs_attemptProcessLookup h
        then ((if \<not> tn_resolvesOwnerByPackageName T then find_owner T m
               else (case tn_FindPackageName T m of None \<Rightarrow> m | Some pkg \<Rightarrow> m\<lparr>md_Process := pkg\<rparr>)),
              h\<lparr>hs_attemptProcessLookup := False\<rparr>)
        else st)"

text \<open>The loop of \<open>CheckPassRule\<close> over the proxies inside a proxy; an endless one is no match.\<close>

partial_function (option) pass_rule_scan :: "'p tunnel \<Rightarrow> Metadata \<Rightarrow> 'p option \<Rightarrow> bool option" where
  "pass_rule_scan T m a =
     (case a of
        None \<Rightarrow> Some False
      | Some a \<Rightarrow> if tn_Type T a = AT_PassRule then Some True else pass_rule_scan T m (tn_Unwrap T a m))"

definition helper_CheckPassRule :: "'p tunnel \<Rightarrow> string \<Rightarrow> hstate mstate \<Rightarrow> bool" where
  "helper_CheckPassRule T adapterName st \<longleftrightarrow>
     (case map_of (tn_proxies T) adapterName of
        None \<Rightarrow> False
      | Some adapter \<Rightarrow> pass_rule_scan T (fst st) (Some adapter) = Some True)"

definition tunnel_helper :: "'p tunnel \<Rightarrow> hstate RuleMatchHelper" where
  "tunnel_helper T =
     \<lparr>ResolveIP = Some (helper_ResolveIP T), FindProcess = Some (helper_FindProcess T),
      CheckPassRule = Some (helper_CheckPassRule T)\<rparr>"

section \<open>Matching a connection\<close>

datatype 'p scan = ScanEnd | ScanPass | ScanRematch 'p

partial_function (option) unwrap_scan :: "'p tunnel \<Rightarrow> Metadata \<Rightarrow> 'p option \<Rightarrow> 'p scan option" where
  "unwrap_scan T m a =
     (case a of
        None \<Rightarrow> Some ScanEnd
      | Some a \<Rightarrow>
          if tn_Type T a = AT_Pass then Some ScanPass
          else if tn_Type T a = AT_Rematch then Some (ScanRematch a)
          else unwrap_scan T m (tn_Unwrap T a m))"

datatype 'p pass_result = PassReturn 'p Rule | PassRematch 'p Rule | PassNone

text \<open>
  One pass over the rules. \<open>clock i\<close> is the time when the rule with the index \<open>i\<close> of the pass is
  matched. The rules are returned with their counters.
\<close>

fun rules_pass :: "'p tunnel \<Rightarrow> (hstate rule_match) \<Rightarrow> (nat \<Rightarrow> int) \<Rightarrow> nat \<Rightarrow> CRule list \<Rightarrow> hstate mstate
      \<Rightarrow> ('p pass_result \<times> CRule list \<times> hstate mstate) option" where
  "rules_pass T match clock i [] st = Some (PassNone, [], st)"
| "rules_pass T match clock i (rule # rules) st = do {
     ((matched, ada), rule, st) \<leftarrow> CRule_Match match (clock i) rule st;
     let go_on = map_option (\<lambda>(res, rules, st). (res, rule # rules, st)) (rules_pass T match clock (i + 1) rules st);
     if \<not> matched then go_on
     else (case map_of (tn_proxies T) ada of
         None \<Rightarrow> go_on
       | Some adapter \<Rightarrow> do {
           s \<leftarrow> unwrap_scan T (fst st) (Some adapter);
           case s of
             ScanPass \<Rightarrow> go_on
           | ScanRematch p \<Rightarrow> Some (PassRematch p (unwrap_rule rule), rule # rules, st)
           | ScanEnd \<Rightarrow>
               if md_NetWork (fst st) = UDP \<and> \<not> tn_SupportUDP T adapter then go_on
               else Some (PassReturn adapter (unwrap_rule rule), rule # rules, st) }) }"

definition getRules :: "'p tunnel \<Rightarrow> CRule list \<Rightarrow> Metadata \<Rightarrow> CRule list" where
  "getRules T rules m = (case map_of (tn_subRules T) (md_SpecialRules m) of Some sr \<Rightarrow> map Bare sr | None \<Rightarrow> rules)"

text \<open>The counters that a pass changes are those of the rules of the top level.\<close>

definition put_rules :: "'p tunnel \<Rightarrow> Metadata \<Rightarrow> CRule list \<Rightarrow> CRule list \<Rightarrow> CRule list" where
  "put_rules T m rules rules' = (case map_of (tn_subRules T) (md_SpecialRules m) of Some _ \<Rightarrow> rules | None \<Rightarrow> rules')"

type_synonym 'p match_result = "(tunnel_error + 'p) \<times> Rule option"

partial_function (option) match_from :: "'p tunnel \<Rightarrow> hstate rule_match \<Rightarrow> (nat \<Rightarrow> nat \<Rightarrow> int) \<Rightarrow> string list \<Rightarrow> CRule list
      \<Rightarrow> hstate mstate \<Rightarrow> ('p match_result \<times> CRule list \<times> hstate mstate) option" where
  "match_from T match clock rematchChain rules st = do {
     (res, rules', st') \<leftarrow> rules_pass T match (clock (length rematchChain)) 0 (getRules T rules (fst st)) st;
     let rules = put_rules T (fst st) rules rules';
     case res of
       PassReturn adapter rule \<Rightarrow> Some ((Inr adapter, Some rule), rules, st')
     | PassNone \<Rightarrow> Some ((lookupProxy T ''DIRECT'', None), rules, st')
     | PassRematch p rule \<Rightarrow>
         if tn_Name T p \<in> set rematchChain then Some ((Inr p, Some rule), rules, st')
         else (case tn_Dial T p (fst st') of
                 (m, err) \<Rightarrow>
                   if err then Some ((Inr p, Some rule), rules, (m, snd st'))
                   else match_from T match clock (rematchChain @ [tn_Name T p]) rules (m, snd st')) }"

text \<open>\<open>n\<close> is the fuel of the match of one rule.\<close>

definition match_proxy :: "'p tunnel \<Rightarrow> nat \<Rightarrow> (nat \<Rightarrow> nat \<Rightarrow> int) \<Rightarrow> hstate RuleMatchHelper \<Rightarrow> CRule list \<Rightarrow> hstate mstate
      \<Rightarrow> ('p match_result \<times> CRule list \<times> hstate mstate) option" where
  "match_proxy T n clock H rules st =
     match_from T (Rule_Match (tn_env T) (tn_subRules T) (tn_ruleProviders T) n H) clock [] rules st"

definition resolveMetadata :: "'p tunnel \<Rightarrow> nat \<Rightarrow> (nat \<Rightarrow> nat \<Rightarrow> int) \<Rightarrow> CRule list \<Rightarrow> Metadata
      \<Rightarrow> ('p match_result \<times> CRule list \<times> Metadata) option" where
  "resolveMetadata T n clock rules m =
     (if md_SpecialProxy m \<noteq> '''' then Some ((lookupProxy T (md_SpecialProxy m), None), rules, m)
      else
        (let h = \<lparr>hs_resolved = False, hs_attemptProcessLookup = md_Type m \<noteq> INNER \<and> \<not> md_SourceIdentityKnown m\<rparr>;
             st = (case tn_hosts T (md_Host m) of
                     Some ip \<Rightarrow> (m\<lparr>md_DstIP := ip\<rparr>, h\<lparr>hs_resolved := True\<rparr>)
                   | None \<Rightarrow> (m, h));
             H = tunnel_helper T;
             st = (if tn_findProcessMode T = FindProcessAlways then helper_FindProcess T st else st);
             H = (if tn_findProcessMode T = FindProcessStrict then H else H\<lparr>FindProcess := None\<rparr>)
         in case tn_mode T of
              ModeDirect \<Rightarrow> Some ((lookupProxy T ''DIRECT'', None), rules, fst st)
            | ModeGlobal \<Rightarrow> Some ((lookupProxy T ''GLOBAL'', None), rules, fst st)
            | ModeRule \<Rightarrow> map_option (\<lambda>(res, rules, st). (res, rules, fst st)) (match_proxy T n clock H rules st)))"
end
