(* ===== verification/Rules_Properties.thy ===== *)
theory Rules_Properties
  imports Rule_Parser
begin

text \<open>
  Properties of the rules: what an address suffix matches, that parsed rules are well formed, how a
  logic payload is cut into the payloads of its rules, and when a match returns.
\<close>

section \<open>Address suffixes\<close>

lemma nth_bytes_be: "j < n \<Longrightarrow> bytes_be n v ! j = char_of (v div 256 ^ (n - 1 - j) mod 256)"
proof (induction n arbitrary: v)
  case (Suc n)
  show ?case
  proof (cases "j = n")
    case False
    with Suc.prems have j: "j < n" by simp
    have "bytes_be (Suc n) v ! j = bytes_be n (v div 256) ! j" using j by (simp add: nth_append)
    also have "\<dots> = char_of (v div 256 div 256 ^ (n - 1 - j) mod 256)" using Suc.IH[OF j] .
    also have "v div 256 div 256 ^ (n - 1 - j) = v div 256 ^ (n - j)"
    proof -
      from j have "n - j = Suc (n - 1 - j)" by simp
      then show ?thesis by (simp add: div_mult2_eq)
    qed
    finally show ?thesis by simp
  qed (simp add: nth_append)
qed simp

lemma byte_at_bytes_be:
  "i < n \<Longrightarrow> byte_at (bytes_be n v) (int n - int (Suc i)) = Some (char_of (v div 256 ^ i mod 256))"
proof -
  assume i: "i < n"
  have "nat (int n - int (Suc i)) = n - 1 - i" "n - 1 - (n - 1 - i) = i" "n - 1 - i < n" using i by auto
  with i show ?thesis by (simp add: byte_at_def nth_bytes_be del: of_nat_Suc)
qed

lemma char_of_byte_eq: "a < 256 \<Longrightarrow> b < 256 \<Longrightarrow> (char_of a :: char) = char_of b \<longleftrightarrow> a = (b :: nat)"
  by (metis of_char_of mod_less)

lemma mod_Suc_digit:
  "v mod 256 ^ Suc i = w mod 256 ^ Suc i \<longleftrightarrow> v div 256 ^ i mod 256 = w div 256 ^ i mod (256::nat) \<and> v mod 256 ^ i = w mod 256 ^ i"
proof -
  have split: "x mod 256 ^ Suc i = 256 ^ i * (x div 256 ^ i mod 256) + x mod 256 ^ i" for x :: nat
    by (metis mod_mult2_eq mult.commute power_Suc)
  have lt: "x mod 256 ^ i < 256 ^ i" for x :: nat by simp
  have "x mod 256 ^ Suc i div 256 ^ i = x div 256 ^ i mod 256" for x :: nat
    unfolding split using lt[of x] by simp
  moreover have "x mod 256 ^ Suc i mod 256 ^ i = x mod 256 ^ i" for x :: nat
    unfolding split by simp
  ultimately show ?thesis by (metis split)
qed

lemma suffix_bytes_be:
  "i \<le> n \<Longrightarrow> suffix_bytes (bytes_be n v) (bytes_be n w) i = Some (v mod 256 ^ i = w mod 256 ^ i)"
proof (induction i)
  case (Suc i)
  then have "i < n" by simp
  with Suc show ?case
    unfolding mod_Suc_digit by (simp add: byte_at_bytes_be char_of_byte_eq del: of_nat_Suc)
qed simp

lemma shl8_eq:
  assumes k: "k < 8"
  shows "shl8 (char_of a) (8 - k) = shl8 (char_of b) (8 - k) \<longleftrightarrow> a mod 2 ^ k = b mod (2 ^ k :: nat)"
proof -
  have 256: "(256::nat) = 2 ^ k * 2 ^ (8 - k)" using k by (simp flip: power_add)
  have val: "unat (shl8 (char_of c) (8 - k)) = 2 ^ (8 - k) * (c mod 2 ^ k)" for c
  proof -
    have "shl8 (char_of c) (8 - k) = of_nat (2 ^ (8 - k) * (c mod 256))"
      by (simp add: shl8_def push_bit_eq_mult mult.commute)
    then have "unat (shl8 (char_of c) (8 - k)) = 2 ^ (8 - k) * c mod 256"
      by (simp only: unat_of_nat) (simp add: mod_mult_right_eq)
    also have "\<dots> = 2 ^ (8 - k) * (c mod 2 ^ k)"
      unfolding 256 by (metis mult.commute mult_mod_right)
    finally show ?thesis .
  qed
  show ?thesis using val by (metis mult_left_cancel power_eq_0_iff word_unat_eq_iff zero_neq_numeral)
qed

lemma mod_bits_split:
  "v mod 2 ^ (8 * i + k) = w mod 2 ^ (8 * i + k) \<longleftrightarrow>
     v mod 256 ^ i = w mod 256 ^ i \<and> v div 256 ^ i mod 2 ^ k = w div 256 ^ i mod (2 ^ k :: nat)"
proof -
  have 256: "(2::nat) ^ (8 * i + k) = 256 ^ i * 2 ^ k" by (simp add: power_add power_mult)
  have split: "x mod 2 ^ (8 * i + k) = 256 ^ i * (x div 256 ^ i mod 2 ^ k) + x mod 256 ^ i" for x :: nat
    unfolding 256 by (rule mod_mult2_eq)
  have "x mod 2 ^ (8 * i + k) div 256 ^ i = x div 256 ^ i mod 2 ^ k" "x mod 2 ^ (8 * i + k) mod 256 ^ i = x mod 256 ^ i" for x :: nat
    unfolding split by simp_all
  then show ?thesis by (metis split)
qed

definition addr_bytes :: "addr \<Rightarrow> nat" where
  "addr_bytes a = nat (addr_BitLen a) div 8"

lemma addr_AsSlice_bytes: "addr_AsSlice a = bytes_be (addr_bytes a) (addr_num a)"
  by (cases a) (simp_all add: addr_bytes_def)

lemma addr_bytes_eq: "addr_bytes a = addr_bytes b \<longleftrightarrow> addr_BitLen a = addr_BitLen b"
  by (cases a; cases b) (simp_all add: addr_bytes_def)

lemma ParsePrefix_bits:
  assumes "ParsePrefix s = Some p"
  shows "nat (pfx_bits p) \<le> 8 * addr_bytes (pfx_ip p)"
  using assms by (cases "pfx_ip p") (auto simp: ParsePrefix_def Let_def addr_bytes_def split: if_splits option.splits)

text \<open>The comparison of \<open>IPSuffix.Match\<close>, on the bytes of two addresses of one kind.\<close>

lemma suffix_compare:
  fixes n v w bits
  assumes "bits \<le> 8 * n"
  shows "(do { same \<leftarrow> suffix_bytes (bytes_be n v) (bytes_be n w) (bits div 8);
               if \<not> same then Some x
               else if bits mod 8 \<noteq> 0 then do {
                 c \<leftarrow> byte_at (bytes_be n v) (int n - int (bits div 8) - 1);
                 d \<leftarrow> byte_at (bytes_be n w) (int n - int (bits div 8) - 1);
                 if shl8 c (8 - bits mod 8) \<noteq> shl8 d (8 - bits mod 8) then Some x else Some y }
               else Some y })
       = Some (if v mod 2 ^ bits = w mod 2 ^ bits then y else x)"
proof -
  define i k where "i = bits div 8" and "k = bits mod 8"
  have bits: "bits = 8 * i + k" and k: "k < 8" and i: "i \<le> n" using assms by (auto simp: i_def k_def)
  have idx: "int n - int i - 1 = int n - int (Suc i)" by simp
  have "k \<noteq> 0 \<Longrightarrow> i < n" using assms bits by linarith
  note byte = byte_at_bytes_be[OF this] shl8_eq[OF k]
  show ?thesis
    unfolding i_def[symmetric] k_def[symmetric] unfolding bits mod_bits_split
    unfolding idx suffix_bytes_be[OF i] using byte
    by (cases "k = 0"; cases "v mod 256 ^ i = w mod 256 ^ i") (simp_all del: of_nat_Suc)
qed

text \<open>
  C22: an address suffix rule built from the prefix \<open>p\<close> returns on every packet and matches exactly
  the addresses of the kind of \<open>p\<close> whose number agrees with that of \<open>p\<close> modulo \<open>2 ^ bits\<close>: the lowest
  \<open>bits\<close> bits are compared and no others, for every \<open>bits\<close> and not only for whole bytes. The address
  is the source or, after a resolve unless the rule forbids it, the destination.
\<close>
theorem ip_suffix_match_mod:
  assumes "ParsePrefix payload = Some p" and "NewIPSuffix payload adapter isSrc noResolve = Inr r"
    and "st' = (if \<not> noResolve \<and> \<not> isSrc then call_helper (ResolveIP H) st else st)"
    and "ip = (if isSrc then md_SrcIP (fst st') else md_DstIP (fst st'))"
  shows "IPSuffix_Match H r st =
     Some (if addr_BitLen ip = addr_BitLen (pfx_ip p)
              \<and> addr_num ip mod 2 ^ nat (pfx_bits p) = addr_num (pfx_ip p) mod 2 ^ nat (pfx_bits p)
           then (True, adapter) else (False, ''''), st')"
proof -
  let ?n = "addr_bytes (pfx_ip p)" and ?v = "addr_num (pfx_ip p)" and ?bits = "nat (pfx_bits p)"
  have r: "r = \<lparr>is_ipBytes = addr_AsSlice (pfx_ip p), is_bits = ?bits, is_payload = payload,
      is_adapter = adapter, is_isSourceIP = isSrc, is_noResolveIP = noResolve\<rparr>"
    using assms(1,2) by (simp add: NewIPSuffix_def)
  show ?thesis
  proof (cases "addr_bytes ip = ?n")
    case True
    then have "addr_BitLen ip = addr_BitLen (pfx_ip p)" by (simp add: addr_bytes_eq)
    then show ?thesis
      unfolding IPSuffix_Match_def Let_def r IPSuffix.simps assms(3,4)[symmetric] addr_AsSlice_bytes length_bytes_be True
      by (simp only: simp_thms if_False if_True suffix_compare[OF ParsePrefix_bits[OF assms(1)]] eq_commute[of "?v mod _"])
         simp
  next
    case False
    then have "addr_BitLen ip \<noteq> addr_BitLen (pfx_ip p)" by (simp add: addr_bytes_eq)
    with False show ?thesis
      unfolding IPSuffix_Match_def Let_def r IPSuffix.simps assms(3,4)[symmetric] addr_AsSlice_bytes length_bytes_be
      by (simp add: not_sym)
  qed
qed

definition suffix_rule :: IPSuffix where
  "suffix_rule = \<lparr>is_ipBytes = bytes_be 4 266, is_bits = 12, is_payload = ''0.0.1.10/12'', is_adapter = ''PROXY'',
     is_isSourceIP = False, is_noResolveIP = True\<rparr>"

definition dst_state :: "addr \<Rightarrow> unit mstate" where
  "dst_state ip = (zero_Metadata\<lparr>md_DstIP := ip\<rparr>, ())"

text \<open>The witness: the payload \<open>0.0.1.10/12\<close> and the destination \<open>0.0.17.10\<close>, which differs above the lowest twelve bits only.\<close>

theorem ip_suffix_match_mod_witness:
  "ParsePrefix ''0.0.1.10/12'' = Some \<lparr>pfx_ip = Addr4 266, pfx_bits = 12\<rparr>
   \<and> NewIPSuffix ''0.0.1.10/12'' ''PROXY'' False True = Inr suffix_rule
   \<and> IPSuffix_Match no_helper suffix_rule (dst_state (Addr4 4362)) = Some ((True, ''PROXY''), dst_state (Addr4 4362))"
proof -
  have p: "ParsePrefix ''0.0.1.10/12'' = Some \<lparr>pfx_ip = Addr4 266, pfx_bits = 12\<rparr>" by code_simp
  have r: "NewIPSuffix ''0.0.1.10/12'' ''PROXY'' False True = Inr suffix_rule"
    by (simp add: NewIPSuffix_def p suffix_rule_def)
  show ?thesis
    using p r ip_suffix_match_mod[OF p r refl refl, of no_helper "dst_state (Addr4 4362)"]
    by (simp add: dst_state_def)
qed

section \<open>Well-formed rules\<close>

text \<open>
  What the constructors guarantee and \<open>Match\<close> and \<open>Payload\<close> rely on: a suffix is no longer than its
  address, a process rule with a regular expression has it compiled, \<open>NOT\<close> and \<open>SUB-RULE\<close> have one
  rule, and no logic rule has a \<open>SUB-RULE\<close> or a \<open>MATCH\<close> in it.
\<close>

fun common_ok :: "CommonRule \<Rightarrow> bool" where
  "common_ok (R_IPSuffix r) \<longleftrightarrow> is_bits r \<le> 8 * length (is_ipBytes r)"
| "common_ok (R_Process r) \<longleftrightarrow> (ps_ruleType r \<in> set [RT_ProcessNameRegex, RT_ProcessPathRegex] \<longrightarrow> ps_regexp r \<noteq> None)"
| "common_ok _ \<longleftrightarrow> True"

fun rule_ok :: "Rule \<Rightarrow> bool" where
  "rule_ok (R_Common r) \<longleftrightarrow> common_ok r"
| "rule_ok (R_RuleSet r) \<longleftrightarrow> True"
| "rule_ok (R_Logic p a t rs) \<longleftrightarrow>
     t \<in> set [RT_SubRules, RT_NOT, RT_OR, RT_AND] \<and> (t \<in> set [RT_SubRules, RT_NOT] \<longrightarrow> length rs = 1)
     \<and> (\<forall>r \<in> set rs. rule_ok r \<and> Rule_RuleType r \<noteq> RT_SubRules \<and> Rule_RuleType r \<noteq> RT_MATCH)"

lemma parse_all_in:
  "parse_all f ps = Inr rs \<Longrightarrow> r \<in> set rs \<Longrightarrow> \<exists>p \<in> set ps. payloadToRule p f = Inr r"
  by (induction ps arbitrary: rs) (auto split: sum.splits)

lemma parsePayload_in:
  assumes "parsePayload payload f = Inr rs" and "r \<in> set rs" and "payload \<noteq> ''''"
  obtains tp q t ps where "f tp q t ps = Inr r" "tp \<noteq> ''MATCH''" "tp \<noteq> ''SUB-RULE''"
    "q = '''' \<or> length q + 2 < length payload"
proof -
  from assms(1) obtain ranges where fm: "format payload = Inr ranges"
    and all: "parse_all f (map (sub_payload payload) (findSubRuleRange payload ranges)) = Inr rs"
    by (auto simp: parsePayload_def split: if_splits sum.splits)
  obtain rg where rg: "rg \<in> set (findSubRuleRange payload ranges)" and r: "payloadToRule (sub_payload payload rg) f = Inr r"
    using parse_all_in[OF all assms(2)] by auto
  have "rg_end rg < length payload"
    using format_bound[OF fm] rg find_loop_subset[of "length payload" "[]" ranges] by (auto simp: findSubRuleRange_def)
  then have len: "length (sub_payload payload rg) \<le> length payload - 2" by (rule sub_payload_length)
  obtain tp q t ps where q: "ParseRulePayload (sub_payload payload rg) False = (tp, q, t, ps)" by (metis prod_cases4)
  show thesis
    using that[of tp q t ps] r q ParseRulePayload_shorter[OF q] len
    by (force simp: payloadToRule_def split: if_splits)
qed

lemma lift_rule_Inr: "lift_rule C x = Inr r \<longleftrightarrow> (\<exists>y. x = Inr y \<and> r = R_Common (C y))"
  by (auto simp: lift_rule_def split: sum.splits)

lemma IPSuffix_ok: "NewIPSuffix p a s n = Inr r \<Longrightarrow> is_bits r \<le> 8 * length (is_ipBytes r) \<and> is_adapter r = a"
  using ParsePrefix_bits by (auto simp: NewIPSuffix_def addr_AsSlice_bytes split: option.splits)

lemma Process_ok:
  "NewProcess E p a t = Inr r \<Longrightarrow>
     (ps_ruleType r \<in> set [RT_ProcessNameRegex, RT_ProcessPathRegex] \<longrightarrow> ps_regexp r \<noteq> None)
     \<and> ps_adapter r = a \<and> ps_ruleType r = t"
  by (auto simp: NewProcess_def split: if_splits)

lemma constructors_adapter:
  "NewDomainRegex E p a = Inr r1 \<Longrightarrow> dr_adapter r1 = a"
  "NewGEOSITE E p a = Inr r2 \<Longrightarrow> gs_adapter r2 = a"
  "NewGEOIP E p a s n = Inr r3 \<Longrightarrow> gi_adapter r3 = a"
  "NewIPASN E p a s n = Inr r4 \<Longrightarrow> asn_adapter r4 = a"
  "NewIPCIDR p a s n = Inr r5 \<Longrightarrow> ic_adapter r5 = a"
  "NewPort p a t = Inr r6 \<Longrightarrow> p_adapter r6 = a \<and> p_ruleType r6 = t"
  "NewDSCP p a = Inr r7 \<Longrightarrow> dscp_adapter r7 = a"
  "NewNetworkType p a = Inr r8 \<Longrightarrow> nt_adapter r8 = a"
  "NewUid E p a = Inr r9 \<Longrightarrow> u_adapter r9 = a"
  "NewSourceAppIdentity p a t = Inr r10 \<Longrightarrow> sa_adapter r10 = a \<and> sa_ruleType r10 = t"
  "NewInType p a = Inr r11 \<Longrightarrow> int_adapter r11 = a"
  "NewInUser p a = Inr r12 \<Longrightarrow> inu_adapter r12 = a"
  "NewInName p a = Inr r13 \<Longrightarrow> inn_adapter r13 = a"
  "NewRematchName p a = Inr r14 \<Longrightarrow> rn_adapter r14 = a"
  by (auto simp: NewDomainRegex_def NewGEOSITE_def NewGEOIP_def NewIPASN_def NewIPCIDR_def NewPort_def NewDSCP_def
      NewNetworkType_def NewUid_def NewSourceAppIdentity_def NewInType_def NewInUser_def NewInName_def NewRematchName_def Let_def
      rbind_def split: if_splits option.splits sum.splits)

lemma constructors_rest:
  "d_adapter (NewDomain p a) = a" "dk_adapter (NewDomainKeyword p a) = a" "ds_adapter (NewDomainSuffix p a) = a"
  "dw_adapter (NewDomainWildcard p a) = a" "f_adapter (NewMatch a) = a"
  by (simp_all add: NewDomain_def NewDomainKeyword_def NewDomainSuffix_def NewDomainWildcard_def NewMatch_def)

lemma src_types: "IPCIDR_RuleType r1 \<notin> {RT_SubRules, RT_MATCH}" "IPSuffix_RuleType r2 \<notin> {RT_SubRules, RT_MATCH}"
  "ASN_RuleType r3 \<notin> {RT_SubRules, RT_MATCH}" "GEOIP_RuleType r4 \<notin> {RT_SubRules, RT_MATCH}"
  by (simp_all add: IPCIDR_RuleType_def IPSuffix_RuleType_def ASN_RuleType_def GEOIP_RuleType_def)

definition parsed_ok :: "string \<Rightarrow> string \<Rightarrow> Rule \<Rightarrow> bool" where
  "parsed_ok tp target r \<longleftrightarrow> rule_ok r \<and> (Rule_RuleType r = RT_SubRules \<longrightarrow> tp = ''SUB-RULE'')
     \<and> (Rule_RuleType r = RT_MATCH \<longrightarrow> tp = ''MATCH'') \<and> Rule_Adapter r = target"

lemma ParseCommonRule_ok:
  "case ParseCommonRule E tp payload target params of Some (Inr r) \<Rightarrow> parsed_ok tp target r | _ \<Rightarrow> True"
proof -
  obtain s n where sn: "ParseParams params = (s, n)" by fastforce
  define Q where "Q x \<longleftrightarrow> (case x of Some (Inr r) \<Rightarrow> parsed_ok tp target r | _ \<Rightarrow> True)" for x :: "(rule_error + Rule) option"
  have branch: "Q (if c then a else b)" if "c \<Longrightarrow> Q a" and "Q b" for c a b using that by simp
  have new: "Q (Some (Inr (R_Common r)))" if "parsed_ok tp target (R_Common r)" for r using that by (simp add: Q_def)
  have lift: "Q (Some (lift_rule C x))" if "\<And>y. x = Inr y \<Longrightarrow> parsed_ok tp target (R_Common (C y))" for C and x :: "rule_error + 'r"
    using that by (auto simp: Q_def lift_rule_def split: sum.splits)
  have "Q None" by (simp add: Q_def)
  then have "Q (ParseCommonRule E tp payload target params)"
    unfolding ParseCommonRule_def Let_def sn prod.case
    by (intro branch new lift)
       (auto simp: parsed_ok_def constructors_rest src_types[simplified] dest!: constructors_adapter IPSuffix_ok Process_ok)
  then show ?thesis by (simp only: Q_def)
qed

lemma Logic_parsed_ok:
  assumes "parsePayload payload f = Inr rs" and "payload \<noteq> ''''" and "t \<in> set [RT_SubRules, RT_NOT, RT_OR, RT_AND]"
    and "t = RT_SubRules \<longrightarrow> tp = ''SUB-RULE''" and "t \<in> set [RT_SubRules, RT_NOT] \<longrightarrow> length rs = 1"
    and sub: "\<And>tp q t ps r. q = '''' \<or> length q + 2 < length payload \<Longrightarrow> f tp q t ps = Inr r \<Longrightarrow> parsed_ok tp t r"
  shows "parsed_ok tp a (R_Logic p a t rs)"
proof -
  have "rule_ok r \<and> Rule_RuleType r \<noteq> RT_SubRules \<and> Rule_RuleType r \<noteq> RT_MATCH" if r: "r \<in> set rs" for r
  proof -
    obtain tp q t ps where "f tp q t ps = Inr r" "tp \<noteq> ''MATCH''" "tp \<noteq> ''SUB-RULE''" "q = '''' \<or> length q + 2 < length payload"
      using parsePayload_in[OF assms(1) r assms(2)] by metis
    with sub[of q tp t ps r] show ?thesis by (simp only: parsed_ok_def) blast
  qed
  with assms(3-5) show ?thesis unfolding parsed_ok_def by auto
qed

lemma ParseRule_parsed_ok: "ParseRule E tp payload target params = Inr r \<Longrightarrow> parsed_ok tp target r"
proof (induction "length payload" arbitrary: tp payload target params r rule: less_induct)
  case less
  have ne: "\<not> (tp \<noteq> ''MATCH'' \<and> payload = '''')" using less.prems by (subst (asm) ParseRule.simps) (auto split: if_splits)
  show ?case
  proof (cases "ParseCommonRule E tp payload target params")
    case (Some x)
    with less.prems ne have "x = Inr r" by (subst (asm) ParseRule.simps) (simp split: if_splits)
    with Some ParseCommonRule_ok[where E = E and tp = tp and payload = payload and target = target and params = params] show ?thesis by simp
  next
    case None
    have "tp \<noteq> ''MATCH''" using None by (auto simp: ParseCommonRule_def split: prod.splits)
    with ne have payload: "payload \<noteq> ''''" by simp
    have shorter: "parsed_ok tp t r" if "q = '''' \<or> length q < length payload" "ParseRule E tp q t ps = Inr r" for tp q t ps r
      using that less.hyps[of q tp t ps r] payload by auto
    have shorter': "parsed_ok tp t r" if "q = '''' \<or> Suc (Suc (length q)) < length payload" "ParseRule E tp q t ps = Inr r" for tp q t ps r
      using that shorter[of q tp t ps r] by auto
    note L = Logic_parsed_ok[where f = "ParseRule E"]
    consider (sub) "tp = ''SUB-RULE''" | (conj) "tp = ''AND''" | (disj) "tp = ''OR''" | (neg) "tp = ''NOT''" | (set) "tp = ''RULE-SET''" | (bad) "tp \<notin> {''SUB-RULE'', ''AND'', ''OR'', ''NOT'', ''RULE-SET''}"
      by auto
    then show ?thesis
    proof cases
      case sub
      with less.prems None ne obtain rs where "parsePayload (''('' @ payload @ '')'') (ParseRule E) = Inr rs" "length rs = 1"
          "r = R_Logic payload target RT_SubRules rs"
        by (subst (asm) ParseRule.simps) (auto simp: NewSubRule_def split: sum.splits if_splits)
      then show ?thesis using \<open>tp = _\<close> by (auto intro!: L intro: shorter)
    next
      case conj
      with less.prems None ne obtain rs where "parsePayload payload (ParseRule E) = Inr rs" "r = R_Logic payload target RT_AND rs"
        by (subst (asm) ParseRule.simps) (auto simp: NewAND_def split: sum.splits if_splits)
      then show ?thesis using payload by (auto intro!: L intro: shorter')
    next
      case disj
      with less.prems None ne obtain rs where "parsePayload payload (ParseRule E) = Inr rs" "r = R_Logic payload target RT_OR rs"
        by (subst (asm) ParseRule.simps) (auto simp: NewOR_def split: sum.splits if_splits)
      then show ?thesis using payload by (auto intro!: L intro: shorter')
    next
      case neg
      with less.prems None ne obtain rs where "parsePayload payload (ParseRule E) = Inr rs" "length rs = 1"
          "r = R_Logic payload target RT_NOT rs"
        by (subst (asm) ParseRule.simps) (auto simp: NewNOT_def split: sum.splits if_splits)
      then show ?thesis using payload by (auto intro!: L intro: shorter')
    next
      case set
      with less.prems None ne show ?thesis
        by (subst (asm) ParseRule.simps) (auto simp: parsed_ok_def NewRuleSet_def split: prod.splits)
    next
      case bad
      with less.prems None ne show ?thesis by (subst (asm) ParseRule.simps) (simp split: if_splits)
    qed
  qed
qed

text \<open>
  C10: every rule that \<open>ParseRule\<close> accepts is well formed: a suffix rule compares no more bits than its
  address has, a process rule for a regular expression has one, \<open>NOT\<close> and \<open>SUB-RULE\<close> have exactly one
  rule below them, and no logic rule, however deep, contains a \<open>SUB-RULE\<close> or a \<open>MATCH\<close>. The adapter of
  the rule is the target that was passed, and only the type \<open>SUB-RULE\<close> gives a sub-rule.
\<close>
theorem parse_rule_well_formed:
  assumes "ParseRule E tp payload target params = Inr r"
  shows "rule_ok r \<and> Rule_Adapter r = target \<and> (Rule_RuleType r = RT_SubRules \<longrightarrow> tp = ''SUB-RULE'')"
  using ParseRule_parsed_ok[OF assms] by (simp add: parsed_ok_def)

definition plain_env :: rule_env where
  "plain_env = \<lparr>env_Compile = (\<lambda>_. True), env_MatchString = (\<lambda>rx s. rx = s), env_GeodataMode = False, env_InitGeoIP = True,
     env_LoadGeoIPMatcher = (\<lambda>_. None), env_LookupCode = (\<lambda>_. []), env_InitASN = True, env_LookupASN = (\<lambda>_. ('''', '''')),
     env_InitGeoSite = True, env_LoadGeoSiteMatcher = (\<lambda>_. None), env_GOOS = ''linux''\<rparr>"

definition not_domain :: "string \<Rightarrow> string \<Rightarrow> Rule" where
  "not_domain d target = R_Logic (''((DOMAIN,'' @ d @ ''))'') target RT_NOT [R_Common (R_Domain \<lparr>d_domain = d, d_adapter = ''''\<rparr>)]"

theorem parse_rule_well_formed_witness:
  "ParseRule plain_env ''NOT'' ''((DOMAIN,a.com))'' ''PROXY'' [] = Inr (not_domain ''a.com'' ''PROXY'')
   \<and> rule_ok (not_domain ''a.com'' ''PROXY'')"
proof -
  have r: "ParseRule plain_env ''NOT'' ''((DOMAIN,a.com))'' ''PROXY'' [] = Inr (not_domain ''a.com'' ''PROXY'')" by code_simp
  with parse_rule_well_formed[OF r] show ?thesis by simp
qed

section \<open>How a logic payload is cut\<close>

text \<open>Text whose brackets pair up, after \<open>d\<close> open ones.\<close>

fun balanced_from :: "nat \<Rightarrow> string \<Rightarrow> bool" where
  "balanced_from d [] \<longleftrightarrow> d = 0"
| "balanced_from d (c # cs) \<longleftrightarrow>
     (if c = CHR ''('' then balanced_from (d + 1) cs
      else if c = CHR '')'' then 0 < d \<and> balanced_from (d - 1) cs
      else balanced_from d cs)"

definition bracket_free :: "string \<Rightarrow> bool" where
  "bracket_free s \<longleftrightarrow> CHR ''('' \<notin> set s \<and> CHR '')'' \<notin> set s"

text \<open>Bracketed payloads, each after a separator, and where they stand.\<close>

definition groups_text :: "(string \<times> string) list \<Rightarrow> string" where
  "groups_text gs = concat (map (\<lambda>(s, p). s @ ''('' @ p @ '')'') gs)"

fun group_ranges :: "nat \<Rightarrow> (string \<times> string) list \<Rightarrow> Range list" where
  "group_ranges k [] = []"
| "group_ranges k ((s, p) # gs) =
     \<lparr>rg_start = k + length s, rg_end = k + length s + length p + 1\<rparr> # group_ranges (k + length s + length p + 2) gs"

lemma format_bracket_free:
  "bracket_free s \<Longrightarrow> format_loop i (s @ rest) st acc = format_loop (i + length s) rest st acc"
  by (induction s arbitrary: i) (auto simp: bracket_free_def)

definition within :: "nat \<Rightarrow> nat \<Rightarrow> Range \<Rightarrow> bool" where
  "within a b r \<longleftrightarrow> a \<le> rg_start r \<and> rg_start r < rg_end r \<and> rg_end r < b"

lemma format_balanced:
  assumes "balanced_from (length ss) p" and "\<forall>s \<in> set ss. s < i"
  shows "\<exists>rs. (\<forall>rest acc. format_loop i (p @ rest) (ss @ st) acc = format_loop (i + length p) rest st (acc @ rs))
     \<and> (\<forall>r \<in> set rs. rg_end r < i + length p \<and> rg_start r < rg_end r \<and> (rg_start r \<in> set ss \<or> i \<le> rg_start r))"
  using assms
proof (induction p arbitrary: i ss)
  case Nil
  then show ?case by (intro exI[of _ "[]"]) simp
next
  case (Cons c p)
  consider (open_) "c = CHR ''(''" | (close_) "c = CHR '')''" | (other) "c \<noteq> CHR ''(''" "c \<noteq> CHR '')''" by blast
  then show ?case
  proof cases
    case open_
    with Cons.prems have "balanced_from (length (i # ss)) p" "\<forall>s \<in> set (i # ss). s < Suc i" by auto
    from Cons.IH[OF this] open_ show ?thesis by fastforce
  next
    case close_
    with Cons.prems obtain s ss' where ss: "ss = s # ss'" by (cases ss) auto
    with close_ Cons.prems have "balanced_from (length ss') p" "\<forall>s \<in> set ss'. s < Suc i" by auto
    from Cons.IH[OF this] obtain rs where
      rs: "\<forall>rest acc. format_loop (Suc i) (p @ rest) (ss' @ st) acc = format_loop (Suc i + length p) rest st (acc @ rs)"
        "\<forall>r \<in> set rs. rg_end r < Suc i + length p \<and> rg_start r < rg_end r \<and> (rg_start r \<in> set ss' \<or> Suc i \<le> rg_start r)" by blast
    with close_ ss Cons.prems(2) show ?thesis
      by (intro exI[of _ "\<lparr>rg_start = s, rg_end = i\<rparr> # rs"]) auto
  next
    case other
    with Cons.prems have "balanced_from (length ss) p" "\<forall>s \<in> set ss. s < Suc i" by auto
    from Cons.IH[OF this] other show ?thesis by fastforce
  qed
qed

lemma group_ranges_within: "r \<in> set (group_ranges k gs) \<Longrightarrow> within k (k + length (groups_text gs)) r"
proof (induction k gs rule: group_ranges.induct)
  case (2 k s p gs)
  then show ?case by (fastforce simp: within_def groups_text_def)
qed simp

lemma format_groups:
  assumes "\<forall>(s, p) \<in> set gs. bracket_free s \<and> balanced_from 0 p"
  shows "\<exists>rs. (\<forall>rest acc. format_loop k (groups_text gs @ rest) st acc = format_loop (k + length (groups_text gs)) rest st (acc @ rs))
     \<and> filter (\<lambda>r. r \<in> set (group_ranges k gs)) rs = group_ranges k gs
     \<and> (\<forall>r \<in> set rs. within k (k + length (groups_text gs)) r)
     \<and> (\<forall>r \<in> set rs. r \<in> set (group_ranges k gs) \<or> (\<exists>g \<in> set (group_ranges k gs). containRange r (rg_start g) (rg_end g)))"
  using assms
proof (induction k gs rule: group_ranges.induct)
  case (1 k)
  then show ?case by (intro exI[of _ "[]"]) (simp add: groups_text_def)
next
  case (2 k s p gs)
  let ?j = "k + length s" and ?k = "k + length s + length p + 2"
  let ?g = "\<lparr>rg_start = ?j, rg_end = ?j + length p + 1\<rparr>"
  have gtext: "groups_text ((s, p) # gs) = s @ ''('' @ p @ '')'' @ groups_text gs" by (simp add: groups_text_def)
  obtain rs where rs: "\<And>rest acc. format_loop ?k (groups_text gs @ rest) st acc = format_loop (?k + length (groups_text gs)) rest st (acc @ rs)"
    "filter (\<lambda>r. r \<in> set (group_ranges ?k gs)) rs = group_ranges ?k gs"
    "\<forall>r \<in> set rs. within ?k (?k + length (groups_text gs)) r"
    "\<forall>r \<in> set rs. r \<in> set (group_ranges ?k gs) \<or> (\<exists>g \<in> set (group_ranges ?k gs). containRange r (rg_start g) (rg_end g))"
    using 2 by auto
  obtain ins where ins: "\<And>rest acc. format_loop (?j + 1) (p @ rest) (?j # st) acc = format_loop (?j + 1 + length p) rest (?j # st) (acc @ ins)"
    "\<forall>r \<in> set ins. within (?j + 1) (?j + 1 + length p) r"
    using format_balanced[of "[]" p "?j + 1" "?j # st"] 2(2) by (auto simp: within_def)
  have loop: "format_loop k (groups_text ((s, p) # gs) @ rest) st acc
      = format_loop (k + length (groups_text ((s, p) # gs))) rest st (acc @ (ins @ ?g # rs))" for rest acc
    using 2(2) ins(1) rs(1) by (simp add: gtext format_bracket_free algebra_simps)
  have G: "\<forall>g \<in> set (group_ranges ?k gs). within ?k (?k + length (groups_text gs)) g" using group_ranges_within by blast
  have len: "length (groups_text ((s, p) # gs)) = length s + length p + 2 + length (groups_text gs)" by (simp add: gtext)
  have ins_out: "r \<noteq> ?g \<and> r \<notin> set (group_ranges ?k gs) \<and> containRange r (rg_start ?g) (rg_end ?g)" if "r \<in> set ins" for r
    using that ins(2) G by (fastforce simp: within_def containRange_def)
  have rs_out: "r \<noteq> ?g" if "r \<in> set rs" for r using that rs(3) by (fastforce simp: within_def)
  have "filter (\<lambda>r. r \<in> set (group_ranges k ((s, p) # gs))) rs = filter (\<lambda>r. r \<in> set (group_ranges ?k gs)) rs"
    using rs_out by (intro filter_cong) auto
  moreover have "filter (\<lambda>r. r \<in> set (group_ranges k ((s, p) # gs))) ins = []"
    using ins_out by (auto simp: filter_empty_conv)
  ultimately have "filter (\<lambda>r. r \<in> set (group_ranges k ((s, p) # gs))) (ins @ ?g # rs) = group_ranges k ((s, p) # gs)"
    using rs(2) by simp
  moreover have "\<forall>r \<in> set (ins @ ?g # rs). within k (k + length (groups_text ((s, p) # gs))) r"
    using ins(2) rs(3) unfolding len by (fastforce simp: within_def)
  moreover have "\<forall>r \<in> set (ins @ ?g # rs). r \<in> set (group_ranges k ((s, p) # gs))
      \<or> (\<exists>g \<in> set (group_ranges k ((s, p) # gs)). containRange r (rg_start g) (rg_end g))"
    using ins_out rs(4) by auto
  ultimately show ?case using loop by blast
qed

lemma group_ranges_sorted: "sorted (map rg_start (group_ranges k gs))"
proof (induction k gs rule: group_ranges.induct)
  case (2 k s p gs)
  then show ?case using group_ranges_within[of _ "k + length s + length p + 2" gs] by (fastforce simp: within_def)
qed simp

lemma group_ranges_apart:
  "g \<in> set (group_ranges k gs) \<Longrightarrow> h \<in> set (group_ranges k gs) \<Longrightarrow> \<not> containRange g (rg_start h) (rg_end h)"
proof (induction k gs rule: group_ranges.induct)
  case (2 k s p gs)
  then show ?case
    using group_ranges_within[of g "k + length s + length p + 2" gs] group_ranges_within[of h "k + length s + length p + 2" gs]
    by (auto simp: within_def containRange_def)
qed simp

text \<open>
  On ranges in the order of their starts, the loop keeps the outermost ones, if every other range
  is inside one of them.
\<close>

lemma find_loop_outermost:
  assumes "sorted (map rg_start rs)" and "set acc \<subseteq> G"
    and "\<forall>r \<in> set rs. (r \<in> G \<and> \<not> (rg_start r = 0 \<and> int (rg_end r) = int n - 1))
           \<or> (r \<notin> G \<and> (\<exists>g \<in> G. (g \<in> set acc \<or> g \<in> set rs) \<and> containRange r (rg_start g) (rg_end g)))
           \<or> (r \<notin> G \<and> rg_start r = 0 \<and> int (rg_end r) = int n - 1)"
    and "\<forall>g \<in> G. \<forall>h \<in> G. \<not> containRange g (rg_start h) (rg_end h)"
  shows "find_loop n acc rs = acc @ filter (\<lambda>r. r \<in> G) rs"
  using assms(1-3)
proof (induction rs arbitrary: acc)
  case (Cons r rs)
  have sorted: "sorted (map rg_start rs)" "\<forall>q \<in> set rs. rg_start r \<le> rg_start q" using Cons.prems(1) by auto
  show ?case
  proof (cases "r \<in> G")
    case True
    then have "\<not> list_ex (\<lambda>h. containRange r (rg_start h) (rg_end h)) acc"
      using Cons.prems(2) assms(4) by (fastforce simp: list_ex_iff)
    moreover have "\<not> (rg_start r = 0 \<and> int (rg_end r) = int n - 1)" using True Cons.prems(3) by fastforce
    moreover have "find_loop n (acc @ [r]) rs = (acc @ [r]) @ filter (\<lambda>r. r \<in> G) rs"
      by (rule Cons.IH) (use sorted(1) Cons.prems True in auto)
    ultimately show ?thesis using True by auto
  next
    case False
    have "find_loop n acc rs = acc @ filter (\<lambda>r. r \<in> G) rs"
      by (rule Cons.IH) (use sorted(1) Cons.prems False in auto)
    moreover have "(rg_start r = 0 \<and> int (rg_end r) = int n - 1) \<or> list_ex (\<lambda>h. containRange r (rg_start h) (rg_end h)) acc"
    proof (cases "rg_start r = 0 \<and> int (rg_end r) = int n - 1")
      case no: False
      then obtain g where g: "g \<in> G" "g \<in> set acc \<or> g \<in> set (r # rs)" "containRange r (rg_start g) (rg_end g)"
        using Cons.prems(3) False by fastforce
      have "g \<notin> set (r # rs)" using g(3) sorted(2) by (auto simp: containRange_def)
      with g show ?thesis by (auto simp: list_ex_iff)
    qed simp
    ultimately show ?thesis using False by auto
  qed
qed simp

lemma sub_payload_group:
  "sub_payload (pre @ ''('' @ p @ '')'' @ post) \<lparr>rg_start = length pre, rg_end = length pre + length p + 1\<rparr> = p"
  by (simp add: sub_payload_def)

lemma sub_payload_groups:
  "map (sub_payload (pre @ groups_text gs @ post)) (group_ranges (length pre) gs) = map snd gs"
proof (induction gs arbitrary: pre)
  case (Cons g gs)
  obtain s p where g: "g = (s, p)" by fastforce
  have t: "pre @ groups_text (g # gs) @ post = (pre @ s) @ ''('' @ p @ '')'' @ (groups_text gs @ post)"
      "pre @ groups_text (g # gs) @ post = (pre @ s @ ''('' @ p @ '')'') @ groups_text gs @ post" by (simp_all add: g groups_text_def)
  have "sub_payload (pre @ groups_text (g # gs) @ post) \<lparr>rg_start = length pre + length s, rg_end = length pre + length s + length p + 1\<rparr> = p"
    unfolding t(1) using sub_payload_group[of "pre @ s" p] by simp
  moreover have "length pre + length s + length p + 2 = length (pre @ s @ ''('' @ p @ '')'')" by simp
  then have "map (sub_payload (pre @ groups_text (g # gs) @ post)) (group_ranges (length pre + length s + length p + 2) gs) = map snd gs"
    unfolding t(2) using Cons.IH[of "pre @ s @ ''('' @ p @ '')''"] by metis
  ultimately show ?case by (simp add: g)
qed (simp add: groups_text_def)

text \<open>
  C7: a logic payload that is a bracketed sequence of bracketed payloads, with any text without
  brackets between and after them, is cut into exactly these payloads, in their order, whatever
  brackets they contain themselves as long as these pair up. So the nesting of logic rules is read
  as it is written.
\<close>
theorem logic_payload_cut:
  assumes "\<forall>(s, p) \<in> set gs. bracket_free s \<and> balanced_from 0 p" and "bracket_free tail"
  shows "parsePayload (''('' @ groups_text gs @ tail @ '')'') parseRule = parse_all parseRule (map snd gs)"
proof -
  let ?p = "''('' @ groups_text gs @ tail @ '')''" and ?G = "set (group_ranges 1 gs)"
  let ?full = "\<lparr>rg_start = 0, rg_end = 1 + length (groups_text gs) + length tail\<rparr>"
  obtain rs where rs: "\<And>rest acc. format_loop 1 (groups_text gs @ rest) [0] acc = format_loop (1 + length (groups_text gs)) rest [0] (acc @ rs)"
    "filter (\<lambda>r. r \<in> ?G) rs = group_ranges 1 gs" "\<forall>r \<in> set rs. within 1 (1 + length (groups_text gs)) r"
    "\<forall>r \<in> set rs. r \<in> ?G \<or> (\<exists>g \<in> ?G. containRange r (rg_start g) (rg_end g))"
    using format_groups[OF assms(1), of 1 "[0]"] by blast
  have "format_loop 0 ?p [] [] = Inr ([], rs @ [?full])"
    using rs(1)[of "tail @ '')''" "[]"] by (simp add: format_bracket_free[OF assms(2)])
  then have fm: "format ?p = Inr (sort_key rg_start (rs @ [?full]))" by (simp add: format_def)
  have G: "\<forall>g \<in> ?G. within 1 (1 + length (groups_text gs)) g" using group_ranges_within by blast
  have full: "?full \<notin> ?G" using G by (auto simp: within_def)
  have sub: "?G \<subseteq> set rs" by (metis filter_is_subset rs(2))
  have "findSubRuleRange ?p (sort_key rg_start (rs @ [?full])) = [] @ filter (\<lambda>r. r \<in> ?G) (sort_key rg_start (rs @ [?full]))"
    unfolding findSubRuleRange_def
  proof (rule find_loop_outermost)
    show "\<forall>g \<in> ?G. \<forall>h \<in> ?G. \<not> containRange g (rg_start h) (rg_end h)" using group_ranges_apart by blast
    show "\<forall>r \<in> set (sort_key rg_start (rs @ [?full])).
        (r \<in> ?G \<and> \<not> (rg_start r = 0 \<and> int (rg_end r) = int (length ?p) - 1))
        \<or> (r \<notin> ?G \<and> (\<exists>g \<in> ?G. (g \<in> set [] \<or> g \<in> set (sort_key rg_start (rs @ [?full]))) \<and> containRange r (rg_start g) (rg_end g)))
        \<or> (r \<notin> ?G \<and> rg_start r = 0 \<and> int (rg_end r) = int (length ?p) - 1)"
      using rs(4) G full sub by (fastforce simp: within_def)
  qed simp_all
  also have "\<dots> = sort_key rg_start (group_ranges 1 gs)" using rs(2) full by (simp add: filter_sort)
  also have "\<dots> = group_ranges 1 gs" by (rule sort_key_id_if_sorted) (rule group_ranges_sorted)
  finally have "findSubRuleRange ?p (sort_key rg_start (rs @ [?full])) = group_ranges 1 gs" .
  moreover have "map (sub_payload ?p) (group_ranges 1 gs) = map snd gs"
    using sub_payload_groups[of "''(''" gs "tail @ '')''"] by simp
  moreover have "HasPrefix ?p ''(''" "HasSuffix ?p '')''" unfolding HasPrefix_iff HasSuffix_iff by auto
  ultimately show ?thesis unfolding parsePayload_def fm by simp
qed

theorem logic_payload_cut_witness:
  "parsePayload ''((DOMAIN,a.com), (NOT,((DST-PORT,80))))'' (ParseRule plain_env)
   = parse_all (ParseRule plain_env) [''DOMAIN,a.com'', ''NOT,((DST-PORT,80))'']"
  using logic_payload_cut[of "[('''', ''DOMAIN,a.com''), ('', '', ''NOT,((DST-PORT,80))'')]" "''''" "ParseRule plain_env"]
  by (simp add: bracket_free_def groups_text_def)
end
