(* ===== verification/Rule_Config_Properties.thy ===== *)
theory Rule_Config_Properties
  imports Rule_Config Rules_Properties
begin

text \<open>
  When matching a rule of a configuration returns: the check of the sub-rules makes every chain of
  them end, so only rule sets that refer to themselves are left. They can: a classical rule provider
  may contain its own rule set inside a logic rule.
\<close>

section \<open>More fuel changes nothing\<close>

lemma bind_refines:
  assumes "m \<bind> f = Some y" and "\<And>v. m = Some v \<Longrightarrow> m' = Some v" and "\<And>v. m = Some v \<Longrightarrow> f v = Some y \<Longrightarrow> f' v = Some y"
  shows "m' \<bind> f' = Some (y :: 'a)"
  using assms by (cases m) auto

lemma any_rule_refines:
  "(\<And>r s x. r \<in> set rs \<Longrightarrow> f r s = Some x \<Longrightarrow> g r s = Some x) \<Longrightarrow> any_rule f rs st = Some y \<Longrightarrow> any_rule g rs st = Some y"
proof (induction rs arbitrary: st)
  case (Cons r rs)
  from Cons.prems(2) show ?case unfolding any_rule.simps
    by (rule bind_refines) (use Cons in \<open>auto split: if_splits prod.splits\<close>)
qed simp

lemma all_rules_refines:
  "(\<And>r s x. r \<in> set rs \<Longrightarrow> f r s = Some x \<Longrightarrow> g r s = Some x) \<Longrightarrow> all_rules f rs st = Some y \<Longrightarrow> all_rules g rs st = Some y"
proof (induction rs arbitrary: st)
  case (Cons r rs)
  from Cons.prems(2) show ?case unfolding all_rules.simps
    by (rule bind_refines) (use Cons in \<open>auto split: if_splits prod.splits\<close>)
qed simp

lemma sub_rules_loop_refines:
  "(\<And>r s x. f r s = Some x \<Longrightarrow> g r s = Some x) \<Longrightarrow> (\<And>a s x. h a s = Some x \<Longrightarrow> k a s = Some x)
   \<Longrightarrow> sub_rules_loop H f h rs st = Some y \<Longrightarrow> sub_rules_loop H g k rs st = Some y"
proof (induction rs arbitrary: st)
  case (Cons r rs)
  have tail: "sub_rules_loop H f h rs s = Some y \<Longrightarrow> sub_rules_loop H g k rs s = Some y" for s
    using Cons by blast
  from Cons.prems(3) show ?case unfolding sub_rules_loop.simps
  proof (rule bind_refines)
    fix v
    assume *: "(case v of (xa, st) \<Rightarrow> (case xa of (m, a) \<Rightarrow> \<lambda>st.
        if m then (if Rule_RuleType r = RT_SubRules then h (Rule_Adapter r) st else Some ((m, a), st)) \<bind>
          (\<lambda>((m, a), st). if m \<and> pass_rule H a st then sub_rules_loop H f h rs st else Some ((m, a), st))
        else sub_rules_loop H f h rs st) st) = Some y"
    obtain m a s where v: "v = ((m, a), s)" by (metis surj_pair)
    show "(case v of (xa, st) \<Rightarrow> (case xa of (m, a) \<Rightarrow> \<lambda>st.
        if m then (if Rule_RuleType r = RT_SubRules then k (Rule_Adapter r) st else Some ((m, a), st)) \<bind>
          (\<lambda>((m, a), st). if m \<and> pass_rule H a st then sub_rules_loop H g k rs st else Some ((m, a), st))
        else sub_rules_loop H g k rs st) st) = Some y"
    proof (cases m)
      case True
      from * have "(if Rule_RuleType r = RT_SubRules then h (Rule_Adapter r) s else Some ((m, a), s)) \<bind>
          (\<lambda>((m, a), st). if m \<and> pass_rule H a st then sub_rules_loop H f h rs st else Some ((m, a), st)) = Some y"
        unfolding v by (simp only: True prod.case if_True)
      then have "(if Rule_RuleType r = RT_SubRules then k (Rule_Adapter r) s else Some ((m, a), s)) \<bind>
          (\<lambda>((m, a), st). if m \<and> pass_rule H a st then sub_rules_loop H g k rs st else Some ((m, a), st)) = Some y"
        by (rule bind_refines) ((simp add: tail Cons.prems(2) split_beta split: if_splits); blast?)+
      then show ?thesis unfolding v by (simp only: True prod.case if_True)
    qed (use * tail in \<open>simp add: v\<close>)
  qed (use Cons.prems(1) in blast)
qed simp

lemma RuleSet_Match_refines:
  assumes "\<And>H rs s x. cl H rs s = Some x \<Longrightarrow> cl' H rs s = Some x" and "RuleSet_Match P cl H r st = Some y"
  shows "RuleSet_Match P cl' H r st = Some y"
proof (cases "map_of P (rs_ruleProviderName r)")
  case (Some strategy)
  obtain H' s where e: "rule_set_enter r H st = (H', s)" by (cases "rule_set_enter r H st") simp
  have strat: "Strategy_Match cl H' strategy s = Some x \<Longrightarrow> Strategy_Match cl' H' strategy s = Some x" for x
    by (cases strategy) (auto simp: Strategy_Match_def assms(1))
  from assms(2) have "Strategy_Match cl H' strategy s \<bind> (\<lambda>(m, st). Some ((m, rs_adapter r), rule_set_leave r st)) = Some y"
    by (simp add: RuleSet_Match_def Some e)
  then have "Strategy_Match cl' H' strategy s \<bind> (\<lambda>(m, st). Some ((m, rs_adapter r), rule_set_leave r st)) = Some y"
    by (rule bind_refines) (use strat in auto)
  then show ?thesis by (simp add: RuleSet_Match_def Some e)
qed (use assms(2) in \<open>simp add: RuleSet_Match_def\<close>)

lemma Match_one_refines:
  assumes "\<And>H a s x. sub H a s = Some x \<Longrightarrow> sub' H a s = Some x"
    and "\<And>H rs s x. cl H rs s = Some x \<Longrightarrow> cl' H rs s = Some x"
  shows "Match_one E P sub cl H r st = Some y \<Longrightarrow> Match_one E P sub' cl' H r st = Some y"
proof (induction r arbitrary: st y)
  case (R_RuleSet r)
  then show ?case using RuleSet_Match_refines[OF assms(2)] by simp
next
  case (R_Logic p a t rs)
  have any: "any_rule (Match_one E P sub cl H) rs s = Some x \<Longrightarrow> any_rule (Match_one E P sub' cl' H) rs s = Some x" for s x
    by (rule any_rule_refines[of rs]) (use R_Logic.IH in auto)
  have all: "all_rules (Match_one E P sub cl H) rs s = Some x \<Longrightarrow> all_rules (Match_one E P sub' cl' H) rs s = Some x" for s x
    by (rule all_rules_refines[of rs]) (use R_Logic.IH in auto)
  have first: "Match_one E P sub cl H r s = Some x \<Longrightarrow> Match_one E P sub' cl' H r s = Some x" if "rs = r # q" for r q s x
    using R_Logic.IH that by simp
  consider "t = RT_SubRules" | "t = RT_NOT" | "t = RT_OR" | "t = RT_AND" | "t \<notin> {RT_SubRules, RT_NOT, RT_OR, RT_AND}" by blast
  then show ?case
  proof cases
    case 1
    then obtain r q where "rs = r # q" using R_Logic.prems by (cases rs) auto
    note first = first[OF this]
    from 1 \<open>rs = _\<close> R_Logic.prems have "Match_one E P sub cl H r st \<bind> (\<lambda>((m, _), st). if m then sub H a st else Some ((False, ''''), st)) = Some y"
      by simp
    then have "Match_one E P sub' cl' H r st \<bind> (\<lambda>((m, _), st). if m then sub' H a st else Some ((False, ''''), st)) = Some y"
      by (rule bind_refines) (simp_all add: first assms(1) split_beta split: if_splits)
    then show ?thesis using 1 \<open>rs = _\<close> by simp
  next
    case 2
    then obtain r q where "rs = r # q" using R_Logic.prems by (cases rs) auto
    note first = first[OF this]
    from 2 \<open>rs = _\<close> R_Logic.prems have "Match_one E P sub cl H r st \<bind> (\<lambda>((m, _), st). if \<not> m then Some ((True, a), st) else Some ((False, ''''), st)) = Some y"
      by simp
    then have "Match_one E P sub' cl' H r st \<bind> (\<lambda>((m, _), st). if \<not> m then Some ((True, a), st) else Some ((False, ''''), st)) = Some y"
      by (rule bind_refines) (simp_all add: first)
    then show ?thesis using 2 \<open>rs = _\<close> by simp
  next
    case 3
    then have "any_rule (Match_one E P sub cl H) rs st \<bind> (\<lambda>(m, st). if m then Some ((True, a), st) else Some ((False, ''''), st)) = Some y"
      using R_Logic.prems by simp
    then have "any_rule (Match_one E P sub' cl' H) rs st \<bind> (\<lambda>(m, st). if m then Some ((True, a), st) else Some ((False, ''''), st)) = Some y"
      by (rule bind_refines) (use any in auto)
    then show ?thesis using 3 by simp
  next
    case 4
    then have "all_rules (Match_one E P sub cl H) rs st \<bind> (\<lambda>(m, st). Some ((m, a), st)) = Some y"
      using R_Logic.prems by simp
    then have "all_rules (Match_one E P sub' cl' H) rs st \<bind> (\<lambda>(m, st). Some ((m, a), st)) = Some y"
      by (rule bind_refines) (use all in auto)
    then show ?thesis using 4 by simp
  qed (use R_Logic.prems in simp)
qed simp

lemma match_fuel_step:
  fixes st :: "'s mstate"
  shows "(matchSubRules E S P n H name st = Some x \<longrightarrow> matchSubRules E S P (Suc n) H name st = Some x)
   \<and> (Classical_Match E S P n H' rs st = Some y \<longrightarrow> Classical_Match E S P (Suc n) H' rs st = Some y)"
proof (induction n arbitrary: H H' name rs st x y)
  case (Suc n)
  note one = Match_one_refines[of "matchSubRules E S P n" "matchSubRules E S P (Suc n)" "Classical_Match E S P n" "Classical_Match E S P (Suc n)"]
  have *: "Match_one E P (matchSubRules E S P n) (Classical_Match E S P n) H r s = Some z
     \<Longrightarrow> Match_one E P (matchSubRules E S P (Suc n)) (Classical_Match E S P (Suc n)) H r s = Some z" for H :: "'s RuleMatchHelper" and r s z
    by (rule one) (use Suc.IH in blast)+
  show ?case
  proof (intro conjI impI)
    assume A: "matchSubRules E S P (Suc n) H name st = Some x"
    show "matchSubRules E S P (Suc (Suc n)) H name st = Some x"
      by (subst matchSubRules.simps(2), rule sub_rules_loop_refines[OF _ _ A[unfolded matchSubRules.simps(2)]])
         (use * Suc.IH in blast)+
  next
    assume A: "Classical_Match E S P (Suc n) H' rs st = Some y"
    show "Classical_Match E S P (Suc (Suc n)) H' rs st = Some y"
      by (subst Classical_Match.simps(2), rule any_rule_refines[OF _ A[unfolded Classical_Match.simps(2)]])
         (use * in blast)
  qed
qed simp

lemma Rule_Match_fuel:
  fixes st :: "'s mstate"
  assumes "Rule_Match E S P n H r st = Some x" and "n \<le> m"
  shows "Rule_Match E S P m H r st = Some x"
proof -
  have step: "Rule_Match E S P (Suc k) H r st = Some x" if "Rule_Match E S P k H r st = Some x" for k
    unfolding Rule_Match_def
    by (rule Match_one_refines[OF _ _ that[unfolded Rule_Match_def]]) (use match_fuel_step[where ?'s = 's] in blast)+
  show ?thesis using assms(2,1) by (induction rule: dec_induct) (use step in blast)+
qed

section \<open>A match returns\<close>

definition returns :: "'a option \<Rightarrow> bool" where
  "returns x \<longleftrightarrow> x \<noteq> None"

lemma returns_Some [simp, intro]: "returns (Some x)"
  by (simp add: returns_def)

lemma returns_map [simp]: "returns (map_option f x) \<longleftrightarrow> returns x"
  by (simp add: returns_def)

lemma returns_bind: "returns m \<Longrightarrow> (\<And>v. m = Some v \<Longrightarrow> returns (f v)) \<Longrightarrow> returns (m \<bind> f)"
  by (cases m) (simp_all add: returns_def)

lemma suffix_bytes_returns: "length a = length b \<Longrightarrow> i \<le> length b \<Longrightarrow> returns (suffix_bytes a b i)"
  by (induction i) (auto simp: byte_at_def)

lemma IPSuffix_Match_returns:
  assumes "is_bits r \<le> 8 * length (is_ipBytes r)"
  shows "returns (IPSuffix_Match H r st)"
proof -
  have 1: "is_bits r div 8 \<le> length (is_ipBytes r)" using assms by linarith
  have 2: "is_bits r div 8 < length (is_ipBytes r)" if "is_bits r mod 8 \<noteq> 0"
    using assms that by (metis dvd_imp_mod_0 dvd_triv_left less_mult_imp_div_less linorder_neqE_nat mult.commute not_le)
  show ?thesis
    unfolding IPSuffix_Match_def Let_def
    using 1 2 by (auto intro!: returns_bind suffix_bytes_returns simp: byte_at_def)
qed

lemma Process_Match_returns:
  assumes "common_ok (R_Process r)"
  shows "returns (Process_Match E H r st)"
proof -
  have "returns (Wildcard.Match p s)" for p s using Match_returns by (simp add: returns_def)
  then show ?thesis
    using assms unfolding Process_Match_def Let_def by (auto intro!: returns_bind split: option.split)
qed

lemma Common_Match_returns:
  assumes "common_ok r"
  shows "returns (Common_Match E H r st)"
proof (cases r)
  case (R_DomainWildcard x)
  then show ?thesis using Match_returns by (simp add: DomainWildcard_Match_def returns_def)
next
  case (R_IPSuffix x)
  then show ?thesis using assms IPSuffix_Match_returns by simp
next
  case (R_Process x)
  then show ?thesis using assms Process_Match_returns by simp
qed simp_all

lemma any_rule_returns: "(\<And>r s. r \<in> set rs \<Longrightarrow> returns (f r s)) \<Longrightarrow> returns (any_rule f rs st)"
  by (induction rs arbitrary: st) (auto intro!: returns_bind simp: split_beta)

lemma all_rules_returns: "(\<And>r s. r \<in> set rs \<Longrightarrow> returns (f r s)) \<Longrightarrow> returns (all_rules f rs st)"
  by (induction rs arbitrary: st) (auto intro!: returns_bind simp: split_beta)

lemma sub_rules_loop_returns:
  "(\<And>r s. r \<in> set rs \<Longrightarrow> returns (f r s))
   \<Longrightarrow> (\<And>r s. r \<in> set rs \<Longrightarrow> Rule_RuleType r = RT_SubRules \<Longrightarrow> returns (h (Rule_Adapter r) s))
   \<Longrightarrow> returns (sub_rules_loop H f h rs st)"
  by (induction rs arbitrary: st) (auto intro!: returns_bind simp: split_beta)

lemma Match_one_returns:
  assumes "rule_ok r" and "Rule_RuleType r = RT_SubRules \<Longrightarrow> \<forall>st. returns (sub H (Rule_Adapter r) st)"
    and "\<And>name rules H st. name \<in> set (ProviderNames r) \<Longrightarrow> map_of P name = Some (classicalStrategy rules) \<Longrightarrow> returns (cl H rules st)"
  shows "returns (Match_one E P sub cl H r st)"
  using assms
proof (induction r arbitrary: st)
  case (R_Common r)
  then show ?case using Common_Match_returns by simp
next
  case (R_RuleSet r)
  have "returns (cl H rules st)" if "map_of P (rs_ruleProviderName r) = Some (classicalStrategy rules)" for H rules st
    by (rule R_RuleSet.prems(3)[OF _ that]) simp
  then show ?case
    unfolding Match_one.simps RuleSet_Match_def Strategy_Match_def Let_def split_beta
    by (cases "map_of P (rs_ruleProviderName r)"; simp) (intro returns_bind; simp split: ruleStrategy.split)
next
  case (R_Logic p a t rs)
  have sub: "returns (Match_one E P sub cl H r st)" if "r \<in> set rs" for r st
  proof (rule R_Logic.IH[OF that])
    fix name rules H st
    assume "name \<in> set (ProviderNames r)" and p: "map_of P name = Some (classicalStrategy rules)"
    then have "name \<in> set (ProviderNames (R_Logic p a t rs))" using that by auto
    then show "returns (cl H rules st)" using p by (rule R_Logic.prems(3))
  qed (use R_Logic.prems(1) that in auto)
  note any = any_rule_returns[OF sub] and all = all_rules_returns[OF sub]
  consider (one) r where "t \<in> {RT_SubRules, RT_NOT}" "rs = [r]" | "t = RT_OR" | "t = RT_AND"
    using R_Logic.prems(1) by (auto simp: length_Suc_conv)
  then show ?case
  proof cases
    case (one r)
    then have "returns (Match_one E P sub cl H r st)" using sub by simp
    with one R_Logic.prems(2) show ?thesis by (auto intro!: returns_bind simp: split_beta)
  qed (auto intro!: returns_bind any all simp: split_beta)
qed

text \<open>What is asked of the providers: well-formed rules, none of them a sub-rule, and no rule set in them.\<close>

definition providers_ok :: "rule_providers \<Rightarrow> bool" where
  "providers_ok P \<longleftrightarrow> (\<forall>name rules. map_of P name = Some (classicalStrategy rules)
     \<longrightarrow> (\<forall>r \<in> set rules. rule_ok r \<and> Rule_RuleType r \<noteq> RT_SubRules \<and> ProviderNames r = []))"

definition sub_rules_ok :: "sub_rules \<Rightarrow> bool" where
  "sub_rules_ok S \<longleftrightarrow> (\<forall>name. \<forall>r \<in> set (sub_rules_of S name). rule_ok r)"

lemma Classical_Match_returns:
  assumes "\<forall>r \<in> set rules. rule_ok r \<and> Rule_RuleType r \<noteq> RT_SubRules \<and> ProviderNames r = []"
  shows "returns (Classical_Match E S P (Suc n) H rules st)"
  unfolding Classical_Match.simps by (rule any_rule_returns, rule Match_one_returns) (use assms in auto)

lemma Rule_returns:
  fixes H :: "'s RuleMatchHelper"
  assumes "providers_ok P" and "rule_ok r" and "0 < n"
    and "Rule_RuleType r = RT_SubRules \<Longrightarrow> \<forall>st. returns (matchSubRules E S P n H (Rule_Adapter r) st)"
  shows "returns (Match_one E P (matchSubRules E S P n) (Classical_Match E S P n) H r st)"
proof (rule Match_one_returns[OF assms(2)])
  fix name rules and H :: "'s RuleMatchHelper" and st
  assume "map_of P name = Some (classicalStrategy rules)"
  then have "\<forall>r \<in> set rules. rule_ok r \<and> Rule_RuleType r \<noteq> RT_SubRules \<and> ProviderNames r = []"
    using assms(1) by (auto simp: providers_ok_def)
  moreover obtain k where "n = Suc k" using assms(3) by (cases n) auto
  ultimately show "returns (Classical_Match E S P n H rules st)" using Classical_Match_returns by metis
qed (use assms(4) in simp)

lemma matchSubRules_returns:
  fixes H :: "'s RuleMatchHelper"
  assumes "verifySubRuleCircularReferences n S arr = None" and "n \<in> fst ` set S" and "n \<notin> set arr"
    and "providers_ok P" and "sub_rules_ok S" and "card (fst ` set S - set arr) < m"
  shows "returns (matchSubRules E S P m H n st)"
  using assms
proof (induction "card (fst ` set S - set arr)" arbitrary: n arr m st rule: less_induct)
  case less
  from less.prems(6) obtain k where m: "m = Suc k" and k: "card (fst ` set S - set arr) \<le> k" by (cases m) auto
  have "card (fst ` set S - set (arr @ [n])) < card (fst ` set S - set arr)"
    by (rule names_left_less) (use less.prems(2,3) in \<open>auto simp: map_of_eq_None_iff\<close>)
  then have "0 < k" using k by simp
  have nested: "returns (matchSubRules E S P k H (Rule_Adapter r) st)"
    if r: "r \<in> set (sub_rules_of S n)" "Rule_RuleType r = RT_SubRules" for r st
  proof -
    let ?a = "Rule_Adapter r"
    from r(1) obtain i where "(i, r) \<in> set (enumerate 0 (sub_rules_of S n))" by (metis in_set_conv_nth length_enumerate nth_enumerate_eq nth_mem)
    with less.prems(1) r(2) have "map_of S ?a \<noteq> None" "?a \<notin> set (arr @ [n])" "verifySubRuleCircularReferences ?a S (arr @ [n]) = None"
      by (subst (asm) verifySubRuleCircularReferences.simps, fastforce split: if_splits)+
    then show ?thesis
      using less.hyps[of "arr @ [n]" ?a k st] \<open>card (fst ` set S - set (arr @ [n])) < _\<close> k less.prems(4,5)
      by (auto simp: map_of_eq_None_iff)
  qed
  show ?case
    unfolding m matchSubRules.simps
  proof (rule sub_rules_loop_returns)
    fix r s
    assume "r \<in> set (sub_rules_of S n)"
    then show "returns (Match_one E P (matchSubRules E S P k) (Classical_Match E S P k) H r s)"
      using nested less.prems(4,5) \<open>0 < k\<close> by (intro Rule_returns) (auto simp: sub_rules_ok_def)
  qed (use nested in blast)
qed

lemma Rule_Match_returns:
  fixes H :: "'s RuleMatchHelper"
  assumes "verifySubRule S = None" and "providers_ok P" and "sub_rules_ok S" and "rule_ok r" and "length S < m"
  shows "returns (Rule_Match E S P m H r st)"
proof -
  have "card (fst ` set S) < m" using assms(5) card_image_le[OF finite_set, of fst S] card_length[of S] by linarith
  have "returns (matchSubRules E S P m H name st)" for name st
  proof (cases "name \<in> fst ` set S")
    case True
    then have "verifySubRuleCircularReferences name S [] = None" using assms(1) by (auto simp: verifySubRule_def)
    with True assms(2,3) \<open>card _ < m\<close> show ?thesis by (intro matchSubRules_returns) auto
  next
    case False
    then have "sub_rules_of S name = []" by (simp add: sub_rules_of_def map_of_eq_None_iff[THEN iffD2])
    then show ?thesis using assms(5) by (cases m) auto
  qed
  then show ?thesis unfolding Rule_Match_def using assms by (intro Rule_returns) auto
qed

section \<open>Rules from a configuration\<close>

lemma parse_lines_in: "parse_lines f k ls = Inr rs \<Longrightarrow> r \<in> set rs \<Longrightarrow> \<exists>i l. f i l = Inr r"
proof (induction ls arbitrary: k rs)
  case (Cons l ls)
  then obtain r' rs' where "f k l = Inr r'" "parse_lines f (k + 1) ls = Inr rs'" "rs = r' # rs'"
    by (auto split: sum.splits)
  with Cons show ?case by (cases "r = r'") auto
qed simp

lemma parse_line_parsed:
  assumes "parse_line E proxies provs subs form i l = Inr r"
  obtains tp payload target params where "ParseRule E tp payload target params = Inr r"
proof -
  obtain tp p t ps where pp: "ParseRulePayload l True = (tp, p, t, ps)" by (metis prod_cases4)
  show thesis
    by (rule that[of tp p t ps], cases "ParseRule E tp p t ps")
       (use assms in \<open>simp_all add: parse_line_def pp split: if_splits option.splits\<close>)
qed

lemma parseRules_ok:
  assumes "parseRules E ls proxies provs subs form = Inr rs" and "c \<in> set rs"
  shows "rule_ok (unwrap_rule c)"
proof -
  from assms obtain rules r where "parse_lines (parse_line E proxies provs subs form) 0 ls = Inr rules" "r \<in> set rules" "unwrap_rule c = r"
    by (auto simp: parseRules_def NewRuleWrapper_def split: sum.splits if_splits)
  then obtain i l where "parse_line E proxies provs subs form i l = Inr (unwrap_rule c)" using parse_lines_in by blast
  then obtain tp payload target params where "ParseRule E tp payload target params = Inr (unwrap_rule c)" by (rule parse_line_parsed)
  then show ?thesis using ParseRule_parsed_ok by (auto simp: parsed_ok_def)
qed

lemma sub_rules_parse_in:
  "sub_rules_parse f cfg = Inr S \<Longrightarrow> map_of S name = Some rules \<Longrightarrow> r \<in> set rules
   \<Longrightarrow> \<exists>n raw rs c. f n raw = Inr rs \<and> c \<in> set rs \<and> r = unwrap_rule c"
proof (induction cfg arbitrary: S)
  case (Cons x cfg)
  obtain n raw where x: "x = (n, raw)" by fastforce
  with Cons.prems(1) obtain rs S' where "f n raw = Inr rs" "sub_rules_parse f cfg = Inr S'" "S = (n, map unwrap_rule rs) # S'"
    by (auto split: sum.splits if_splits)
  show ?case
  proof (cases "name = n")
    case True
    with Cons.prems(2,3) \<open>S = _\<close> obtain c where "c \<in> set rs" "r = unwrap_rule c" by auto
    with \<open>f n raw = Inr rs\<close> show ?thesis by blast
  next
    case False
    with Cons \<open>S = _\<close> \<open>sub_rules_parse f cfg = Inr S'\<close> show ?thesis by simp
  qed
qed simp

lemma parseSubRules_ok:
  assumes "parseSubRules E cfg proxies provs = Inr S"
  shows "verifySubRule S = None" "sub_rules_ok S"
proof -
  from assms have p: "sub_rules_parse (\<lambda>name rawRules. parseRules E rawRules proxies provs (map fst cfg) (''sub-rules['' @ name @ '']'')) cfg = Inr S"
    and v: "verifySubRule S = None"
    by (auto simp: parseSubRules_def split: sum.splits option.splits)
  show "verifySubRule S = None" by (rule v)
  show "sub_rules_ok S"
    unfolding sub_rules_ok_def
  proof (intro allI ballI)
    fix name r
    assume "r \<in> set (sub_rules_of S name)"
    then obtain rules where "map_of S name = Some rules" "r \<in> set rules" by (cases "map_of S name") (auto simp: sub_rules_of_def)
    from sub_rules_parse_in[OF p this] parseRules_ok show "rule_ok r" by metis
  qed
qed

lemma classical_payload_ok:
  assumes "classical_payloadToRule E line = Inr r"
  shows "rule_ok r \<and> Rule_RuleType r \<noteq> RT_SubRules"
proof -
  obtain tp p t ps where "ParseRulePayload line False = (tp, p, t, ps)" by (metis prod_cases4)
  with assms have "ParseRule E tp p t ps = Inr r" "tp \<noteq> ''SUB-RULE''" by (auto simp: classical_payloadToRule_def split: if_splits)
  from ParseRule_parsed_ok[OF this(1)] this(2) show ?thesis by (auto simp: parsed_ok_def)
qed

lemma rulesParseInline_ok:
  "r \<in> set (cl_rules (rulesParseInline E ls c)) \<Longrightarrow> rule_ok r \<and> Rule_RuleType r \<noteq> RT_SubRules"
proof -
  have keep: "\<forall>r \<in> set (cl_rules (fold (\<lambda>r c. if r \<noteq> '''' then classical_Insert E r c else c) ls c)). rule_ok r \<and> Rule_RuleType r \<noteq> RT_SubRules"
    if "\<forall>r \<in> set (cl_rules c). rule_ok r \<and> Rule_RuleType r \<noteq> RT_SubRules" for c
    using that
  proof (induction ls arbitrary: c)
    case (Cons l ls)
    have "\<forall>r \<in> set (cl_rules (classical_Insert E l c)). rule_ok r \<and> Rule_RuleType r \<noteq> RT_SubRules"
      using Cons.prems classical_payload_ok[of E l] by (auto simp: classical_Insert_def split: sum.splits)
    from Cons.IH[OF this] Cons.IH[OF Cons.prems] show ?case by (cases "l = ''''") simp_all
  qed simp
  assume "r \<in> set (cl_rules (rulesParseInline E ls c))"
  then show ?thesis using keep[of "classical_Reset c"] by (simp add: rulesParseInline_def classical_Reset_def)
qed

text \<open>
  C9: matching returns. Let the sub-rules be accepted by \<open>parseSubRules\<close>, the rule by \<open>ParseRule\<close>, and
  every classical provider be built from lines of text by the provider itself, none of its rules
  with a rule set inside. Then the match of the rule gives a result, the same for any fuel above the
  number of sub-rules: the check for circular references makes every chain of sub-rules end.
\<close>
theorem configured_match_returns:
  assumes "parseSubRules E cfg proxies provs = Inr S" and "ParseRule E tp payload target params = Inr r"
    and "\<forall>name rules. map_of P name = Some (classicalStrategy rules) \<longrightarrow>
           (\<exists>ls c. rules = cl_rules (rulesParseInline E ls c)) \<and> (\<forall>r \<in> set rules. ProviderNames r = [])"
  shows "\<exists>res. \<forall>m > length S. Rule_Match E S P m H r st = Some res"
proof -
  have "rule_ok r" using ParseRule_parsed_ok[OF assms(2)] by (simp add: parsed_ok_def)
  moreover have "providers_ok P" using assms(3) rulesParseInline_ok by (fastforce simp: providers_ok_def)
  ultimately have "returns (Rule_Match E S P (length S + 1) H r st)"
    using parseSubRules_ok[OF assms(1)] by (intro Rule_Match_returns) auto
  then obtain res where "Rule_Match E S P (length S + 1) H r st = Some res" by (auto simp: returns_def)
  then have "\<forall>m > length S. Rule_Match E S P m H r st = Some res" by (auto intro: Rule_Match_fuel)
  then show ?thesis by blast
qed

definition two_sub_rules :: "(string \<times> string list) list" where
  "two_sub_rules = [(''a'', [''SUB-RULE,(NETWORK,tcp),b'', ''MATCH,DIRECT'']), (''b'', [''DOMAIN,x.com,PROXY''])]"

definition one_provider :: rule_providers where
  "one_provider = [(''ads'', classicalStrategy (cl_rules (rulesParseInline plain_env [''DOMAIN,ads.com''] NewClassicalStrategy)))]"

definition two_parsed :: sub_rules where
  "two_parsed = [(''a'', [R_Logic ''(NETWORK,tcp)'' ''b'' RT_SubRules [R_Common (R_NetworkType \<lparr>nt_network = TCP, nt_adapter = ''''\<rparr>)],
      R_Common (R_Match \<lparr>f_adapter = ''DIRECT''\<rparr>)]),
     (''b'', [R_Common (R_Domain \<lparr>d_domain = ''x.com'', d_adapter = ''PROXY''\<rparr>)])]"

theorem configured_match_returns_witness:
  "parseSubRules plain_env two_sub_rules [''DIRECT'', ''PROXY''] [''ads''] = Inr two_parsed
   \<and> (\<exists>res. \<forall>m > length two_parsed.
        Rule_Match plain_env two_parsed one_provider m no_helper (not_domain ''a.com'' ''PROXY'') (zero_Metadata, ()) = Some res)"
proof -
  have s: "parseSubRules plain_env two_sub_rules [''DIRECT'', ''PROXY''] [''ads''] = Inr two_parsed" by code_simp
  have r: "ParseRule plain_env ''NOT'' ''((DOMAIN,a.com))'' ''PROXY'' [] = Inr (not_domain ''a.com'' ''PROXY'')" by code_simp
  have "list_all (\<lambda>r. ProviderNames r = []) (cl_rules (rulesParseInline plain_env [''DOMAIN,ads.com''] NewClassicalStrategy))" by code_simp
  then have p: "\<forall>name rules. map_of one_provider name = Some (classicalStrategy rules) \<longrightarrow>
      (\<exists>ls c. rules = cl_rules (rulesParseInline plain_env ls c)) \<and> (\<forall>r \<in> set rules. ProviderNames r = [])"
    by (auto simp: one_provider_def list_all_iff)
  show ?thesis using s configured_match_returns[OF s r p, of no_helper "(zero_Metadata, ())"] by blast
qed

lemma self_provider_None:
  assumes "rule = R_Logic p a RT_AND [R_RuleSet (NewRuleSet name a' isSrc n)]"
  shows "Classical_Match E S [(name, classicalStrategy [rule])] m H [rule] st = None"
proof (induction m arbitrary: H st)
  case (Suc m)
  obtain H' s where "rule_set_enter (NewRuleSet name a' isSrc n) H st = (H', s)" by (metis surj_pair)
  with Suc show ?case by (simp add: assms RuleSet_Match_def Strategy_Match_def NewRuleSet_def)
qed simp

definition self_provider :: "rule_env \<Rightarrow> classical" where
  "self_provider E = rulesParseInline E [''AND,((RULE-SET,ads))''] NewClassicalStrategy"

text \<open>
  C31: the provider \<open>ads\<close> with the single line \<open>AND,((RULE-SET,ads))\<close> is accepted, with one rule, and a
  match of its rule set then never returns, on any packet and whatever the fuel: the classical strategy refuses a rule set
  only where it stands alone in its line, and a logic rule does not refuse it.
\<close>
theorem rule_set_in_itself_diverges:
  "cl_count (self_provider E) = 1
   \<and> Rule_Match E S [(''ads'', classicalStrategy (cl_rules (self_provider E)))] m H
       (R_RuleSet (NewRuleSet ''ads'' target isSrc noResolve)) st = None"
proof -
  let ?r = "R_Logic ''((RULE-SET,ads))'' '''' RT_AND [R_RuleSet (NewRuleSet ''ads'' '''' False False)]"
  have "classical_payloadToRule E ''AND,((RULE-SET,ads))'' = Inr ?r" by code_simp
  then have c: "self_provider E = \<lparr>cl_rules = [?r], cl_count = 1\<rparr>"
    by (simp add: self_provider_def rulesParseInline_def classical_Insert_def classical_Reset_def NewClassicalStrategy_def)
  obtain H' s where "rule_set_enter (NewRuleSet ''ads'' target isSrc noResolve) H st = (H', s)" by (metis surj_pair)
  then show ?thesis
    by (simp add: c Rule_Match_def RuleSet_Match_def Strategy_Match_def NewRuleSet_def self_provider_None[OF refl, unfolded NewRuleSet_def])
qed
end
