(* ===== verification/Tunnel_Properties.thy ===== *)
theory Tunnel_Properties
  imports Tunnel_Match Rule_Config_Properties
begin

text \<open>
  Properties of the choice of a proxy: it always comes to an end, what is chosen can carry the
  connection, and one flaw, the lookup of the process from inside a rule set for the source.
\<close>

section \<open>One pass\<close>











section \<open>The loop over rematches\<close>



section \<open>What is chosen\<close>




section \<open>A small tunnel\<close>









end
