(* ===== verification/Domain_Set.thy ===== *)
theory Domain_Set
  imports Domain_Trie "HOL-Library.Word" "HOL-Library.Monad_Syntax" "HOL-Library.List_Lexorder" "HOL-Library.Char_ord"
begin

text \<open>
  The domain set of \<open>src/component/trie/domain_set.go\<close>: an immutable trie of reversed patterns, byte by byte, in a bitmap. The nodes are numbered level by
  level. For every node the bitmap has a zero for each edge to a child and then a one; the labels of
  the edges are in an array, and a second bitmap marks the nodes where a pattern ends.

  The package \<open>bitmap\<close> that counts and finds the ones of a bitmap is not part of the repository; its
  functions are the record \<open>bitmap_ops\<close>. Their positions and counts are 32-bit integers. An index out of range
  is \<open>None\<close>. Strings are ASCII, so that \<open>utils.Reverse\<close>, which works by runes, is the reversal of the
  bytes, and the conversion of \<open>Has\<close> for other strings is left out.
\<close>

unbundle bit_operations_syntax

section \<open>Bitmaps\<close>

type_synonym bitmap = "64 word list"

type_synonym int32 = "32 word"

definition to_int :: "int32 \<Rightarrow> nat" where
  "to_int w = nat (sint w)"

record bitmap_ops =
  bm_IndexSelect32R64 :: "bitmap \<Rightarrow> int32 list \<times> int32 list"
  bm_IndexRank64 :: "bitmap \<Rightarrow> int32 list"
  bm_Rank64 :: "bitmap \<Rightarrow> int32 list \<Rightarrow> int32 \<Rightarrow> int32 \<times> int32"
  bm_Select32R64 :: "bitmap \<Rightarrow> int32 list \<Rightarrow> int32 list \<Rightarrow> int32 \<Rightarrow> int32 \<times> int32"

definition setBit :: "bitmap \<Rightarrow> nat \<Rightarrow> bool \<Rightarrow> bitmap" where
  "setBit bm i v =
     (let bm = bm @ replicate (i div 64 + 1 - length bm) 0
      in bm[i div 64 := (bm ! (i div 64)) OR push_bit (i mod 64) (if v then 1 else 0)])"

definition getBit :: "bitmap \<Rightarrow> nat \<Rightarrow> bool option" where
  "getBit bm i = (if i div 64 < length bm then Some (bit (bm ! (i div 64)) (i mod 64)) else None)"

definition at :: "'a list \<Rightarrow> nat \<Rightarrow> 'a option" where
  "at xs i = (if i < length xs then Some (xs ! i) else None)"

section \<open>The set\<close>

definition complexWildcardByte :: char where "complexWildcardByte = CHR ''+''"

definition wildcardByte :: char where "wildcardByte = CHR ''*''"

definition domainStepByte :: char where "domainStepByte = CHR ''.''"

record DomainSet =
  ds_leaves :: bitmap
  ds_labelBitmap :: bitmap
  ds_labels :: string
  ds_ranks :: "int32 list"
  ds_selects :: "int32 list"

text \<open>The set with its two index arrays filled in.\<close>

definition ds_init :: "bitmap_ops \<Rightarrow> bitmap \<Rightarrow> bitmap \<Rightarrow> string \<Rightarrow> DomainSet" where
  "ds_init B leaves labelBitmap labels =
     (let (selects, ranks) = bm_IndexSelect32R64 B labelBitmap
      in \<lparr>ds_leaves = leaves, ds_labelBitmap = labelBitmap, ds_labels = labels, ds_ranks = ranks, ds_selects = selects\<rparr>)"

definition countZeros :: "bitmap_ops \<Rightarrow> bitmap \<Rightarrow> int32 list \<Rightarrow> nat \<Rightarrow> nat" where
  "countZeros B bm ranks i = i - to_int (fst (bm_Rank64 B bm ranks (of_nat i)))"

definition selectIthOne :: "bitmap_ops \<Rightarrow> bitmap \<Rightarrow> int32 list \<Rightarrow> int32 list \<Rightarrow> nat \<Rightarrow> nat" where
  "selectIthOne B bm ranks selects i = to_int (fst (bm_Select32R64 B bm selects ranks (of_nat i)))"

text \<open>The same on the bitmap of the labels of a set.\<close>

abbreviation zeros_before :: "bitmap_ops \<Rightarrow> DomainSet \<Rightarrow> nat \<Rightarrow> nat" where
  "zeros_before B ss \<equiv> countZeros B (ds_labelBitmap ss) (ds_ranks ss)"

abbreviation select_one :: "bitmap_ops \<Rightarrow> DomainSet \<Rightarrow> nat \<Rightarrow> nat" where
  "select_one B ss \<equiv> selectIthOne B (ds_labelBitmap ss) (ds_ranks ss) (ds_selects ss)"

section \<open>Collecting patterns\<close>

record DomainSetBuilder = b_keys :: "string list"

definition builder_insert :: "string list \<Rightarrow> DomainSetBuilder \<Rightarrow> DomainSetBuilder" where
  "builder_insert parts b =
     (let parts = (if parts ! 0 = dotWildcard then parts[0 := complexWildcard] else parts)
      in b\<lparr>b_keys := b_keys b @ [rev (joinDomain parts)]\<rparr>)"

definition builder_Insert :: "string \<Rightarrow> DomainSetBuilder \<Rightarrow> ErrInvalidDomain option \<times> DomainSetBuilder" where
  "builder_Insert domain b =
     (case ValidAndSplitDomain domain of
        Inl err \<Rightarrow> (Some err, b)
      | Inr parts \<Rightarrow>
          if parts ! 0 = complexWildcard then (None, builder_insert parts (builder_insert (tl parts) b))
          else (None, builder_insert parts b))"

definition builder_IsEmpty :: "DomainSetBuilder option \<Rightarrow> bool" where
  "builder_IsEmpty b = (case b of None \<Rightarrow> True | Some b \<Rightarrow> length (b_keys b) = 0)"

definition builder_Reset :: "DomainSetBuilder \<Rightarrow> DomainSetBuilder" where
  "builder_Reset b = b\<lparr>b_keys := []\<rparr>"

section \<open>Building\<close>

record 's build_state =
  bs_leaves :: bitmap
  bs_labelBitmap :: bitmap
  bs_labels :: string
  bs_lIdx :: nat
  bs_nodeID :: nat
  bs_captured :: 's

text \<open>\<open>bs_captured\<close> holds the variables that \<open>onTerminal\<close> changes.\<close>

definition key_byte :: "string list \<Rightarrow> nat \<Rightarrow> nat \<Rightarrow> char option" where
  "key_byte keys j col = do { k \<leftarrow> at keys j; at k col }"

text \<open>The end of the run of keys from \<open>j\<close> on, below \<open>e\<close>, with the byte \<open>c\<close> in the column.\<close>

function run_end :: "string list \<Rightarrow> nat \<Rightarrow> char \<Rightarrow> nat \<Rightarrow> nat \<Rightarrow> nat option" where
  "run_end keys col c j e =
     (if j < e then do {
        d \<leftarrow> key_byte keys j col;
        if d = c then run_end keys col c (j + 1) e else Some j }
      else Some j)"
  by pat_completeness auto
termination by (relation "measure (\<lambda>(keys, col, c, j, e). e - j)") auto

declare run_end.simps [simp del]

lemma run_end_ge: "run_end keys col c j e = Some j' \<Longrightarrow> j \<le> j'"
proof (induction keys col c j e rule: run_end.induct)
  case (1 keys col c j e)
  then show ?case by (subst (asm) (2) run_end.simps) (fastforce simp: bind_eq_Some_conv split: if_splits)
qed

lemma run_end_first:
  assumes "key_byte keys j col = Some c" "j < e" "run_end keys col c j e = Some j'"
  shows "j < j'"
  using assms run_end_ge [of keys col c "j + 1" e j'] by (subst (asm) run_end.simps) simp

text \<open>The loop over the edges of one node, which are the runs of its keys.\<close>

function build_edges :: "string list \<Rightarrow> nat \<Rightarrow> nat \<Rightarrow> nat \<Rightarrow> 's build_state \<Rightarrow> (nat \<times> nat) list
    \<Rightarrow> ('s build_state \<times> (nat \<times> nat) list) option" where
  "build_edges keys col j e st nxt =
     (if j < e then
        (case key_byte keys j col of
           None \<Rightarrow> None
         | Some c \<Rightarrow>
             (case run_end keys col c j e of
                None \<Rightarrow> None
              | Some j' \<Rightarrow>
                  build_edges keys col j' e
                    (st\<lparr>bs_labels := bs_labels st @ [c], bs_labelBitmap := setBit (bs_labelBitmap st) (bs_lIdx st) False,
                        bs_lIdx := bs_lIdx st + 1\<rparr>)
                    (nxt @ [(j, j')])))
      else Some (st, nxt))"
  by pat_completeness auto
termination
  by (relation "measure (\<lambda>(keys, col, j, e, st, nxt). e - j)") (auto dest: run_end_first)

declare build_edges.simps [simp del]

fun build_queue :: "string list \<Rightarrow> (string \<Rightarrow> 's \<Rightarrow> 's) option \<Rightarrow> nat \<Rightarrow> (nat \<times> nat) list \<Rightarrow> 's build_state
    \<Rightarrow> (nat \<times> nat) list \<Rightarrow> ('s build_state \<times> (nat \<times> nat) list) option" where
  "build_queue keys onTerminal col [] st nxt = Some (st, nxt)"
| "build_queue keys onTerminal col ((s, e) # queue) st nxt = do {
     k \<leftarrow> at keys s;
     let leaf = (col = length k);
     let st = (if leaf then
                 st\<lparr>bs_captured := (case onTerminal of None \<Rightarrow> bs_captured st | Some f \<Rightarrow> f k (bs_captured st)),
                    bs_leaves := setBit (bs_leaves st) (bs_nodeID st) True\<rparr>
               else st);
     (st, nxt) \<leftarrow> build_edges keys col (if leaf then s + 1 else s) e st nxt;
     build_queue keys onTerminal col queue
       (st\<lparr>bs_labelBitmap := setBit (bs_labelBitmap st) (bs_lIdx st) True, bs_lIdx := bs_lIdx st + 1,
           bs_nodeID := bs_nodeID st + 1\<rparr>) nxt }"

partial_function (option) build_columns :: "string list \<Rightarrow> (string \<Rightarrow> 's \<Rightarrow> 's) option \<Rightarrow> nat \<Rightarrow> (nat \<times> nat) list
    \<Rightarrow> 's build_state \<Rightarrow> 's build_state option" where
  "build_columns keys onTerminal col queue st =
     (if length queue > 0 then do {
        (st, nxt) \<leftarrow> build_queue keys onTerminal col queue st [];
        build_columns keys onTerminal (col + 1) nxt st }
      else Some st)"

text \<open>\<open>slices.Compact\<close> on a sorted slice.\<close>

fun Compact :: "'a list \<Rightarrow> 'a list" where
  "Compact [] = []"
| "Compact [x] = [x]"
| "Compact (x # y # xs) = (if x = y then Compact (y # xs) else x # Compact (y # xs))"

text \<open>The outer option is the panic or the endless loop, the inner one the nil set.\<close>

definition buildDomainSet :: "bitmap_ops \<Rightarrow> string list \<Rightarrow> (string \<Rightarrow> 's \<Rightarrow> 's) option \<Rightarrow> 's \<Rightarrow> (DomainSet option \<times> 's) option" where
  "buildDomainSet B keys onTerminal s =
     (if length keys = 0 then Some (None, s)
      else do {
        let keys = Compact (sort keys);
        st \<leftarrow> build_columns keys onTerminal 0 [(0, length keys)]
               \<lparr>bs_leaves = [], bs_labelBitmap = [], bs_labels = [], bs_lIdx = 0, bs_nodeID = 0, bs_captured = s\<rparr>;
        Some (Some (ds_init B (bs_leaves st) (bs_labelBitmap st) (bs_labels st)), bs_captured st) })"

definition builder_Build :: "bitmap_ops \<Rightarrow> DomainSetBuilder option
    \<Rightarrow> (DomainSet option \<times> DomainSetBuilder option) option" where
  "builder_Build B b =
     (case b of
        None \<Rightarrow> Some (None, None)
      | Some b \<Rightarrow> map_option (\<lambda>(ss, _). (ss, Some (b\<lparr>b_keys := []\<rparr>))) (buildDomainSet B (b_keys b) None ()))"

section \<open>Searching\<close>

definition revLowerAt :: "string \<Rightarrow> nat \<Rightarrow> char" where
  "revLowerAt key i = lower_char (key ! (length key - 1 - i))"

text \<open>The next step of the key at or after \<open>j\<close>, or its end.\<close>

function step_from :: "string \<Rightarrow> nat \<Rightarrow> nat" where
  "step_from key j = (if j < length key \<and> revLowerAt key j \<noteq> domainStepByte then step_from key (j + 1) else j)"
  by pat_completeness auto
termination by (relation "measure (\<lambda>(key, j). length key - j)") auto

declare step_from.simps [simp del]

text \<open>The edge with the step of the node \<open>nodeId\<close>, from \<open>bmIdx\<close> on.\<close>

function find_step :: "DomainSet \<Rightarrow> nat \<Rightarrow> nat \<Rightarrow> nat option option" where
  "find_step ss nodeId bmIdx =
     (case getBit (ds_labelBitmap ss) bmIdx of
        None \<Rightarrow> None
      | Some b \<Rightarrow>
          if b then Some None
          else (case at (ds_labels ss) (bmIdx - nodeId) of
                  None \<Rightarrow> None
                | Some l \<Rightarrow> if l = domainStepByte then Some (Some bmIdx) else find_step ss nodeId (bmIdx + 1)))"
  by pat_completeness auto
termination
  by (relation "measure (\<lambda>(ss, nodeId, bmIdx). 64 * length (ds_labelBitmap ss) - bmIdx)")
     (auto simp: getBit_def split: if_splits)

declare find_step.simps [simp del]

type_synonym wildcardCursor = "nat \<times> nat"

datatype backtrack = Matched | Failed | Resume nat nat nat "wildcardCursor list"

text \<open>The loop over the saved wildcards: where the search goes on.\<close>

fun pop_cursors :: "bitmap_ops \<Rightarrow> DomainSet \<Rightarrow> string \<Rightarrow> wildcardCursor list \<Rightarrow> backtrack option" where
  "pop_cursors B ss key [] = Some Failed"
| "pop_cursors B ss key ((bmIdx, index) # stack) =
     (let nextNodeId = zeros_before B ss (bmIdx + 1);
          j = step_from key index
      in if j = length key then do {
           leaf \<leftarrow> getBit (ds_leaves ss) nextNodeId;
           if leaf then Some Matched else pop_cursors B ss key stack }
         else do {
           found \<leftarrow> find_step ss nextNodeId (select_one B ss (nextNodeId - 1) + 1);
           case found of
             Some nextBmIdx \<Rightarrow> Some (Resume j nextBmIdx nextNodeId stack)
           | None \<Rightarrow> pop_cursors B ss key stack })"

text \<open>The search from the edge \<open>bmIdx\<close> of the node \<open>nodeId\<close> with the byte \<open>i\<close> of the key.\<close>

partial_function (option) has_from :: "bitmap_ops \<Rightarrow> DomainSet \<Rightarrow> string \<Rightarrow> nat \<Rightarrow> nat \<Rightarrow> nat \<Rightarrow> wildcardCursor list \<Rightarrow> bool option" where
  "has_from B ss key i bmIdx nodeId stack = do {
     b \<leftarrow> getBit (ds_labelBitmap ss) bmIdx;
     if b then do {
       r \<leftarrow> pop_cursors B ss key stack;
       case r of
         Matched \<Rightarrow> Some True
       | Failed \<Rightarrow> Some False
       | Resume i bmIdx nodeId stack \<Rightarrow> has_from B ss key i bmIdx nodeId stack }
     else do {
       l \<leftarrow> at (ds_labels ss) (bmIdx - nodeId);
       if l = complexWildcardByte then Some True
       else if l = wildcardByte then has_from B ss key i (bmIdx + 1) nodeId ((bmIdx, i) # stack)
       else if l = revLowerAt key i then
         (let nodeId = bmIdx - nodeId + 1
          in if i = length key - 1 then do {
               leaf \<leftarrow> getBit (ds_leaves ss) nodeId;
               if leaf then Some True
               else if stack = [] then Some False
               else has_from B ss key i (select_one B ss nodeId) nodeId stack }
             else has_from B ss key (i + 1) (select_one B ss (nodeId - 1) + 1) nodeId stack)
       else has_from B ss key i (bmIdx + 1) nodeId stack } }"

definition Has :: "bitmap_ops \<Rightarrow> DomainSet option \<Rightarrow> string \<Rightarrow> bool option" where
  "Has B ss key =
     (case ss of
        None \<Rightarrow> Some False
      | Some ss \<Rightarrow> if 0 < length key then has_from B ss key 0 0 0 [] else getBit (ds_leaves ss) 0)"

section \<open>Listing\<close>

text \<open>\<open>traverse\<close> at a node, and inside its loop over the edges.\<close>

partial_function (option) traverse :: "bitmap_ops \<Rightarrow> DomainSet \<Rightarrow> (string \<Rightarrow> nat \<Rightarrow> 's \<Rightarrow> bool \<times> 's) \<Rightarrow> bool \<Rightarrow> nat \<Rightarrow> nat \<Rightarrow> string \<Rightarrow> 's
    \<Rightarrow> (bool \<times> 's) option" where
  "traverse B ss f enter nodeId bmIdx currentKey s =
     (if enter then do {
        leaf \<leftarrow> getBit (ds_leaves ss) nodeId;
        let (go, s) = (if leaf then f currentKey nodeId s else (True, s));
        if \<not> go then Some (False, s) else traverse B ss f False nodeId bmIdx currentKey s }
      else do {
        b \<leftarrow> getBit (ds_labelBitmap ss) bmIdx;
        if b then Some (True, s)
        else do {
          nextLabel \<leftarrow> at (ds_labels ss) (bmIdx - nodeId);
          let nextNodeId = bmIdx - nodeId + 1;
          (go, s) \<leftarrow> traverse B ss f True nextNodeId (select_one B ss (nextNodeId - 1) + 1) (currentKey @ [nextLabel]) s;
          if \<not> go then Some (False, s) else traverse B ss f False nodeId (bmIdx + 1) currentKey s } })"

definition DomainSet_keys :: "bitmap_ops \<Rightarrow> DomainSet \<Rightarrow> (string \<Rightarrow> nat \<Rightarrow> 's \<Rightarrow> bool \<times> 's) \<Rightarrow> 's \<Rightarrow> 's option" where
  "DomainSet_keys B ss f s = map_option snd (traverse B ss f True 0 0 [] s)"

definition DomainSet_Foreach :: "bitmap_ops \<Rightarrow> DomainSet \<Rightarrow> (string \<Rightarrow> 's \<Rightarrow> bool \<times> 's) \<Rightarrow> 's \<Rightarrow> 's option" where
  "DomainSet_Foreach B ss f s = DomainSet_keys B ss (\<lambda>key _. f (rev (TrimSuffix key complexWildcard))) s"

text \<open>\<open>NewDomainSet\<close> of a trie.\<close>

definition trie_key :: "string \<Rightarrow> 'a \<Rightarrow> string list \<Rightarrow> bool \<times> string list" where
  "trie_key domain v keys =
     (True, keys @ [rev (if domain ! 0 = domainStepByte then complexWildcard @ domain else domain)])"

definition NewDomainSet :: "bitmap_ops \<Rightarrow> 'a DomainTrie \<Rightarrow> DomainSet option option" where
  "NewDomainSet B t = map_option fst (buildDomainSet B (DomainTrie_Foreach trie_key t []) None ())"
end
