(* ===== verification/Domain_Set_Index.thy ===== *)
theory Domain_Set_Index
  imports Domain_Set
begin

text \<open>
  What \<open>buildDomainSet\<close> builds. The bitmaps of the set are read as lists of bits, and the functions of
  the package \<open>bitmap\<close> are specified on them by the locale \<open>bitmap_index\<close>. The trie itself is a list of
  nodes in the order of their numbers, where a node is the list of the suffixes of keys that are
  still to be matched there.
\<close>

section \<open>Bits\<close>

definition bm_bits :: "bitmap \<Rightarrow> bool list" where
  "bm_bits bm = map (\<lambda>i. bit (bm ! (i div 64)) (i mod 64)) [0..<64 * length bm]"

definition ones :: "bool list \<Rightarrow> nat \<Rightarrow> nat" where
  "ones bs i = length (filter id (take i bs))"

definition holds_bits :: "bitmap \<Rightarrow> bool list \<Rightarrow> bool" where
  "holds_bits bm bs \<longleftrightarrow> length bm = (length bs + 63) div 64 \<and>
     (\<forall>i<64 * length bm. bit (bm ! (i div 64)) (i mod 64) = (i < length bs \<and> bs ! i))"

lemma holds_bits_Nil [simp]: "holds_bits [] []"
  by (simp add: holds_bits_def)

lemma holds_bits_length: "holds_bits bm bs \<Longrightarrow> length bs \<le> 64 * length bm"
  unfolding holds_bits_def by presburger

lemma holds_bits_getBit: "holds_bits bm bs \<Longrightarrow> i < length bs \<Longrightarrow> getBit bm i = Some (bs ! i)"
  using holds_bits_length [of bm bs] by (auto simp: holds_bits_def getBit_def)

lemma holds_bits_setBit:
  assumes "holds_bits bm bs" and "length bs \<le> i"
  shows "holds_bits (setBit bm i v) (bs @ replicate (i - length bs) False @ [v])"
proof -
  let ?bm = "bm @ replicate (i div 64 + 1 - length bm) 0" and ?bs = "bs @ replicate (i - length bs) False @ [v]"
  have "length bm \<le> i div 64 + 1" using assms by (simp add: holds_bits_def)
  then have len: "length ?bm = i div 64 + 1" by simp
  have old: "bit (?bm ! (j div 64)) (j mod 64) = (j < length bs \<and> bs ! j)" if "j < 64 * length ?bm" for j
  proof (cases "j < 64 * length bm")
    case True
    then have "j div 64 < length bm" by (simp add: less_mult_imp_div_less mult.commute)
    with assms(1) True show ?thesis by (simp add: holds_bits_def nth_append)
  next
    case False
    then have "length bm \<le> j div 64" by simp
    moreover have "j div 64 < length ?bm" using that by (simp add: less_mult_imp_div_less mult.commute)
    ultimately have "?bm ! (j div 64) = 0" by (simp add: nth_append)
    with False holds_bits_length [OF assms(1)] show ?thesis by simp
  qed
  have new: "setBit bm i v = ?bm[i div 64 := (?bm ! (i div 64)) OR push_bit (i mod 64) (of_bool v)]"
    by (simp add: setBit_def Let_def)
  have "bit (setBit bm i v ! (j div 64)) (j mod 64) = (j < length ?bs \<and> ?bs ! j)" if j: "j < 64 * length ?bm" for j
  proof -
    have same: "j = i \<longleftrightarrow> j div 64 = i div 64 \<and> j mod 64 = i mod 64" by (metis div_mult_mod_eq)
    have "j div 64 < length ?bm" using j by (simp add: less_mult_imp_div_less mult.commute)
    then have "bit (setBit bm i v ! (j div 64)) (j mod 64) = (bit (?bm ! (j div 64)) (j mod 64) \<or> v \<and> j = i)"
      unfolding new same by (auto simp: nth_list_update bit_or_iff bit_push_bit_iff bit_of_bool_iff)
    also have "\<dots> = (j < length bs \<and> bs ! j \<or> v \<and> j = i)" using old [OF j] by simp
    also have "\<dots> = (j < length ?bs \<and> ?bs ! j)" using assms(2) by (auto simp: nth_append less_Suc_eq)
    finally show ?thesis .
  qed
  moreover have "length (setBit bm i v) = length ?bm" unfolding new by simp
  moreover have "length ?bm = (length ?bs + 63) div 64" using len assms(2) by simp
  ultimately show ?thesis unfolding holds_bits_def by simp
qed

lemma bm_bits_holds:
  assumes "holds_bits bm bs"
  shows "bm_bits bm = bs @ replicate (64 * length bm - length bs) False"
  using assms holds_bits_length [OF assms]
  by (intro nth_equalityI) (auto simp: bm_bits_def holds_bits_def nth_append)

lemma ones_append: "ones (bs @ replicate n False) i = ones bs i"
  by (simp add: ones_def)

lemma ones_le: "ones bs i \<le> i"
  unfolding ones_def by (rule le_trans [OF length_filter_le]) simp

lemma ones_split: "i = length xs \<Longrightarrow> ones (xs @ ys) i = length (filter id xs)"
  by (simp add: ones_def)

section \<open>The package bitmap\<close>

text \<open>
  What the set uses of the package, for bitmaps whose positions are 32-bit integers: \<open>Rank64\<close> counts
  the ones before a position and \<open>Select32R64\<close> finds a one by its number, given the arrays of their
  index functions; the array of selects has an element for every 32 ones.
\<close>

definition fits32 :: "bitmap \<Rightarrow> bool" where
  "fits32 bm \<longleftrightarrow> 64 * length bm < 2 ^ 31"

locale bitmap_index =
  fixes B :: bitmap_ops
  assumes rank: "fits32 bm \<Longrightarrow> i < 64 * length bm \<Longrightarrow>
      ranks = bm_IndexRank64 B bm \<or> ranks = snd (bm_IndexSelect32R64 B bm) \<Longrightarrow>
      fst (bm_Rank64 B bm ranks (of_nat i)) = of_nat (ones (bm_bits bm) i)"
    and select: "fits32 bm \<Longrightarrow> i < 64 * length bm \<Longrightarrow> bm_bits bm ! i \<Longrightarrow>
      bm_IndexSelect32R64 B bm = (selects, ranks) \<Longrightarrow>
      fst (bm_Select32R64 B bm selects ranks (of_nat (ones (bm_bits bm) i))) = of_nat i"
    and selects: "bm_IndexSelect32R64 B bm = (selects, ranks) \<Longrightarrow>
      ones (bm_bits bm) (64 * length bm) \<le> 32 * length selects"

lemma to_int_of_nat: "n < 2 ^ 31 \<Longrightarrow> to_int (of_nat n) = n"
  by (simp add: to_int_def signed_of_nat signed_take_bit_int_eq_self)

context bitmap_index
begin

lemma countZeros_holds:
  assumes "holds_bits bm bs" "fits32 bm" "i < 64 * length bm"
    and "ranks = bm_IndexRank64 B bm \<or> ranks = snd (bm_IndexSelect32R64 B bm)"
  shows "countZeros B bm ranks i = i - ones bs i"
  using rank [OF assms(2-4)] ones_le [of bs i] assms(2,3)
  by (simp add: countZeros_def bm_bits_holds [OF assms(1)] ones_append to_int_of_nat fits32_def)

lemma selectIthOne_holds:
  assumes "holds_bits bm bs" "fits32 bm" "i < length bs" "bs ! i"
    and "bm_IndexSelect32R64 B bm = (selects, ranks)"
  shows "selectIthOne B bm ranks selects (ones bs i) = i"
proof -
  have i: "i < 64 * length bm" using holds_bits_length [OF assms(1)] assms(3) by simp
  have "bm_bits bm ! i" using assms(3,4) by (simp add: bm_bits_holds [OF assms(1)] nth_append)
  from select [OF assms(2) i this assms(5)] i assms(2) show ?thesis
    by (simp add: selectIthOne_def bm_bits_holds [OF assms(1)] ones_append to_int_of_nat fits32_def)
qed

end

text \<open>An implementation that keeps the counts of ones before each word and the position of every 32nd one.\<close>

definition one_positions :: "bitmap \<Rightarrow> nat list" where
  "one_positions bm = filter (\<lambda>i. bm_bits bm ! i) [0..<64 * length bm]"

definition counting_ops :: bitmap_ops where
  "counting_ops =
     (let ranks = (\<lambda>bm. map (\<lambda>k. of_nat (ones (bm_bits bm) (64 * k))) [0..<length bm])
      in \<lparr>bm_IndexSelect32R64 =
            (\<lambda>bm. (map (\<lambda>k. of_nat (one_positions bm ! (32 * k))) [0..<(length (one_positions bm) + 31) div 32], ranks bm)),
          bm_IndexRank64 = ranks,
          bm_Rank64 = (\<lambda>bm ranks i.
            (ranks ! (unat i div 64) + of_nat (ones (drop (64 * (unat i div 64)) (bm_bits bm)) (unat i mod 64)),
             of_bool (bm_bits bm ! unat i))),
          bm_Select32R64 = (\<lambda>bm selects ranks i.
            (of_nat (one_positions bm ! unat i), of_nat (one_positions bm ! (unat i + 1))))\<rparr>)"

lemma ones_add: "ones bs (a + b) = ones bs a + ones (drop a bs) b"
  by (simp add: ones_def take_add)

lemma ones_upt: "i \<le> length bs \<Longrightarrow> ones bs i = length (filter (\<lambda>j. bs ! j) [0..<i])"
proof -
  assume "i \<le> length bs"
  then have "take i bs = map ((!) bs) [0..<i]" by (intro nth_equalityI) auto
  then show ?thesis by (simp add: ones_def filter_map o_def)
qed

lemma nth_one_positions:
  assumes "i < 64 * length bm" and "bm_bits bm ! i"
  shows "one_positions bm ! ones (bm_bits bm) i = i"
proof -
  have "[0..<64 * length bm] = [0..<i] @ i # [Suc i..<64 * length bm]"
    using assms(1) upt_add_eq_append [of 0 i "64 * length bm - i"] by (simp add: upt_conv_Cons)
  moreover have "ones (bm_bits bm) i = length (filter (\<lambda>j. bm_bits bm ! j) [0..<i])"
    using assms(1) by (intro ones_upt) (simp add: bm_bits_def)
  ultimately show ?thesis using assms(2) by (simp add: one_positions_def)
qed

interpretation counting: bitmap_index counting_ops
proof
  have unat: "unat (of_nat i :: int32) = i" if "i < 2 ^ 31" for i
    using that by (simp add: unat_of_nat)
  show "fst (bm_Rank64 counting_ops bm ranks (of_nat i)) = of_nat (ones (bm_bits bm) i)"
    if "fits32 bm" "i < 64 * length bm"
      "ranks = bm_IndexRank64 counting_ops bm \<or> ranks = snd (bm_IndexSelect32R64 counting_ops bm)" for bm i ranks
  proof -
    have "i div 64 < length bm" using that(2) by (simp add: less_mult_imp_div_less mult.commute)
    moreover have "ones (bm_bits bm) (64 * (i div 64)) + ones (drop (64 * (i div 64)) (bm_bits bm)) (i mod 64) = ones (bm_bits bm) i"
      using ones_add [of "bm_bits bm" "64 * (i div 64)" "i mod 64"] by simp
    ultimately show ?thesis using that unat [of i]
      by (auto simp: counting_ops_def Let_def fits32_def simp flip: of_nat_add)
  qed
  show "fst (bm_Select32R64 counting_ops bm selects ranks (of_nat (ones (bm_bits bm) i))) = of_nat i"
    if "fits32 bm" "i < 64 * length bm" "bm_bits bm ! i" for bm i selects ranks
    using that ones_le [of "bm_bits bm" i] unat [of "ones (bm_bits bm) i"]
    by (simp add: counting_ops_def Let_def fits32_def nth_one_positions)
  show "ones (bm_bits bm) (64 * length bm) \<le> 32 * length selects"
    if "bm_IndexSelect32R64 counting_ops bm = (selects, ranks)" for bm selects ranks
    using that ones_upt [of "64 * length bm" "bm_bits bm"]
    by (auto simp: counting_ops_def Let_def one_positions_def bm_bits_def)
qed

section \<open>The trie of suffixes\<close>

text \<open>
  A node is the path from the root and the sorted suffixes that remain. Its edges are the runs of
  suffixes that begin with the same byte.
\<close>

definition starts :: "char \<Rightarrow> string \<Rightarrow> bool" where
  "starts c q \<longleftrightarrow> q \<noteq> [] \<and> hd q = c"

function groups :: "string list \<Rightarrow> (char \<times> string list) list" where
  "groups [] = []"
| "groups ([] # T) = groups T"
| "groups ((c # p) # T) = (c, p # map tl (takeWhile (starts c) T)) # groups (dropWhile (starts c) T)"
  by pat_completeness auto
termination by (relation "measure length") (auto simp: le_imp_less_Suc length_dropWhile_le)

type_synonym tnode = "string \<times> string list"

definition kids :: "tnode \<Rightarrow> tnode list" where
  "kids n = map (\<lambda>(c, T). (fst n @ [c], T)) (groups (snd n))"

definition is_leaf :: "tnode \<Rightarrow> bool" where
  "is_leaf n \<longleftrightarrow> [] \<in> set (snd n)"

lemma groups_mem: "c # p \<in> set T \<longleftrightarrow> (\<exists>T'. (c, T') \<in> set (groups T) \<and> p \<in> set T')"
proof (induction T rule: groups.induct)
  case (3 d q T)
  have "c # p \<in> set T \<longleftrightarrow> c # p \<in> set (takeWhile (starts d) T) \<or> c # p \<in> set (dropWhile (starts d) T)"
    by (metis Un_iff set_append takeWhile_dropWhile_id)
  moreover have "c # p \<in> set (takeWhile (starts d) T) \<longleftrightarrow> c = d \<and> p \<in> tl ` set (takeWhile (starts d) T)"
    by (metis (no_types, lifting) image_iff list.collapse list.sel(1,3) set_takeWhileD starts_def)
  ultimately show ?case using "3.IH" by auto
qed simp_all

lemma groups_not_Nil: "(c, T') \<in> set (groups T) \<Longrightarrow> T' \<noteq> []"
  by (induction T rule: groups.induct) auto

lemma groups_labels: "(c, T') \<in> set (groups T) \<Longrightarrow> \<exists>p. c # p \<in> set T"
  using groups_not_Nil [of c T' T] groups_mem [of c _ T] by (metis list.set_intros(1) neq_Nil_conv)

lemma strict_above:
  fixes q r :: string
  assumes "sorted_wrt (<) (q # T)" and "r \<in> set T"
  shows "r \<noteq> []" and "q = c # p \<Longrightarrow> c \<le> hd r"
proof -
  have lt: "q < r" using assms by simp
  then show "r \<noteq> []" by auto
  then show "q = c # p \<Longrightarrow> c \<le> hd r" using lt by (cases r) auto
qed

lemma groups_sorted:
  "sorted_wrt (<) T \<Longrightarrow> sorted_wrt (<) (map fst (groups T)) \<and> (\<forall>(c, T')\<in>set (groups T). sorted_wrt (<) T')"
proof (induction T rule: groups.induct)
  case (3 c p T)
  let ?R = "dropWhile (starts c) T" and ?S = "takeWhile (starts c) T"
  have TS: "T = ?S @ ?R" by simp
  have s: "sorted_wrt (<) ?S" "sorted_wrt (<) ?R"
    using "3.prems" TS by (metis sorted_wrt.simps(2) sorted_wrt_append)+
  have above: "c < d" if "(d, T') \<in> set (groups ?R)" for d T'
  proof -
    from groups_labels [OF that] obtain q where q: "d # q \<in> set ?R" by blast
    then obtain r R where R: "?R = r # R" by (cases ?R) auto
    have r: "r \<in> set T" using R TS by (metis in_set_conv_decomp)
    have "\<not> starts c r" using R hd_dropWhile [of "starts c" T] by simp
    then have "c < hd r" using strict_above [OF "3.prems" r] by (auto simp: starts_def less_le)
    moreover have "hd r \<le> d"
    proof (cases "d # q = r")
      case False
      with q R have "d # q \<in> set R" by simp
      moreover obtain e s where "r = e # s" using strict_above(1) [OF "3.prems" r] by (cases r) auto
      ultimately show ?thesis using strict_above(2) [of r R "d # q" e s] s(2) R by simp
    qed auto
    ultimately show ?thesis by simp
  qed
  have "sorted_wrt (<) (p # map tl ?S)"
  proof -
    have "sorted_wrt (<) ((c # p) # ?S)" using "3.prems" TS by (metis sorted_wrt_append append_Cons)
    moreover have "?S = map ((#) c) (map tl ?S)"
      by (induction T) (auto simp: starts_def)
    ultimately have "sorted_wrt (<) ((c # p) # map ((#) c) (map tl ?S))" by simp
    then show ?thesis by (simp add: sorted_wrt_map del: map_map)
  qed
  with "3.IH" [OF s(2)] above show ?case by (auto simp: less_imp_le)
qed simp_all

text \<open>The weight of a node is more than that of all its children together.\<close>

definition weight :: "string list \<Rightarrow> nat" where
  "weight T = 2 * (1 + sum_list (map length T))"

lemma weight_groups: "sum_list (map (weight \<circ> snd) (groups T)) + 2 \<le> weight T"
proof (induction T rule: groups.induct)
  case (3 c p T)
  let ?S = "takeWhile (starts c) T" and ?R = "dropWhile (starts c) T"
  have "sum_list (map length T) = sum_list (map length ?S) + sum_list (map length ?R)"
    by (metis map_append sum_list_append takeWhile_dropWhile_id)
  moreover have "sum_list (map length (map tl ?S)) \<le> sum_list (map length ?S)"
    by (induction T) auto
  ultimately show ?case using "3.IH" by (simp add: weight_def del: map_map)
qed (simp_all add: weight_def)

lemma weight_kids: "sum_list (map (weight \<circ> snd) (kids n)) < weight (snd n)"
  using weight_groups [of "snd n"] by (simp add: kids_def o_def split_beta)

text \<open>The nodes below a list of nodes, level by level.\<close>

lemma weight_level:
  "q \<noteq> [] \<Longrightarrow> sum_list (map (weight \<circ> snd) (concat (map kids q))) < sum_list (map (weight \<circ> snd) q)"
proof (induction q)
  case (Cons n q)
  then show ?case using weight_kids [of n] by (cases "q = []") (simp_all add: o_def)
qed simp

function bfs :: "tnode list \<Rightarrow> tnode list" where
  "bfs q = (if q = [] then [] else q @ bfs (concat (map kids q)))"
  by pat_completeness auto
termination
  by (relation "measure (\<lambda>q. sum_list (map (weight \<circ> snd) q))") (use weight_level in auto)

declare bfs.simps [simp del]

lemma bfs_Nil [simp]: "bfs [] = []"
  by (simp add: bfs.simps)

lemma bfs_kids: "concat (map kids (bfs q)) = bfs (concat (map kids q))"
proof (induction q rule: bfs.induct)
  case (1 q)
  show ?case
  proof (cases "q = []")
    case False
    let ?k = "concat (map kids q)"
    have "concat (map kids (bfs q)) = ?k @ concat (map kids (bfs ?k))" using False by (subst bfs.simps) simp
    also have "\<dots> = ?k @ bfs (concat (map kids ?k))" using 1 [OF False] by simp
    also have "\<dots> = bfs ?k"
    proof (cases "?k = []")
      case True
      then show ?thesis by (metis append_Nil bfs_Nil concat.simps(1) list.map(1))
    qed (simp only: bfs.simps [of ?k] if_False)
    finally show ?thesis .
  qed simp
qed

lemma bfs_root: "bfs [n] = n # concat (map kids (bfs [n]))"
  unfolding bfs_kids by (subst bfs.simps) simp

lemma bfs_induct:
  assumes "\<And>n. n \<in> set q \<Longrightarrow> P n" and "\<And>n k. P n \<Longrightarrow> k \<in> set (kids n) \<Longrightarrow> P k" and "n \<in> set (bfs q)"
  shows "P n"
  using assms(1,3)
proof (induction q arbitrary: n rule: bfs.induct)
  case (1 q)
  show ?case
  proof (cases "n \<in> set q")
    case False
    with "1.prems"(2) have q: "q \<noteq> []" "n \<in> set (bfs (concat (map kids q)))"
      by (auto simp: bfs.simps [of q] split: if_splits)
    have "P m" if "m \<in> set (concat (map kids q))" for m using that "1.prems"(1) assms(2)
      unfolding set_concat set_map by blast
    from "1.IH" [OF q(1) this q(2)] show ?thesis .
  qed (use "1.prems"(1) in auto)
qed

section \<open>The numbers of the edges\<close>

definition node_bits :: "tnode \<Rightarrow> bool list" where
  "node_bits n = replicate (length (groups (snd n))) False @ [True]"

text \<open>The position of the first edge of a node, and the number of edges before it.\<close>

definition start :: "tnode list \<Rightarrow> nat \<Rightarrow> nat" where
  "start N n = length (concat (map node_bits (take n N)))"

definition edges_before :: "tnode list \<Rightarrow> nat \<Rightarrow> nat" where
  "edges_before N n = length (concat (map kids (take n N)))"

definition degree :: "tnode list \<Rightarrow> nat \<Rightarrow> nat" where
  "degree N n = length (groups (snd (N ! n)))"

lemma nth_concat:
  assumes "n < length xss" and "k < length (xss ! n)"
  shows "concat xss ! (length (concat (take n xss)) + k) = xss ! n ! k"
    and "length (concat (take n xss)) + k < length (concat xss)"
proof -
  have "concat xss = concat (take n xss) @ (xss ! n) @ concat (drop (Suc n) xss)"
    using assms(1) by (metis append_assoc concat.simps(2) concat_append id_take_nth_drop)
  then show "concat xss ! (length (concat (take n xss)) + k) = xss ! n ! k"
    "length (concat (take n xss)) + k < length (concat xss)"
    using assms(2) by (simp_all add: nth_append)
qed

lemma start_edges_before: "n \<le> length N \<Longrightarrow> start N n = edges_before N n + n"
proof (induction n)
  case (Suc n)
  then show ?case by (simp add: start_def edges_before_def take_Suc_conv_app_nth node_bits_def kids_def)
qed (simp add: start_def edges_before_def)

lemma start_0 [simp]: "start N 0 = 0"
  by (simp add: start_def)

lemma start_Suc: "n < length N \<Longrightarrow> start N (Suc n) = start N n + degree N n + 1"
  by (simp add: start_def take_Suc_conv_app_nth node_bits_def degree_def)

lemma length_kids [simp]: "length (kids n) = length (groups (snd n))"
  by (simp add: kids_def)

lemma length_node_bits [simp]: "length (node_bits n) = length (groups (snd n)) + 1"
  by (simp add: node_bits_def)

lemma bit_at:
  assumes "n < length N" and "k \<le> degree N n"
  shows "concat (map node_bits N) ! (start N n + k) \<longleftrightarrow> k = degree N n"
    and "start N n + k < length (concat (map node_bits N))"
    and "ones (concat (map node_bits N)) (start N n + k) = n"
proof -
  let ?bs = "concat (map node_bits N)"
  have k: "k < length (map node_bits N ! n)" using assms by (simp add: degree_def)
  note at = nth_concat [of n "map node_bits N" k, OF _ k]
  show "?bs ! (start N n + k) \<longleftrightarrow> k = degree N n"
    using at(1) assms by (auto simp: start_def take_map node_bits_def nth_append degree_def)
  show "start N n + k < length ?bs" using at(2) assms(1) by (simp add: start_def take_map)
  have "?bs = concat (map node_bits (take n N)) @ concat (map node_bits (drop n N))"
    by (metis append_take_drop_id concat_append map_append)
  moreover have "N = take n N @ N ! n # drop (Suc n) N" using assms(1) by (simp add: id_take_nth_drop)
  then have "drop n N = N ! n # drop (Suc n) N" using assms(1) by (simp add: Cons_nth_drop_Suc)
  ultimately have bs: "?bs = concat (map node_bits (take n N)) @ node_bits (N ! n) @ concat (map node_bits (drop (Suc n) N))"
    by simp
  have "length (filter id (concat (map node_bits M))) = length M" for M
    by (induction M) (simp_all add: node_bits_def)
  then have "ones ?bs (start N n) = n" using assms(1) unfolding bs start_def by (simp add: ones_def)
  moreover have "ones (drop (start N n) ?bs) k = 0"
    using assms(2) unfolding bs start_def by (simp add: ones_def node_bits_def degree_def)
  ultimately show "ones ?bs (start N n + k) = n" by (simp add: ones_add)
qed

text \<open>Edge \<open>k\<close> of node \<open>n\<close> leads to the node whose number is the number of edges up to it.\<close>

lemma child_at:
  assumes N: "N = r # concat (map kids N)" and "n < length N" and "k < degree N n"
  shows "start N n + k - n + 1 < length N"
    and "N ! (start N n + k - n + 1) = (fst (N ! n) @ [fst (groups (snd (N ! n)) ! k)], snd (groups (snd (N ! n)) ! k))"
    and "concat (map (map fst \<circ> groups \<circ> snd) N) ! (start N n + k - n) = fst (groups (snd (N ! n)) ! k)"
    and "start N n + k - n < length (concat (map (map fst \<circ> groups \<circ> snd) N))"
proof -
  have i: "start N n + k - n = edges_before N n + k" using start_edges_before [of n N] assms(2) by simp
  have kn: "k < length (map kids N ! n)" using assms(2,3) by (simp add: degree_def)
  note at = nth_concat [of n "map kids N" k, OF _ kn]
  have "edges_before N n + k < length (concat (map kids N))"
    using at(2) assms(2) by (simp add: edges_before_def take_map)
  moreover have len: "length N = Suc (length (concat (map kids N)))" using arg_cong [OF N, of length] by simp
  ultimately show "start N n + k - n + 1 < length N" unfolding i by simp
  have "N ! (start N n + k - n + 1) = concat (map kids N) ! (edges_before N n + k)"
    unfolding i by (subst (1) N) simp
  also have "\<dots> = kids (N ! n) ! k" using at(1) assms(2) by (simp add: edges_before_def take_map)
  finally show "N ! (start N n + k - n + 1)
      = (fst (N ! n) @ [fst (groups (snd (N ! n)) ! k)], snd (groups (snd (N ! n)) ! k))"
    using assms(3) by (simp add: kids_def degree_def split_beta)
  let ?l = "map fst \<circ> groups \<circ> snd"
  have kl: "k < length (map ?l N ! n)" using assms(2,3) by (simp add: degree_def)
  have "edges_before N n = length (concat (take n (map ?l N)))"
    by (simp add: edges_before_def length_concat take_map o_def)
  with nth_concat [of n "map ?l N" k, OF _ kl] assms(2,3)
  show "concat (map ?l N) ! (start N n + k - n) = fst (groups (snd (N ! n)) ! k)"
    "start N n + k - n < length (concat (map ?l N))"
    unfolding i by (simp_all add: degree_def)
qed
end
