(* ===== verification/Domain_Set_Build.thy ===== *)
theory Domain_Set_Build
  imports Domain_Set_Index
begin

text \<open>
  The loops of \<open>buildDomainSet\<close> return and write the trie of the keys: its bits, labels and leaves in
  the order of the levels. The callback sees the keys in the order of the leaves.
\<close>

section \<open>The edges of a node\<close>

definition suffixes_of :: "string list \<Rightarrow> nat \<Rightarrow> nat \<Rightarrow> nat \<Rightarrow> string list" where
  "suffixes_of keys col s e = map (\<lambda>j. drop col (keys ! j)) [s..<e]"

definition node_of :: "string list \<Rightarrow> nat \<Rightarrow> nat \<times> nat \<Rightarrow> tnode" where
  "node_of keys col = (\<lambda>(s, e). (take col (keys ! s), suffixes_of keys col s e))"

text \<open>All keys of the range have a byte in the column.\<close>

definition full_range :: "string list \<Rightarrow> nat \<Rightarrow> nat \<Rightarrow> nat \<Rightarrow> bool" where
  "full_range keys col s e \<longleftrightarrow> (\<forall>j. s \<le> j \<longrightarrow> j < e \<longrightarrow> j < length keys \<and> col < length (keys ! j))"

lemma suffixes_of_Cons: "s < e \<Longrightarrow> suffixes_of keys col s e = drop col (keys ! s) # suffixes_of keys col (Suc s) e"
  by (simp add: suffixes_of_def upt_conv_Cons)

lemma suffixes_of_take: "s + l \<le> e \<Longrightarrow> take l (suffixes_of keys col s e) = suffixes_of keys col s (s + l)"
  by (simp add: suffixes_of_def take_map)

lemma suffixes_of_drop: "drop l (suffixes_of keys col s e) = suffixes_of keys col (s + l) e"
  by (simp add: suffixes_of_def drop_map)

lemma suffixes_of_tl: "map tl (suffixes_of keys col s e) = suffixes_of keys (Suc col) s e"
  by (simp add: suffixes_of_def drop_Suc tl_drop)

lemma key_byte_range: "full_range keys col s e \<Longrightarrow> s \<le> j \<Longrightarrow> j < e \<Longrightarrow> key_byte keys j col = Some (keys ! j ! col)"
  by (simp add: full_range_def key_byte_def at_def)

lemma run_end_takeWhile:
  assumes "full_range keys col j e"
  shows "run_end keys col c j e = Some (j + length (takeWhile (starts c) (suffixes_of keys col j e)))"
  using assms
proof (induction keys col c j e rule: run_end.induct)
  case (1 keys col c j e)
  show ?case
  proof (cases "j < e")
    case True
    then have kb: "key_byte keys j col = Some (keys ! j ! col)" using key_byte_range "1.prems" by blast
    have st: "starts c (drop col (keys ! j)) \<longleftrightarrow> keys ! j ! col = c"
      using "1.prems" True by (auto simp: starts_def full_range_def hd_drop_conv_nth)
    have "full_range keys col (j + 1) e" using "1.prems" by (simp add: full_range_def)
    with "1.IH" [OF True, of "keys ! j ! col"] True kb st show ?thesis
      by (subst run_end.simps) (simp add: suffixes_of_Cons)
  qed (simp add: run_end.simps suffixes_of_def)
qed

text \<open>What the loop over the edges adds to the state.\<close>

definition edges_added :: "'s build_state \<Rightarrow> (char \<times> string list) list \<Rightarrow> 's build_state \<Rightarrow> bool" where
  "edges_added st G st' \<longleftrightarrow>
     bs_labels st' = bs_labels st @ map fst G \<and> bs_lIdx st' = bs_lIdx st + length G \<and>
     bs_leaves st' = bs_leaves st \<and> bs_nodeID st' = bs_nodeID st \<and> bs_captured st' = bs_captured st \<and>
     (\<forall>bs. holds_bits (bs_labelBitmap st) bs \<longrightarrow> bs_lIdx st = length bs \<longrightarrow>
        holds_bits (bs_labelBitmap st') (bs @ replicate (length G) False))"

definition subrange :: "string list \<Rightarrow> nat \<Rightarrow> nat \<Rightarrow> nat \<Rightarrow> nat \<times> nat \<Rightarrow> bool" where
  "subrange keys col s e = (\<lambda>(s', e'). s \<le> s' \<and> s' < e' \<and> e' \<le> e \<and>
     (\<forall>j. s' \<le> j \<longrightarrow> j < e' \<longrightarrow> keys ! j ! col = keys ! s' ! col))"

definition subranges :: "string list \<Rightarrow> nat \<Rightarrow> nat \<Rightarrow> nat \<Rightarrow> (nat \<times> nat) list \<Rightarrow> bool" where
  "subranges keys col s e R \<longleftrightarrow> (\<forall>r\<in>set R. subrange keys col s e r)"

lemma subrange_mono: "subrange keys col s e r \<Longrightarrow> s' \<le> s \<Longrightarrow> subrange keys col s' e r"
  unfolding subrange_def by (cases r) (metis (mono_tags, lifting) case_prod_conv le_trans)

lemma subrangeD:
  assumes "subrange keys col s e (s', e')"
  shows "s \<le> s'" "s' < e'" "e' \<le> e" and "s' \<le> j \<Longrightarrow> j < e' \<Longrightarrow> keys ! j ! col = keys ! s' ! col"
  using assms unfolding subrange_def by blast+

lemma build_edges_groups:
  assumes "full_range keys col j e"
  shows "\<exists>st' R. build_edges keys col j e st nxt = Some (st', nxt @ R)
    \<and> edges_added st (groups (suffixes_of keys col j e)) st' \<and> subranges keys col j e R
    \<and> map (\<lambda>(s', e'). (keys ! s' ! col, suffixes_of keys (Suc col) s' e')) R = groups (suffixes_of keys col j e)"
  using assms
proof (induction "e - j" arbitrary: j st nxt rule: less_induct)
  case less
  show ?case
  proof (cases "j < e")
    case False
    then show ?thesis
      by (subst build_edges.simps) (simp add: suffixes_of_def edges_added_def subranges_def)
  next
    case True
    define c where "c = keys ! j ! col"
    define l where "l = length (takeWhile (starts c) (suffixes_of keys col (Suc j) e))"
    let ?st = "st\<lparr>bs_labels := bs_labels st @ [c], bs_labelBitmap := setBit (bs_labelBitmap st) (bs_lIdx st) False,
        bs_lIdx := bs_lIdx st + 1\<rparr>"
    have col: "col < length (keys ! j)" and jk: "j < length keys" using less.prems True by (auto simp: full_range_def)
    have dj: "drop col (keys ! j) = c # drop (Suc col) (keys ! j)" using col by (simp add: c_def Cons_nth_drop_Suc)
    have sj: "suffixes_of keys col j e = (c # drop (Suc col) (keys ! j)) # suffixes_of keys col (Suc j) e"
      using True dj by (simp add: suffixes_of_Cons)
    have "l \<le> length (suffixes_of keys col (Suc j) e)" unfolding l_def by (rule length_takeWhile_le)
    then have l: "Suc j + l \<le> e" using True by (simp add: suffixes_of_def)
    have run: "run_end keys col c j e = Some (Suc j + l)"
      unfolding run_end_takeWhile [OF less.prems] sj by (simp add: l_def starts_def)
    have tw: "takeWhile (starts c) (suffixes_of keys col (Suc j) e) = suffixes_of keys col (Suc j) (Suc j + l)"
      using suffixes_of_take [OF l, of keys col] takeWhile_eq_take [of "starts c" "suffixes_of keys col (Suc j) e"]
      unfolding l_def by argo
    have dw: "dropWhile (starts c) (suffixes_of keys col (Suc j) e) = suffixes_of keys col (Suc j + l) e"
      using suffixes_of_drop [of l keys col "Suc j" e] dropWhile_eq_drop [of "starts c" "suffixes_of keys col (Suc j) e"]
      unfolding l_def by argo
    have G: "groups (suffixes_of keys col j e)
        = (c, suffixes_of keys (Suc col) j (Suc j + l)) # groups (suffixes_of keys col (Suc j + l) e)"
      unfolding sj groups.simps tw dw suffixes_of_tl by (simp add: suffixes_of_Cons)
    have fr: "full_range keys col (Suc j + l) e" using less.prems by (simp add: full_range_def)
    have "e - (Suc j + l) < e - j" using True by simp
    from less.hyps [OF this fr, of ?st "nxt @ [(j, Suc j + l)]"] obtain st' R where
      r: "build_edges keys col (Suc j + l) e ?st (nxt @ [(j, Suc j + l)]) = Some (st', nxt @ (j, Suc j + l) # R)"
        "edges_added ?st (groups (suffixes_of keys col (Suc j + l) e)) st'" "subranges keys col (Suc j + l) e R"
        "map (\<lambda>(s', e'). (keys ! s' ! col, suffixes_of keys (Suc col) s' e')) R = groups (suffixes_of keys col (Suc j + l) e)"
      unfolding append_assoc append.simps by blast
    have "build_edges keys col j e st nxt = Some (st', nxt @ (j, Suc j + l) # R)"
      using True run r(1) key_byte_range [OF less.prems, of j] by (subst build_edges.simps) (simp add: c_def)
    moreover have "edges_added st (groups (suffixes_of keys col j e)) st'"
      using r(2) holds_bits_setBit [of "bs_labelBitmap st" _ "bs_lIdx st" False] unfolding G edges_added_def
      by (force simp: replicate_append_same)
    moreover have bytes: "keys ! i ! col = c" if "j \<le> i" "i < Suc j + l" for i
    proof (cases "i = j")
      case False
      with that have "drop col (keys ! i) \<in> set (suffixes_of keys col (Suc j) (Suc j + l))"
        unfolding suffixes_of_def set_map by (intro imageI) auto
      then have "drop col (keys ! i) \<in> set (takeWhile (starts c) (suffixes_of keys col (Suc j) e))"
        unfolding tw .
      then have "starts c (drop col (keys ! i))" by (rule set_takeWhileD [THEN conjunct2])
      then show ?thesis by (auto simp: starts_def hd_drop_conv_nth)
    qed (simp add: c_def)
    have "subrange keys col j e (j, Suc j + l)"
      unfolding subrange_def prod.case using l bytes bytes [of j] by (metis le_add1 le_refl less_Suc_eq_le plus_1_eq_Suc add_Suc)
    then have "subranges keys col j e ((j, Suc j + l) # R)"
      using r(3) subrange_mono [of keys col "Suc j + l" e _ j] by (simp add: subranges_def)
    moreover note this
    moreover have "map (\<lambda>(s', e'). (keys ! s' ! col, suffixes_of keys (Suc col) s' e')) ((j, Suc j + l) # R)
        = groups (suffixes_of keys col j e)"
      unfolding G using r(4) by (simp add: c_def)
    ultimately show ?thesis by blast
  qed
qed

section \<open>The levels\<close>

definition range_ok :: "string list \<Rightarrow> nat \<Rightarrow> nat \<times> nat \<Rightarrow> bool" where
  "range_ok keys col = (\<lambda>(s, e). s < e \<and> e \<le> length keys \<and> sorted_wrt (<) (suffixes_of keys col s e) \<and>
     (\<forall>j. s \<le> j \<longrightarrow> j < e \<longrightarrow> col \<le> length (keys ! j) \<and> take col (keys ! j) = take col (keys ! s)))"

lemma range_ok_take: "range_ok keys col (s, e) \<Longrightarrow> s \<le> j \<Longrightarrow> j < e \<Longrightarrow> take col (keys ! j) = take col (keys ! s)"
  unfolding range_ok_def by blast

lemma range_leaf:
  assumes "range_ok keys col (s, e)"
  shows "is_leaf (node_of keys col (s, e)) \<longleftrightarrow> col = length (keys ! s)"
    and "full_range keys col (if col = length (keys ! s) then s + 1 else s) e"
    and "groups (suffixes_of keys col (if col = length (keys ! s) then s + 1 else s) e) = groups (suffixes_of keys col s e)"
proof -
  have se: "s < e" "e \<le> length keys" "col \<le> length (keys ! s)" using assms by (auto simp: range_ok_def)
  have S: "suffixes_of keys col s e = drop col (keys ! s) # suffixes_of keys col (Suc s) e"
    using se by (simp add: suffixes_of_Cons)
  have ne: "drop col (keys ! j) \<noteq> []" if "s < j" "j < e" for j
  proof (rule strict_above(1))
    show "sorted_wrt (<) (drop col (keys ! s) # suffixes_of keys col (Suc s) e)"
      using assms S by (simp add: range_ok_def)
    show "drop col (keys ! j) \<in> set (suffixes_of keys col (Suc s) e)"
      using that by (auto simp: suffixes_of_def)
  qed
  then have "[] \<notin> set (suffixes_of keys col (Suc s) e)" by (auto simp: suffixes_of_def)
  then show "is_leaf (node_of keys col (s, e)) \<longleftrightarrow> col = length (keys ! s)"
    using se by (auto simp: is_leaf_def node_of_def S)
  show "full_range keys col (if col = length (keys ! s) then s + 1 else s) e"
    unfolding full_range_def
  proof (intro allI impI)
    fix j
    assume j: "(if col = length (keys ! s) then s + 1 else s) \<le> j" "j < e"
    then have "j = s \<and> col < length (keys ! s) \<or> s < j" using se(3) by (auto split: if_splits)
    then show "j < length keys \<and> col < length (keys ! j)" using ne [of j] j(2) se(2)
      by (elim disjE) (simp_all add: not_le)
  qed
  show "groups (suffixes_of keys col (if col = length (keys ! s) then s + 1 else s) e) = groups (suffixes_of keys col s e)"
    using S by simp
qed

lemma range_kids:
  assumes ok: "range_ok keys col (s, e)" and R: "subranges keys col s e R"
    "map (\<lambda>(s', e'). (keys ! s' ! col, suffixes_of keys (Suc col) s' e')) R = groups (suffixes_of keys col s e)"
    and full: "\<And>s' e'. (s', e') \<in> set R \<Longrightarrow> full_range keys col s' e'"
  shows "\<forall>r\<in>set R. range_ok keys (Suc col) r"
    and "map (node_of keys (Suc col)) R = kids (node_of keys col (s, e))"
proof -
  have sub: "s \<le> s' \<and> s' < e' \<and> e' \<le> e" if "(s', e') \<in> set R" for s' e'
    using R(1) that subrangeD(1,2,3) by (metis subranges_def)
  have take: "take (Suc col) (keys ! j) = take col (keys ! s) @ [keys ! j ! col]"
    if "(s', e') \<in> set R" "s' \<le> j" "j < e'" for s' e' j
  proof -
    have "col < length (keys ! j)" using full [OF that(1)] that by (simp add: full_range_def)
    moreover have "take col (keys ! j) = take col (keys ! s)"
      by (rule range_ok_take [OF ok]) (use sub [OF that(1)] that in simp_all)
    ultimately show ?thesis by (simp add: take_Suc_conv_app_nth)
  qed
  have "node_of keys (Suc col) r
      = (case r of (s', e') \<Rightarrow> (take col (keys ! s) @ [keys ! s' ! col], suffixes_of keys (Suc col) s' e'))"
    if "r \<in> set R" for r
  proof (cases r)
    case (Pair s' e')
    with take [of s' e' s'] sub [of s' e'] that show ?thesis by (simp add: node_of_def)
  qed
  then have "map (node_of keys (Suc col)) R
      = map (\<lambda>(c, T). (take col (keys ! s) @ [c], T)) (map (\<lambda>(s', e'). (keys ! s' ! col, suffixes_of keys (Suc col) s' e')) R)"
    by (simp add: split_beta)
  then show "map (node_of keys (Suc col)) R = kids (node_of keys col (s, e))"
    unfolding R(2) by (simp add: kids_def node_of_def)
  show "\<forall>r\<in>set R. range_ok keys (Suc col) r"
  proof
    fix r assume r: "r \<in> set R"
    obtain s' e' where r': "r = (s', e')" by (cases r)
    let ?g = "(keys ! s' ! col, suffixes_of keys (Suc col) s' e')"
    have mem: "?g \<in> set (groups (suffixes_of keys col s e))"
      using imageI [OF r, of "\<lambda>(s', e'). (keys ! s' ! col, suffixes_of keys (Suc col) s' e')"]
      unfolding R(2) [symmetric] r' by simp
    have "sorted_wrt (<) (suffixes_of keys (Suc col) s' e')"
      using groups_sorted [of "suffixes_of keys col s e"] ok mem unfolding range_ok_def by fast
    moreover have "Suc col \<le> length (keys ! j) \<and> take (Suc col) (keys ! j) = take (Suc col) (keys ! s')"
      if "s' \<le> j" "j < e'" for j
    proof -
      have "keys ! j ! col = keys ! s' ! col" using R(1) r r' that subrangeD(4) by (metis subranges_def)
      then show ?thesis
        using take [of s' e' j] take [of s' e' s'] that r r' sub [of s' e'] full [of s' e'] by (simp add: full_range_def Suc_le_eq)
    qed
    moreover have "e \<le> length keys" using ok unfolding range_ok_def by blast
    then have "s' < e' \<and> e' \<le> length keys" using sub [of s' e'] r r' by simp
    ultimately show "range_ok keys (Suc col) r" unfolding r' range_ok_def by blast
  qed
qed

text \<open>The state after the nodes \<open>D\<close> have been written.\<close>

definition terminal :: "(string \<Rightarrow> 's \<Rightarrow> 's) option \<Rightarrow> string \<Rightarrow> 's \<Rightarrow> 's" where
  "terminal onTerminal k s = (case onTerminal of None \<Rightarrow> s | Some f \<Rightarrow> f k s)"

definition leaves_hold :: "bitmap \<Rightarrow> tnode list \<Rightarrow> bool" where
  "leaves_hold bm D \<longleftrightarrow> (\<exists>ls k. holds_bits bm ls \<and> map is_leaf D = ls @ replicate k False)"

definition written :: "(string \<Rightarrow> 's \<Rightarrow> 's) option \<Rightarrow> 's \<Rightarrow> 's build_state \<Rightarrow> tnode list \<Rightarrow> bool" where
  "written onTerminal s st D \<longleftrightarrow>
     holds_bits (bs_labelBitmap st) (concat (map node_bits D)) \<and> bs_lIdx st = length (concat (map node_bits D)) \<and>
     bs_labels st = concat (map (map fst \<circ> groups \<circ> snd) D) \<and> bs_nodeID st = length D \<and>
     leaves_hold (bs_leaves st) D \<and> bs_captured st = fold (terminal onTerminal) (map fst (filter is_leaf D)) s"

lemma leaves_hold_inner: "leaves_hold bm D \<Longrightarrow> \<not> is_leaf n \<Longrightarrow> leaves_hold bm (D @ [n])"
proof -
  assume "leaves_hold bm D" and n: "\<not> is_leaf n"
  then obtain ls k where l: "holds_bits bm ls" "map is_leaf D = ls @ replicate k False"
    unfolding leaves_hold_def by blast
  then have "map is_leaf (D @ [n]) = ls @ replicate (Suc k) False" using n by (simp add: replicate_append_same)
  with l(1) show ?thesis unfolding leaves_hold_def by blast
qed

lemma leaves_hold_leaf:
  assumes "leaves_hold bm D" and "is_leaf n"
  shows "leaves_hold (setBit bm (length D) True) (D @ [n])"
proof -
  from assms(1) obtain ls k where l: "holds_bits bm ls" "map is_leaf D = ls @ replicate k False"
    unfolding leaves_hold_def by blast
  have len: "length D = length ls + k" using arg_cong [OF l(2), of length] by simp
  have "holds_bits (setBit bm (length D) True) (ls @ replicate k False @ [True])"
    using holds_bits_setBit [OF l(1), of "length D" True] len by simp
  moreover have "map is_leaf (D @ [n]) = (ls @ replicate k False @ [True]) @ replicate 0 False"
    using l(2) assms(2) by simp
  ultimately show ?thesis unfolding leaves_hold_def by blast
qed

text \<open>The state at the edges of the node: its leaf is marked, its edges are not written yet.\<close>

lemma written_node:
  assumes w: "written onTerminal s st D" and ok: "range_ok keys col (a, e)"
    and st1: "st1 = (if col = length (keys ! a)
      then st\<lparr>bs_captured := (case onTerminal of None \<Rightarrow> bs_captured st | Some f \<Rightarrow> f (keys ! a) (bs_captured st)),
              bs_leaves := setBit (bs_leaves st) (bs_nodeID st) True\<rparr> else st)"
    and st2: "edges_added st1 (groups (suffixes_of keys col a e)) st2"
  shows "written onTerminal s (st2\<lparr>bs_labelBitmap := setBit (bs_labelBitmap st2) (bs_lIdx st2) True,
      bs_lIdx := bs_lIdx st2 + 1, bs_nodeID := bs_nodeID st2 + 1\<rparr>) (D @ [node_of keys col (a, e)])"
proof -
  let ?n = "node_of keys col (a, e)" and ?G = "groups (suffixes_of keys col a e)" and ?bs = "concat (map node_bits D)"
  have n: "snd ?n = suffixes_of keys col a e" "fst ?n = take col (keys ! a)" by (simp_all add: node_of_def)
  have leaf: "is_leaf ?n \<longleftrightarrow> col = length (keys ! a)" by (rule range_leaf(1) [OF ok])
  have lv: "leaves_hold (bs_leaves st1) (D @ [?n])"
    using w leaves_hold_inner [of "bs_leaves st" D ?n] leaves_hold_leaf [of "bs_leaves st" D ?n] leaf
    by (simp add: st1 written_def)
  have cap: "bs_captured st1 = fold (terminal onTerminal) (map fst (filter is_leaf (D @ [?n]))) s"
    using w leaf n(2) by (auto simp: st1 written_def terminal_def split: option.splits)
  have same: "bs_labelBitmap st1 = bs_labelBitmap st" "bs_lIdx st1 = bs_lIdx st" "bs_labels st1 = bs_labels st"
    "bs_nodeID st1 = bs_nodeID st" by (simp_all add: st1)
  have "holds_bits (bs_labelBitmap st2) (?bs @ replicate (length ?G) False)"
    using st2 w same by (simp add: edges_added_def written_def)
  moreover have idx: "bs_lIdx st2 = length (?bs @ replicate (length ?G) False)"
    using st2 w same by (simp add: edges_added_def written_def)
  ultimately have "holds_bits (setBit (bs_labelBitmap st2) (bs_lIdx st2) True) (?bs @ node_bits ?n)"
    using holds_bits_setBit [of "bs_labelBitmap st2" "?bs @ replicate (length ?G) False" "bs_lIdx st2" True]
    by (simp add: node_bits_def n)
  with st2 w same idx lv cap show ?thesis
    by (simp add: edges_added_def written_def n node_bits_def)
qed

lemma build_queue_level:
  assumes "\<forall>r\<in>set queue. range_ok keys col r" and "written onTerminal s st D"
  shows "\<exists>st' R. build_queue keys onTerminal col queue st nxt = Some (st', nxt @ R)
    \<and> written onTerminal s st' (D @ map (node_of keys col) queue) \<and> (\<forall>r\<in>set R. range_ok keys (Suc col) r)
    \<and> map (node_of keys (Suc col)) R = concat (map kids (map (node_of keys col) queue))"
  using assms
proof (induction queue arbitrary: st nxt D)
  case Nil
  then show ?case by simp
next
  case (Cons r queue)
  obtain a e where r: "r = (a, e)" by (cases r)
  have ok: "range_ok keys col (a, e)" using Cons.prems r by simp
  then have a: "at keys a = Some (keys ! a)" by (auto simp: range_ok_def at_def)
  define leaf where "leaf \<longleftrightarrow> col = length (keys ! a)"
  define st1 where "st1 = (if leaf
      then st\<lparr>bs_captured := (case onTerminal of None \<Rightarrow> bs_captured st | Some f \<Rightarrow> f (keys ! a) (bs_captured st)),
              bs_leaves := setBit (bs_leaves st) (bs_nodeID st) True\<rparr> else st)"
  note full = range_leaf(2,3) [OF ok, folded leaf_def]
  from build_edges_groups [OF full(1), of st1 nxt] obtain st2 R where
    e: "build_edges keys col (if leaf then a + 1 else a) e st1 nxt = Some (st2, nxt @ R)"
      "edges_added st1 (groups (suffixes_of keys col a e)) st2" "subranges keys col (if leaf then a + 1 else a) e R"
      "map (\<lambda>(s', e'). (keys ! s' ! col, suffixes_of keys (Suc col) s' e')) R = groups (suffixes_of keys col a e)"
    unfolding full(2) by blast
  let ?a = "if leaf then a + 1 else a"
  have "a \<le> ?a" by simp
  with e(3) subrange_mono [of keys col ?a e _ a] have sub: "subranges keys col a e R"
    unfolding subranges_def by blast
  have fr: "full_range keys col s' e'" if "(s', e') \<in> set R" for s' e'
  proof -
    have "subrange keys col ?a e (s', e')" using e(3) that unfolding subranges_def by blast
    from full(1) subrangeD(1) [OF this] subrangeD(3) [OF this] show ?thesis
      unfolding full_range_def by (meson le_trans less_le_trans)
  qed
  let ?st = "st2\<lparr>bs_labelBitmap := setBit (bs_labelBitmap st2) (bs_lIdx st2) True,
      bs_lIdx := bs_lIdx st2 + 1, bs_nodeID := bs_nodeID st2 + 1\<rparr>"
  have "written onTerminal s ?st (D @ [node_of keys col (a, e)])"
    by (rule written_node [OF Cons.prems(2) ok st1_def [unfolded leaf_def] e(2)])
  from Cons.IH [OF _ this, of "nxt @ R"] Cons.prems(1) obtain st' R' where
    q: "build_queue keys onTerminal col queue ?st (nxt @ R) = Some (st', (nxt @ R) @ R')"
      "written onTerminal s st' ((D @ [node_of keys col (a, e)]) @ map (node_of keys col) queue)"
      "\<forall>r\<in>set R'. range_ok keys (Suc col) r"
      "map (node_of keys (Suc col)) R' = concat (map kids (map (node_of keys col) queue))" by auto
  have "build_queue keys onTerminal col (r # queue) st nxt = Some (st', nxt @ R @ R')"
    using a e(1) q(1) by (simp add: r Let_def leaf_def [symmetric] st1_def [symmetric])
  moreover note range_kids [OF ok sub e(4) fr]
  ultimately show ?case using q(2-4)
    by (intro exI [of _ st'] exI [of _ "R @ R'"]) (simp add: r ball_Un)
qed

lemma build_columns_bfs:
  assumes "\<forall>r\<in>set queue. range_ok keys col r" and "written onTerminal s st D"
  shows "\<exists>st'. build_columns keys onTerminal col queue st = Some st'
    \<and> written onTerminal s st' (D @ bfs (map (node_of keys col) queue))"
  using assms
proof (induction "map (node_of keys col) queue" arbitrary: queue col st D rule: bfs.induct)
  case 1
  show ?case
  proof (cases "queue = []")
    case True
    with "1.prems" show ?thesis by (subst build_columns.simps) simp
  next
    case False
    from build_queue_level [OF "1.prems", of "[]"] obtain st' R where
      q: "build_queue keys onTerminal col queue st [] = Some (st', R)"
        "written onTerminal s st' (D @ map (node_of keys col) queue)" "\<forall>r\<in>set R. range_ok keys (Suc col) r"
        "map (node_of keys (Suc col)) R = concat (map kids (map (node_of keys col) queue))" by auto
    have ne: "map (node_of keys col) queue \<noteq> []" using False by simp
    from "1.hyps" [OF ne q(4) [symmetric] q(3,2)] obtain st'' where
      "build_columns keys onTerminal (Suc col) R st' = Some st''"
      "written onTerminal s st'' ((D @ map (node_of keys col) queue) @ bfs (map (node_of keys (Suc col)) R))" by blast
    moreover have "bfs (map (node_of keys col) queue) = map (node_of keys col) queue @ bfs (map (node_of keys (Suc col)) R)"
      unfolding q(4) using ne by (subst bfs.simps) (simp only: if_False)
    moreover have "build_columns keys onTerminal col queue st = build_columns keys onTerminal (Suc col) R st'"
      using q(1) False by (subst build_columns.simps) simp
    ultimately show ?thesis by (intro exI [of _ st'']) (simp del: map_map)
  qed
qed

section \<open>The built set\<close>

text \<open>
  A set whose bitmaps hold the trie of the keys. The last node of the last level is a leaf, so that
  the bitmap of the leaves has a bit for every node.
\<close>

definition trie_nodes :: "string list \<Rightarrow> tnode list" where
  "trie_nodes keys = bfs [([], Compact (sort keys))]"

definition stores :: "bitmap_ops \<Rightarrow> DomainSet \<Rightarrow> tnode list \<Rightarrow> bool" where
  "stores B ss N \<longleftrightarrow>
     holds_bits (ds_labelBitmap ss) (concat (map node_bits N)) \<and>
     ds_labels ss = concat (map (map fst \<circ> groups \<circ> snd) N) \<and>
     leaves_hold (ds_leaves ss) N \<and>
     bm_IndexSelect32R64 B (ds_labelBitmap ss) = (ds_selects ss, ds_ranks ss)"

lemma Compact_sorted: "sorted xs \<Longrightarrow> sorted_wrt (<) (Compact (xs :: 'a :: linorder list)) \<and> set (Compact xs) = set xs"
proof (induction xs rule: Compact.induct)
  case (3 x y xs)
  then show ?case by (auto simp: less_le)
qed simp_all

lemma Compact_sort: "sorted_wrt (<) (Compact (sort keys)) \<and> set (Compact (sort keys)) = set (keys :: string list)"
  using Compact_sorted [of "sort keys"] by simp

lemma buildDomainSet_stores:
  assumes "keys \<noteq> []"
  shows "\<exists>ss. buildDomainSet B keys onTerminal s =
      Some (Some ss, fold (terminal onTerminal) (map fst (filter is_leaf (trie_nodes keys))) s)
    \<and> stores B ss (trie_nodes keys)"
proof -
  let ?K = "Compact (sort keys)"
  let ?st = "\<lparr>bs_leaves = [], bs_labelBitmap = [], bs_labels = [], bs_lIdx = 0, bs_nodeID = 0, bs_captured = s\<rparr>"
  have "set ?K \<noteq> {}" using assms Compact_sort by simp
  then have K: "?K \<noteq> []" by auto
  have suf: "suffixes_of ?K 0 0 (length ?K) = ?K" by (simp add: suffixes_of_def map_nth)
  have "range_ok ?K 0 (0, length ?K)" using K Compact_sort [of keys] by (simp add: range_ok_def suf)
  moreover have "written onTerminal s ?st []"
    by (auto simp: written_def leaves_hold_def intro!: exI [of _ "[]"])
  ultimately obtain st where st: "build_columns ?K onTerminal 0 [(0, length ?K)] ?st = Some st"
    "written onTerminal s st (trie_nodes keys)"
    using build_columns_bfs [of "[(0, length ?K)]" ?K 0 onTerminal s ?st "[]"]
    by (auto simp: trie_nodes_def node_of_def suf)
  have "stores B (ds_init B (bs_leaves st) (bs_labelBitmap st) (bs_labels st)) (trie_nodes keys)"
    using st(2) by (simp add: stores_def ds_init_def written_def split_beta)
  with st assms show ?thesis by (simp add: buildDomainSet_def Let_def written_def)
qed

text \<open>The bitmap has at most two bits for every byte of the keys and for the root.\<close>

lemma length_bfs: "2 * length (bfs q) \<le> sum_list (map (weight \<circ> snd) q)"
proof (induction q rule: bfs.induct)
  case (1 q)
  show ?case
  proof (cases "q = []")
    case False
    let ?k = "concat (map kids q)"
    have "2 * length q + sum_list (map (weight \<circ> snd) ?k) \<le> sum_list (map (weight \<circ> snd) q)"
    proof (induction q)
      case (Cons n q)
      then show ?case using weight_groups [of "snd n"] by (simp add: kids_def o_def split_beta)
    qed simp
    moreover have "bfs q = q @ bfs ?k" using False by (subst bfs.simps) (simp only: if_False)
    ultimately show ?thesis using 1 [OF False] by (simp only: length_append add_mult_distrib2)
  qed simp
qed

lemma Compact_length: "sum_list (map length (Compact xs)) \<le> sum_list (map length xs)"
  by (induction xs rule: Compact.induct) auto

lemma sum_list_sort: "sum_list (map (f :: 'a :: linorder \<Rightarrow> nat) (sort xs)) = sum_list (map f xs)"
proof (induction xs)
  case (Cons x xs)
  have "sum_list (map f (insort x ys)) = f x + sum_list (map f ys)" for ys by (induction ys) auto
  with Cons show ?case by simp
qed simp

lemma stores_fits:
  assumes "stores B ss (trie_nodes keys)" and "2 * sum_list (map length keys) + 65 < 2 ^ 31"
  shows "fits32 (ds_labelBitmap ss)"
proof -
  let ?N = "trie_nodes keys" and ?r = "([], Compact (sort keys)) :: tnode"
  have len: "length (concat (map node_bits N)) = length (concat (map kids N)) + length N" for N
    by (induction N) simp_all
  have N: "?N = ?r # concat (map kids ?N)" unfolding trie_nodes_def by (rule bfs_root)
  have "length ?N = Suc (length (concat (map kids ?N)))" by (subst (1) N) simp
  moreover have "sum_list (map length (Compact (sort keys))) \<le> sum_list (map length keys)"
    using Compact_length [of "sort keys"] sum_list_sort [of length keys] by simp
  then have "length ?N \<le> 1 + sum_list (map length keys)"
    using length_bfs [of "[?r]"] by (simp add: trie_nodes_def weight_def)
  ultimately have "length (concat (map node_bits ?N)) \<le> 2 * sum_list (map length keys) + 1" using len [of ?N] by simp
  moreover have "length (ds_labelBitmap ss) = (length (concat (map node_bits ?N)) + 63) div 64"
    using assms(1) unfolding stores_def holds_bits_def by blast
  ultimately show ?thesis using assms(2) unfolding fits32_def by linarith
qed

section \<open>Walking in the built set\<close>

definition trie_ok :: "tnode list \<Rightarrow> bool" where
  "trie_ok N \<longleftrightarrow> (\<exists>r. N = r # concat (map kids N)) \<and> (\<forall>n\<in>set N. snd n \<noteq> [] \<and> sorted_wrt (<) (snd n)) \<and> is_leaf (last N)"

definition walkable :: "bitmap_ops \<Rightarrow> DomainSet \<Rightarrow> tnode list \<Rightarrow> bool" where
  "walkable B ss N \<longleftrightarrow> stores B ss N \<and> trie_ok N \<and> fits32 (ds_labelBitmap ss)"

lemma kids_ok:
  "snd n \<noteq> [] \<and> sorted_wrt (<) (snd n) \<Longrightarrow> k \<in> set (kids n) \<Longrightarrow> snd k \<noteq> [] \<and> sorted_wrt (<) (snd k)"
  using groups_sorted [of "snd n"] groups_not_Nil [of _ _ "snd n"] by (fastforce simp: kids_def)

lemma no_edges_leaf: "snd n \<noteq> [] \<Longrightarrow> kids n = [] \<Longrightarrow> is_leaf n"
  using groups_mem [of _ _ "snd n"]
  by (cases "snd n") (auto simp: is_leaf_def kids_def, metis list.exhaust)

lemma last_leaf: "q \<noteq> [] \<Longrightarrow> \<forall>n\<in>set q. snd n \<noteq> [] \<and> sorted_wrt (<) (snd n) \<Longrightarrow> is_leaf (last (bfs q))"
proof (induction q rule: bfs.induct)
  case (1 q)
  let ?k = "concat (map kids q)"
  have b: "bfs q = q @ bfs ?k" using "1.prems"(1) by (subst bfs.simps) (simp only: if_False)
  show ?case
  proof (cases "?k = []")
    case True
    then have "kids (last q) = []" using last_in_set [OF "1.prems"(1)] by (simp only: concat_eq_Nil_conv set_map ball_simps)
    moreover have "snd (last q) \<noteq> []" using "1.prems" last_in_set by blast
    ultimately show ?thesis using b True no_edges_leaf by (simp only: bfs_Nil append_Nil2) blast
  next
    case False
    have "\<forall>n\<in>set ?k. snd n \<noteq> [] \<and> sorted_wrt (<) (snd n)"
      using "1.prems"(2) kids_ok unfolding set_concat set_map by blast
    from "1.IH" [OF "1.prems"(1) False this] have "is_leaf (last (bfs ?k))" .
    moreover have "bfs ?k \<noteq> []" using False by (subst bfs.simps) (simp only: if_False append_is_Nil_conv not_False_eq_True simp_thms)
    ultimately show ?thesis using b by (simp only: last_append if_False)
  qed
qed

lemma trie_nodes_ok: "keys \<noteq> [] \<Longrightarrow> trie_ok (trie_nodes keys)"
proof -
  let ?r = "([], Compact (sort keys)) :: tnode"
  assume "keys \<noteq> []"
  then have "set (Compact (sort keys)) \<noteq> {}" using Compact_sort by simp
  then have r: "snd ?r \<noteq> [] \<and> sorted_wrt (<) (snd ?r)" using Compact_sort [of keys] by auto
  have "snd n \<noteq> [] \<and> sorted_wrt (<) (snd n)" if "n \<in> set (bfs [?r])" for n
    by (rule bfs_induct [OF _ kids_ok that]) (use r in auto)
  then show ?thesis
    using last_leaf [of "[?r]"] r bfs_root [of ?r] unfolding trie_ok_def trie_nodes_def by auto
qed

lemma walk_leaf:
  assumes "walkable B ss N" and "n < length N"
  shows "getBit (ds_leaves ss) n = Some (is_leaf (N ! n))"
proof -
  from assms(1) obtain ls k where l: "holds_bits (ds_leaves ss) ls" "map is_leaf N = ls @ replicate k False"
    unfolding walkable_def stores_def leaves_hold_def by blast
  have "k = 0"
  proof (rule ccontr)
    assume "k \<noteq> 0"
    then have "last (map is_leaf N) = False" unfolding l(2) by simp
    moreover have "N \<noteq> []" using assms(2) by auto
    ultimately show False using assms(1) by (simp add: walkable_def trie_ok_def last_map)
  qed
  with l holds_bits_getBit [OF l(1), of n] assms(2) show ?thesis
    by (metis append.right_neutral length_map nth_map replicate_0)
qed

lemma walk_edge:
  assumes "walkable B ss N" and "n < length N" and "k < degree N n"
  shows "getBit (ds_labelBitmap ss) (start N n + k) = Some False"
    and "at (ds_labels ss) (start N n + k - n) = Some (fst (groups (snd (N ! n)) ! k))"
    and "start N n + k - n + 1 < length N"
    and "N ! (start N n + k - n + 1) = (fst (N ! n) @ [fst (groups (snd (N ! n)) ! k)], snd (groups (snd (N ! n)) ! k))"
proof -
  from assms(1) obtain r where N: "N = r # concat (map kids N)" unfolding walkable_def trie_ok_def by blast
  have s: "holds_bits (ds_labelBitmap ss) (concat (map node_bits N))"
    "ds_labels ss = concat (map (map fst \<circ> groups \<circ> snd) N)"
    using assms(1) by (simp_all add: walkable_def stores_def)
  show "getBit (ds_labelBitmap ss) (start N n + k) = Some False"
    using holds_bits_getBit [OF s(1)] bit_at(1,2) [OF assms(2), of k] assms(3) by simp
  show "at (ds_labels ss) (start N n + k - n) = Some (fst (groups (snd (N ! n)) ! k))"
    unfolding at_def s(2) using child_at(3,4) [OF N assms(2,3)] by simp
  show "start N n + k - n + 1 < length N"
    "N ! (start N n + k - n + 1) = (fst (N ! n) @ [fst (groups (snd (N ! n)) ! k)], snd (groups (snd (N ! n)) ! k))"
    using child_at(1,2) [OF N assms(2,3)] by simp_all
qed

lemma walk_end:
  assumes "walkable B ss N" and "n < length N"
  shows "getBit (ds_labelBitmap ss) (start N n + degree N n) = Some True"
  using holds_bits_getBit [of "ds_labelBitmap ss" "concat (map node_bits N)"] bit_at(1,2) [OF assms(2) le_refl] assms(1)
  by (simp add: walkable_def stores_def)

context bitmap_index
begin

lemma walk_select:
  assumes "walkable B ss N" and "n < length N"
  shows "select_one B ss n = start N n + degree N n"
  using selectIthOne_holds [of "ds_labelBitmap ss" "concat (map node_bits N)" "start N n + degree N n"]
    bit_at [OF assms(2) le_refl] assms(1)
  by (simp add: walkable_def stores_def)

lemma walk_first:
  assumes "walkable B ss N" and "n < length N" and "0 < n"
  shows "select_one B ss (n - 1) + 1 = start N n"
  using walk_select [OF assms(1), of "n - 1"] start_Suc [of "n - 1" N] assms(2,3) by simp

lemma walk_zeros:
  assumes "walkable B ss N" and "n < length N" and "k < degree N n"
  shows "zeros_before B ss (start N n + k + 1) = start N n + k - n + 1"
proof -
  have h: "holds_bits (ds_labelBitmap ss) (concat (map node_bits N))" using assms(1) by (simp add: walkable_def stores_def)
  have k: "k + 1 \<le> degree N n" using assms(3) by simp
  note b = bit_at(2,3) [OF assms(2) k]
  have "start N n + (k + 1) < 64 * length (ds_labelBitmap ss)" using b(1) holds_bits_length [OF h] by simp
  from countZeros_holds [OF h _ this, of "ds_ranks ss"] assms(1)
  have "zeros_before B ss (start N n + (k + 1)) = start N n + (k + 1) - n"
    unfolding b(2) by (simp add: walkable_def stores_def)
  then show ?thesis using start_edges_before [of n N] assms(2) by simp
qed

end
end
