(* ===== verification/Domain_Set_Search.thy ===== *)
theory Domain_Set_Search
  imports Domain_Set_Build Domain_Trie_Properties
begin

text \<open>
  \<open>Has\<close> returns on every built set and decides the byte-wise meaning of the keys. The search takes the
  edges of a node in ascending order and follows a literal edge at once, so it sees the wildcards of
  the node only if they come before the literal edge: the bytes of the query must not be below the star.
\<close>

section \<open>The meaning of keys\<close>

definition to_step :: "string \<Rightarrow> string" where
  "to_step s = dropWhile (\<lambda>c. c \<noteq> domainStepByte) s"

fun byte_match :: "string \<Rightarrow> string \<Rightarrow> bool" where
  "byte_match [] s = (s = [])"
| "byte_match (c # p) s = (s \<noteq> [] \<and>
     (if c = complexWildcardByte then True
      else if c = wildcardByte then byte_match p (to_step s)
      else hd s = c \<and> byte_match p (tl s)))"

text \<open>A star stands for a whole label: a step or the end comes after it.\<close>

definition only_steps :: "string \<Rightarrow> bool" where
  "only_steps p \<longleftrightarrow> p = [] \<or> hd p = domainStepByte"

fun star_ok :: "string \<Rightarrow> bool" where
  "star_ok [] = True"
| "star_ok (c # p) = ((c = wildcardByte \<longrightarrow> only_steps p) \<and> star_ok p)"

definition node_match :: "string list \<Rightarrow> string \<Rightarrow> bool" where
  "node_match T s \<longleftrightarrow> (\<exists>p\<in>set T. byte_match p s)"

definition edge_match :: "char \<times> string list \<Rightarrow> string \<Rightarrow> bool" where
  "edge_match e s \<longleftrightarrow> s \<noteq> [] \<and>
     (if fst e = complexWildcardByte then True
      else if fst e = wildcardByte then node_match (snd e) (to_step s)
      else hd s = fst e \<and> node_match (snd e) (tl s))"

lemma byte_match_Nil: "byte_match p [] \<longleftrightarrow> p = []"
  by (cases p) simp_all

lemma node_match_end: "node_match T [] \<longleftrightarrow> [] \<in> set T"
  by (auto simp: node_match_def byte_match_Nil)

lemma node_match_edges: "s \<noteq> [] \<Longrightarrow> node_match T s \<longleftrightarrow> (\<exists>e\<in>set (groups T). edge_match e s)"
proof -
  assume s: "s \<noteq> []"
  have edge: "edge_match (c, T') s \<longleftrightarrow> (\<exists>p\<in>set T'. byte_match (c # p) s)" if "T' \<noteq> []" for c T'
    using that s by (auto simp: edge_match_def node_match_def neq_Nil_conv)
  have "node_match T s \<longleftrightarrow> (\<exists>c p. c # p \<in> set T \<and> byte_match (c # p) s)"
    unfolding node_match_def using s by (metis byte_match.simps(1) list.exhaust)
  also have "\<dots> \<longleftrightarrow> (\<exists>c T'. (c, T') \<in> set (groups T) \<and> (\<exists>p\<in>set T'. byte_match (c # p) s))"
    unfolding groups_mem by blast
  also have "\<dots> \<longleftrightarrow> (\<exists>c T'. (c, T') \<in> set (groups T) \<and> edge_match (c, T') s)"
    using edge groups_not_Nil by metis
  also have "\<dots> \<longleftrightarrow> (\<exists>e\<in>set (groups T). edge_match e s)" by auto
  finally show ?thesis .
qed

text \<open>Below a star there is at most one edge, a step.\<close>

lemma only_steps_groups:
  assumes "sorted_wrt (<) T" and "\<forall>p\<in>set T. only_steps p"
  shows "groups T = [] \<or> (\<exists>T'. groups T = [(domainStepByte, T')])"
proof (cases "groups T")
  case (Cons e G)
  have lab: "fst e' = domainStepByte" if "e' \<in> set (groups T)" for e'
  proof -
    from groups_labels [of "fst e'" "snd e'" T] that obtain p where "fst e' # p \<in> set T" by auto
    with assms(2) show ?thesis by (auto simp: only_steps_def)
  qed
  have "G = []"
  proof (rule ccontr)
    assume "G \<noteq> []"
    then obtain e' G' where "G = e' # G'" by (cases G) auto
    with groups_sorted [OF assms(1)] Cons have "fst e < fst e'" by simp
    with lab [of e] lab [of e'] Cons \<open>G = e' # G'\<close> show False by simp
  qed
  with Cons lab [of e] show ?thesis by (cases e) simp
qed simp

section \<open>The query\<close>

definition query :: "string \<Rightarrow> string" where
  "query key = rev (ToLower key)"

lemma length_query [simp]: "length (query key) = length key"
  by (simp add: query_def ToLower_def)

lemma revLowerAt_query: "i < length key \<Longrightarrow> revLowerAt key i = query key ! i"
  by (simp add: revLowerAt_def query_def ToLower_def rev_nth)

lemma drop_query: "i < length key \<Longrightarrow> drop i (query key) = query key ! i # drop (Suc i) (query key)"
  by (simp add: Cons_nth_drop_Suc)

lemma step_from_query:
  "i \<le> length key \<Longrightarrow> step_from key i \<le> length key \<and> drop (step_from key i) (query key) = to_step (drop i (query key))"
proof (induction "length key - i" arbitrary: i rule: less_induct)
  case less
  show ?case
  proof (cases "i < length key")
    case True
    then have "step_from key i = (if query key ! i \<noteq> domainStepByte then step_from key (i + 1) else i)"
      by (subst step_from.simps) (simp add: revLowerAt_query)
    moreover have "step_from key (i + 1) \<le> length key
        \<and> drop (step_from key (i + 1)) (query key) = to_step (drop (i + 1) (query key))"
      using less.hyps [of "i + 1"] True by simp
    ultimately show ?thesis using True by (simp add: drop_query to_step_def)
  next
    case False
    with less.prems show ?thesis by (subst (1 2) step_from.simps) (simp add: to_step_def)
  qed
qed

section \<open>The search\<close>

definition edges_weight :: "(char \<times> string list) list \<Rightarrow> nat" where
  "edges_weight G = sum_list (map (weight \<circ> snd) G)"

text \<open>The node below a saved wildcard.\<close>

definition cursor_node :: "bitmap_ops \<Rightarrow> DomainSet \<Rightarrow> tnode list \<Rightarrow> wildcardCursor \<Rightarrow> string list" where
  "cursor_node B ss N c = snd (N ! zeros_before B ss (fst c + 1))"

definition cursor_ok :: "bitmap_ops \<Rightarrow> DomainSet \<Rightarrow> tnode list \<Rightarrow> string \<Rightarrow> wildcardCursor \<Rightarrow> bool" where
  "cursor_ok B ss N key c \<longleftrightarrow> snd c < length key \<and> 0 < zeros_before B ss (fst c + 1) \<and>
     zeros_before B ss (fst c + 1) < length N \<and> (\<forall>p\<in>set (cursor_node B ss N c). only_steps p)"

definition cursor_match :: "bitmap_ops \<Rightarrow> DomainSet \<Rightarrow> tnode list \<Rightarrow> string \<Rightarrow> wildcardCursor \<Rightarrow> bool" where
  "cursor_match B ss N key c \<longleftrightarrow> node_match (cursor_node B ss N c) (to_step (drop (snd c) (query key)))"

definition cursor_weight :: "bitmap_ops \<Rightarrow> DomainSet \<Rightarrow> tnode list \<Rightarrow> wildcardCursor \<Rightarrow> nat" where
  "cursor_weight B ss N c = 1 + edges_weight (groups (cursor_node B ss N c))"

definition edges_match :: "tnode list \<Rightarrow> nat \<Rightarrow> nat \<Rightarrow> string \<Rightarrow> bool" where
  "edges_match N n k s \<longleftrightarrow> (\<exists>e\<in>set (drop k (groups (snd (N ! n)))). edge_match e s)"

text \<open>What a result of the loop over the saved wildcards says.\<close>

definition pop_result :: "bitmap_ops \<Rightarrow> DomainSet \<Rightarrow> tnode list \<Rightarrow> string \<Rightarrow> wildcardCursor list \<Rightarrow> backtrack \<Rightarrow> bool" where
  "pop_result B ss N key stack r = (case r of
     Matched \<Rightarrow> \<exists>c\<in>set stack. cursor_match B ss N key c
   | Failed \<Rightarrow> \<not> (\<exists>c\<in>set stack. cursor_match B ss N key c)
   | Resume i bmIdx n stack' \<Rightarrow> i < length key \<and> n < length N \<and> bmIdx = start N n \<and>
       (\<forall>c\<in>set stack'. cursor_ok B ss N key c) \<and>
       ((\<exists>c\<in>set stack. cursor_match B ss N key c) \<longleftrightarrow>
          edges_match N n 0 (drop i (query key)) \<or> (\<exists>c\<in>set stack'. cursor_match B ss N key c)) \<and>
       edges_weight (groups (snd (N ! n))) + sum_list (map (cursor_weight B ss N) stack')
         < sum_list (map (cursor_weight B ss N) stack))"

lemma pop_result_skip:
  assumes "pop_result B ss N key stack r" and "\<not> cursor_match B ss N key c"
  shows "pop_result B ss N key (c # stack) r"
  using assms unfolding pop_result_def by (cases r) auto

lemma find_step_none:
  assumes "walkable B ss N" "n < length N" "groups (snd (N ! n)) = []"
  shows "find_step ss n (start N n) = Some None"
  using walk_end [OF assms(1,2)] assms(3) by (subst find_step.simps) (simp add: degree_def)

lemma find_step_some:
  assumes "walkable B ss N" "n < length N" "groups (snd (N ! n)) = [(domainStepByte, T)]"
  shows "find_step ss n (start N n) = Some (Some (start N n))"
  using walk_edge(1,2) [OF assms(1,2), of 0] assms(3) by (subst find_step.simps) (simp add: degree_def)

context bitmap_index
begin

lemma pop_cursors_result:
  assumes "walkable B ss N" and "\<forall>c\<in>set stack. cursor_ok B ss N key c"
  shows "\<exists>r. pop_cursors B ss key stack = Some r \<and> pop_result B ss N key stack r"
  using assms(2)
proof (induction stack)
  case Nil
  then show ?case by (simp add: pop_result_def)
next
  case (Cons c stack)
  obtain bm idx where c: "c = (bm, idx)" by (cases c)
  define m where "m = zeros_before B ss (bm + 1)"
  define j where "j = step_from key idx"
  from Cons obtain r where r: "pop_cursors B ss key stack = Some r" "pop_result B ss N key stack r" by auto
  have ok: "idx < length key" "0 < m" "m < length N" "\<forall>p\<in>set (snd (N ! m)). only_steps p"
    using Cons.prems by (auto simp: c cursor_ok_def cursor_node_def m_def)
  have j: "j \<le> length key" "drop j (query key) = to_step (drop idx (query key))"
    using step_from_query [of idx key] ok(1) by (simp_all add: j_def)
  have match: "cursor_match B ss N key c \<longleftrightarrow> node_match (snd (N ! m)) (drop j (query key))"
    by (simp add: cursor_match_def cursor_node_def c m_def j(2))
  have first: "select_one B ss (m - 1) + 1 = start N m" by (rule walk_first [OF assms(1) ok(3,2)])
  have sorted: "sorted_wrt (<) (snd (N ! m))" using assms(1) ok(3) by (simp add: walkable_def trie_ok_def)
  note pop = pop_cursors.simps(2) [of B ss key bm idx stack, folded c m_def j_def, unfolded Let_def first]
  show ?case
  proof (cases "j = length key")
    case True
    then have "cursor_match B ss N key c \<longleftrightarrow> is_leaf (N ! m)" unfolding match by (simp add: node_match_end is_leaf_def)
    with True walk_leaf [OF assms(1) ok(3)] r pop_result_skip [OF r(2), of c] show ?thesis
      unfolding c [symmetric] pop by (auto simp: pop_result_def)
  next
    case False
    with j(1) have jl: "j < length key" by simp
    then have "drop j (query key) \<noteq> []" by simp
    note em = node_match_edges [OF this, of "snd (N ! m)"]
    from only_steps_groups [OF sorted ok(4)] show ?thesis
    proof
      assume none: "groups (snd (N ! m)) = []"
      then have "\<not> cursor_match B ss N key c" unfolding match em by simp
      with False find_step_none [OF assms(1) ok(3) none] r pop_result_skip [OF r(2)] show ?thesis
        unfolding c [symmetric] pop by simp
    next
      assume "\<exists>T'. groups (snd (N ! m)) = [(domainStepByte, T')]"
      then obtain T' where one: "groups (snd (N ! m)) = [(domainStepByte, T')]" by blast
      have "pop_cursors B ss key (c # stack) = Some (Resume j (start N m) m stack)"
        using False find_step_some [OF assms(1) ok(3) one] unfolding c [symmetric] pop by simp
      moreover have "cursor_weight B ss N c = 1 + edges_weight (groups (snd (N ! m)))"
        by (simp add: cursor_weight_def cursor_node_def c m_def)
      then have "pop_result B ss N key (c # stack) (Resume j (start N m) m stack)"
        using jl ok(3) Cons.prems match em by (simp add: pop_result_def edges_match_def)
      ultimately show ?thesis by blast
    qed
  qed
qed

lemma above_wildcards:
  assumes "wildcardByte \<le> c" "c \<noteq> wildcardByte" "c \<noteq> complexWildcardByte"
  shows "complexWildcardByte < c"
proof -
  have eq: "(of_char c :: nat) = n \<Longrightarrow> c = char_of n" for n by (metis char_of_char)
  have "(of_char c :: nat) \<noteq> 42" "(of_char c :: nat) \<noteq> 43"
    using assms(2,3) eq [of 42] eq [of 43] by (auto simp: wildcardByte_def complexWildcardByte_def char_of_def)
  with assms(1) show ?thesis by (simp add: less_char_def less_eq_char_def wildcardByte_def complexWildcardByte_def)
qed

text \<open>A literal edge that matches is the only one from there on, as the wildcards come before it.\<close>

lemma literal_edge:
  assumes "walkable B ss N" "n < length N" "k < degree N n" "s \<noteq> []" "wildcardByte \<le> hd s"
    and e: "e = groups (snd (N ! n)) ! k" "fst e \<noteq> complexWildcardByte" "fst e \<noteq> wildcardByte" "fst e = hd s"
  shows "edges_match N n k s \<longleftrightarrow> node_match (snd e) (tl s)"
proof -
  let ?G = "groups (snd (N ! n))"
  have k: "k < length ?G" using assms(3) by (simp add: degree_def)
  have G: "drop k ?G = e # drop (Suc k) ?G" using k e(1) by (simp add: Cons_nth_drop_Suc)
  have "sorted_wrt (<) (map fst ?G)"
    using groups_sorted [of "snd (N ! n)"] assms(1,2) by (simp add: walkable_def trie_ok_def)
  then have "sorted_wrt (<) (map fst (drop k ?G))" by (simp add: drop_map [symmetric] sorted_wrt_drop)
  then have above: "hd s < fst e'" if "e' \<in> set (drop (Suc k) ?G)" for e' using that unfolding G e(4) [symmetric] by simp
  have "hd s \<noteq> wildcardByte" "hd s \<noteq> complexWildcardByte" using e by simp_all
  with assms(5) have "complexWildcardByte < hd s"
    by (intro above_wildcards)
  then have "\<not> edge_match e' s" if "e' \<in> set (drop (Suc k) ?G)" for e'
    using above [OF that] assms(5) by (auto simp: edge_match_def)
  then show ?thesis using e assms(4) unfolding edges_match_def G by (auto simp: edge_match_def)
qed

lemma edges_weight_skip:
  assumes "k < degree N n" "e = groups (snd (N ! n)) ! k"
  shows "edges_weight (drop k (groups (snd (N ! n)))) = weight (snd e) + edges_weight (drop (k + 1) (groups (snd (N ! n))))"
  using assms by (simp add: edges_weight_def degree_def Cons_nth_drop_Suc [symmetric])

lemma edges_weight_node: "edges_weight (groups T) + 2 \<le> weight T"
  unfolding edges_weight_def by (rule weight_groups)

text \<open>One step of the loop at an edge, and its end without saved wildcards.\<close>

lemma has_from_edge:
  assumes w: "walkable B ss N" and "i < length key" "n < length N" "k < degree N n"
    and e: "e = groups (snd (N ! n)) ! k" and m: "m = start N n + k - n + 1"
  shows "has_from B ss key i (start N n + k) n stack =
      (if fst e = complexWildcardByte then Some True
       else if fst e = wildcardByte then has_from B ss key i (start N n + k + 1) n ((start N n + k, i) # stack)
       else if fst e = query key ! i then
         (if i = length key - 1 then
            (if is_leaf (N ! m) then Some True
             else if stack = [] then Some False
             else has_from B ss key i (start N m + degree N m) m stack)
          else has_from B ss key (i + 1) (start N m) m stack)
       else has_from B ss key i (start N n + k + 1) n stack)"
proof -
  note edge = walk_edge [OF w assms(3,4), folded e m]
  have "0 < m" by (simp add: m)
  from walk_select [OF w edge(3)] walk_first [OF w edge(3) this] edge(1,2) walk_leaf [OF w edge(3)] assms(2)
  show ?thesis by (subst has_from.simps) (simp add: Let_def revLowerAt_query m)
qed

lemma has_from_exhausted:
  assumes "walkable B ss N" "n < length N"
  shows "has_from B ss key i (start N n + degree N n) n [] = Some False"
  using walk_end [OF assms] by (subst has_from.simps) simp

lemma has_from_decides:
  assumes "walkable B ss N" and star: "\<forall>n\<in>set N. \<forall>p\<in>set (snd n). star_ok p"
    and low: "\<forall>c\<in>set (query key). wildcardByte \<le> c"
    and "i < length key" "n < length N" "k \<le> degree N n" "\<forall>c\<in>set stack. cursor_ok B ss N key c"
  shows "has_from B ss key i (start N n + k) n stack =
    Some (edges_match N n k (drop i (query key)) \<or> (\<exists>c\<in>set stack. cursor_match B ss N key c))"
  using assms(4-)
proof (induction "edges_weight (drop k (groups (snd (N ! n)))) + sum_list (map (cursor_weight B ss N) stack)"
    arbitrary: i n k stack rule: less_induct)
  case less
  let ?G = "groups (snd (N ! n))" and ?s = "drop i (query key)"
  note w = assms(1)
  have s: "?s \<noteq> []" "hd ?s = query key ! i" "tl ?s = drop (Suc i) (query key)"
    using less.prems(1) by (simp_all add: drop_query)
  show ?case
  proof (cases "k = degree N n")
    case True
    from pop_cursors_result [OF w less.prems(4)] obtain r where
      r: "pop_cursors B ss key stack = Some r" "pop_result B ss N key stack r" by blast
    have none: "\<not> edges_match N n k ?s" using True by (simp add: edges_match_def degree_def)
    have go: "has_from B ss key i (start N n + k) n stack = (case r of
         Matched \<Rightarrow> Some True | Failed \<Rightarrow> Some False | Resume i b n st \<Rightarrow> has_from B ss key i b n st)"
      using walk_end [OF w less.prems(2)] r(1) unfolding True by (subst has_from.simps) (simp cong: backtrack.case_cong)
    show ?thesis
    proof (cases r)
      case (Resume i' b n' st)
      note res = r(2) [unfolded Resume pop_result_def backtrack.case]
      have "has_from B ss key i' (start N n' + 0) n' st =
          Some (edges_match N n' 0 (drop i' (query key)) \<or> (\<exists>c\<in>set st. cursor_match B ss N key c))"
        by (rule less.hyps) (use res in simp_all)
      with res none go Resume show ?thesis by simp
    qed (use r(2) none go in \<open>simp_all add: pop_result_def\<close>)
  next
    case False
    then have k: "k < degree N n" using less.prems(3) by simp
    define e where "e = ?G ! k"
    define m where "m = start N n + k - n + 1"
    note edge = walk_edge [OF w less.prems(2) k, folded e_def m_def]
    note rec = has_from_edge [OF w less.prems(1,2) k e_def m_def]
    have nm: "snd (N ! m) = snd e" using edge(4) by simp
    have e_in: "e \<in> set ?G" unfolding e_def using k by (simp add: degree_def)
    have split: "edges_match N n k ?s \<longleftrightarrow> edge_match e ?s \<or> edges_match N n (k + 1) ?s"
      using k unfolding edges_match_def e_def by (simp add: degree_def Cons_nth_drop_Suc [symmetric])
    note lighter = edges_weight_skip [OF k e_def] edges_weight_node [of "snd e"]
    consider "fst e = complexWildcardByte" | "fst e \<noteq> complexWildcardByte" "fst e = wildcardByte"
      | "fst e \<noteq> complexWildcardByte" "fst e \<noteq> wildcardByte" "fst e = query key ! i"
      | "fst e \<noteq> complexWildcardByte" "fst e \<noteq> wildcardByte" "fst e \<noteq> query key ! i" by blast
    then show ?thesis
    proof cases
      case 1
      then show ?thesis unfolding rec split using s(1) by (simp add: edge_match_def)
    next
      case 2
      let ?c = "(start N n + k, i)"
      have z: "zeros_before B ss (fst ?c + 1) = m" using walk_zeros [OF w less.prems(2) k] by (simp add: m_def)
      have node: "cursor_node B ss N ?c = snd e" unfolding cursor_node_def z nm ..
      have steps: "\<forall>p\<in>set (snd e). only_steps p"
      proof
        fix p assume "p \<in> set (snd e)"
        with e_in have "wildcardByte # p \<in> set (snd (N ! n))" unfolding groups_mem 2(2) [symmetric] by (metis prod.collapse)
        with star less.prems(2) show "only_steps p" by (metis nth_mem star_ok.simps(2))
      qed
      have ok: "\<forall>c\<in>set (?c # stack). cursor_ok B ss N key c"
        using less.prems(1,4) edge(3) steps z node by (auto simp: cursor_ok_def m_def)
      have "cursor_match B ss N key ?c \<longleftrightarrow> edge_match e ?s"
        unfolding cursor_match_def node using 2 s(1) by (simp add: edge_match_def)
      moreover have "has_from B ss key i (start N n + (k + 1)) n (?c # stack) =
          Some (edges_match N n (k + 1) ?s \<or> (\<exists>c\<in>set (?c # stack). cursor_match B ss N key c))"
        by (rule less.hyps) (use lighter node k ok less.prems(1,2) in \<open>simp_all add: cursor_weight_def\<close>)
      ultimately show ?thesis unfolding rec split using 2 by (auto simp: add.assoc)
    next
      case 3
      have lit: "edges_match N n k ?s \<longleftrightarrow> node_match (snd e) (drop (Suc i) (query key))"
        using literal_edge [OF w less.prems(2) k s(1) _ e_def 3(1,2)] 3(3) s low less.prems(1) by simp
      show ?thesis
      proof (cases "i = length key - 1")
        case True
        then have leaf: "edges_match N n k ?s \<longleftrightarrow> is_leaf (N ! m)"
          unfolding lit using less.prems(1) by (simp add: node_match_end is_leaf_def nm)
        have "has_from B ss key i (start N m + degree N m) m stack =
            Some (edges_match N m (degree N m) ?s \<or> (\<exists>c\<in>set stack. cursor_match B ss N key c))"
          by (rule less.hyps)
            (use lighter edge(3) less.prems(1,4) in \<open>simp_all add: degree_def edges_weight_def\<close>)
        moreover have "\<not> edges_match N m (degree N m) ?s" by (simp add: edges_match_def degree_def)
        ultimately show ?thesis
          unfolding rec leaf using 3 True by (cases "stack = []") simp_all
      next
        case False
        then have i: "i + 1 < length key" using less.prems(1) by simp
        then have "drop (i + 1) (query key) \<noteq> []" by simp
        from node_match_edges [OF this, of "snd e"]
        have em: "edges_match N n k ?s \<longleftrightarrow> edges_match N m 0 (drop (i + 1) (query key))"
          unfolding lit by (simp add: edges_match_def nm)
        have "has_from B ss key (i + 1) (start N m + 0) m stack =
            Some (edges_match N m 0 (drop (i + 1) (query key)) \<or> (\<exists>c\<in>set stack. cursor_match B ss N key c))"
          by (rule less.hyps) (use lighter edge(3) less.prems(4) i nm in simp_all)
        then show ?thesis unfolding rec em using 3 False by simp
      qed
    next
      case 4
      then have "\<not> edge_match e ?s" using s by (simp add: edge_match_def)
      moreover have "has_from B ss key i (start N n + (k + 1)) n stack =
          Some (edges_match N n (k + 1) ?s \<or> (\<exists>c\<in>set stack. cursor_match B ss N key c))"
        by (rule less.hyps) (use lighter k less.prems(1,2,4) in simp_all)
      ultimately show ?thesis unfolding rec split using 4 by (simp add: add.assoc)
    qed
  qed
qed

lemma Has_decides:
  assumes w: "walkable B ss (trie_nodes keys)" and keys: "\<forall>k\<in>set keys. star_ok k"
    and low: "\<forall>c\<in>set (query key). wildcardByte \<le> c"
  shows "Has B (Some ss) key = Some (\<exists>k\<in>set keys. byte_match k (query key))"
proof -
  let ?N = "trie_nodes keys" and ?r = "([], Compact (sort keys)) :: tnode"
  have N: "?N = ?r # concat (map kids ?N)" unfolding trie_nodes_def by (rule bfs_root)
  then have root: "?N ! 0 = ?r" "0 < length ?N" by (metis nth_Cons_0) (metis N length_greater_0_conv list.distinct(1))
  have star: "\<forall>n\<in>set ?N. \<forall>p\<in>set (snd n). star_ok p"
  proof
    fix n assume n: "n \<in> set ?N"
    show "\<forall>p\<in>set (snd n). star_ok p"
    proof (rule bfs_induct [OF _ _ n [unfolded trie_nodes_def]])
      show "\<forall>p\<in>set (snd n). star_ok p" if "n \<in> set [?r]" for n
        using that keys Compact_sort [of keys] by simp
      show "\<forall>p\<in>set (snd k). star_ok p" if "\<forall>p\<in>set (snd n). star_ok p" "k \<in> set (kids n)" for n k
      proof
        fix p assume "p \<in> set (snd k)"
        with that(2) have "\<exists>c. c # p \<in> set (snd n)" unfolding groups_mem by (fastforce simp: kids_def)
        with that(1) show "star_ok p" by auto
      qed
    qed
  qed
  have m: "node_match (snd ?r) s \<longleftrightarrow> (\<exists>k\<in>set keys. byte_match k s)" for s
    using Compact_sort [of keys] by (simp add: node_match_def)
  show ?thesis
  proof (cases "key = []")
    case True
    then have "query key = []" by (simp add: query_def)
    with m [of "[]"] walk_leaf [OF w root(2)] root(1) True show ?thesis
      by (simp add: Has_def is_leaf_def node_match_end)
  next
    case False
    then have "query key \<noteq> []" by (simp add: query_def)
    from node_match_edges [OF this, of "snd ?r"] m [of "query key"]
    have em: "edges_match ?N 0 0 (query key) \<longleftrightarrow> (\<exists>k\<in>set keys. byte_match k (query key))"
      by (simp add: edges_match_def root)
    have "has_from B ss key 0 (start ?N 0 + 0) 0 [] =
        Some (edges_match ?N 0 0 (drop 0 (query key)) \<or> (\<exists>c\<in>set []. cursor_match B ss ?N key c))"
      by (rule has_from_decides [OF w star low]) (use False root in simp_all)
    with em False show ?thesis by (simp add: Has_def)
  qed
qed

end

section \<open>Bytes and labels\<close>

text \<open>The bytes of a path of labels, read from the right end of the domain.\<close>

definition path_bytes :: "string list \<Rightarrow> string" where
  "path_bytes q = rev (joinDomain (rev q))"

definition mark_plus :: "string list \<Rightarrow> string list" where
  "mark_plus parts = (if parts ! 0 = dotWildcard then parts[0 := complexWildcard] else parts)"

definition path_key :: "string list \<Rightarrow> string" where
  "path_key q = rev (joinDomain (mark_plus (rev q)))"

definition plain_label :: "string \<Rightarrow> bool" where
  "plain_label p \<longleftrightarrow> p \<noteq> [] \<and> domainStepByte \<notin> set p"

definition pattern_label :: "string \<Rightarrow> bool" where
  "pattern_label p \<longleftrightarrow> plain_label p \<and> (p = wildcard \<or> wildcardByte \<notin> set p \<and> complexWildcardByte \<notin> set p)"

lemma Join_snoc: "ws \<noteq> [] \<Longrightarrow> Join (ws @ [w]) sep = Join ws sep @ sep # w"
  by (induction ws sep rule: Join.induct) auto

lemma path_bytes_Cons: "path_bytes (x # xs) = rev x @ (if xs = [] then [] else domainStepByte # path_bytes xs)"
  by (simp add: path_bytes_def joinDomain_def Join_snoc domainStep_def domainStepByte_def)

lemma path_key_Cons:
  "path_key (p # q) = (if q = [] then rev (if p = dotWildcard then complexWildcard else p)
     else rev p @ domainStepByte # path_key q)"
proof (cases "q = []")
  case False
  then have "mark_plus (rev (p # q)) = mark_plus (rev q) @ [p]" by (simp add: mark_plus_def nth_append list_update_append1)
  moreover have "mark_plus (rev q) \<noteq> []" using False by (simp add: mark_plus_def)
  ultimately show ?thesis using False
    by (simp add: path_key_def joinDomain_def Join_snoc domainStep_def domainStepByte_def)
qed (simp add: path_key_def joinDomain_def mark_plus_def)

definition at_step :: "string \<Rightarrow> bool" where
  "at_step s \<longleftrightarrow> s = [] \<or> hd s = domainStepByte"

lemma byte_match_literal:
  assumes "domainStepByte \<notin> set a" "domainStepByte \<notin> set b" "wildcardByte \<notin> set a" "complexWildcardByte \<notin> set a"
    and "at_step t" "at_step u"
  shows "byte_match (a @ t) (b @ u) \<longleftrightarrow> a = b \<and> byte_match t u"
  using assms
proof (induction a arbitrary: b)
  case Nil
  then show ?case
    by (cases t; cases b) (auto simp: at_step_def wildcardByte_def complexWildcardByte_def domainStepByte_def)
next
  case (Cons c a)
  then show ?case by (cases b) (auto simp: at_step_def)
qed

lemma byte_match_star:
  assumes "plain_label b" "at_step t" "at_step u"
  shows "byte_match (wildcardByte # t) (rev b @ u) \<longleftrightarrow> byte_match t u"
proof -
  have "to_step (rev b @ u) = u"
    using assms(1,3) by (cases u) (auto simp: to_step_def plain_label_def at_step_def dropWhile_append3)
  with assms(1) show ?thesis by (simp add: plain_label_def wildcardByte_def complexWildcardByte_def)
qed

lemma path_key_match:
  assumes "q \<noteq> []" "\<forall>p\<in>set (butlast q). pattern_label p" "last q = dotWildcard \<or> pattern_label (last q)"
    and "xs \<noteq> []" "\<forall>x\<in>set xs. plain_label x"
  shows "byte_match (path_key q) (path_bytes xs) \<longleftrightarrow> pmatch q xs"
  using assms
proof (induction q arbitrary: xs)
  case (Cons p q)
  obtain x ys where xs: "xs = x # ys" using Cons.prems(4) by (cases xs) auto
  have x: "plain_label x" "\<forall>x\<in>set ys. plain_label x" using Cons.prems(5) xs by simp_all
  let ?t = "if q = [] then [] else domainStepByte # path_key q"
  let ?u = "if ys = [] then [] else domainStepByte # path_bytes ys"
  have step: "at_step ?t" "at_step ?u" by (simp_all add: at_step_def)
  have rest: "byte_match ?t ?u \<longleftrightarrow> pmatch q ys"
  proof (cases "q = []")
    case False
    with Cons.prems have "byte_match (path_key q) (path_bytes ys) \<longleftrightarrow> pmatch q ys" if "ys \<noteq> []"
      using that x(2) by (intro Cons.IH) auto
    moreover have "pmatch q [] \<longleftrightarrow> False" using False by (cases q) simp_all
    ultimately show ?thesis using False
      by (auto simp: domainStepByte_def wildcardByte_def complexWildcardByte_def)
  qed simp
  show ?case
  proof (cases "p = dotWildcard")
    case True
    with Cons.prems have "q = []" by (auto simp: pattern_label_def plain_label_def dotWildcard_def split: if_splits)
    with True x(1) show ?thesis
      by (simp add: path_key_Cons path_bytes_Cons xs complexWildcard_def complexWildcardByte_def plain_label_def)
  next
    case False
    then have p: "pattern_label p" using Cons.prems(2,3) by (auto split: if_splits)
    have key: "path_key (p # q) = rev p @ ?t" using False by (simp add: path_key_Cons)
    have bytes: "path_bytes xs = rev x @ ?u" by (simp add: xs path_bytes_Cons)
    show ?thesis
    proof (cases "p = wildcard")
      case True
      then have "rev p = [wildcardByte]" by (simp add: wildcard_def wildcardByte_def)
      then have "byte_match (rev p @ ?t) (rev x @ ?u) \<longleftrightarrow> pmatch q ys"
        using byte_match_star [OF x(1) step] rest by (simp only: append_Cons append_Nil)
      with False True show ?thesis unfolding key bytes by (simp add: xs)
    next
      case lit: False
      have "byte_match (rev p @ ?t) (rev x @ ?u) \<longleftrightarrow> rev p = rev x \<and> byte_match ?t ?u"
        using p x(1) lit step by (intro byte_match_literal) (simp_all add: pattern_label_def plain_label_def)
      also have "\<dots> \<longleftrightarrow> p = x \<and> pmatch q ys" unfolding rest by simp
      finally show ?thesis unfolding key bytes using False lit by (simp add: xs)
    qed
  qed
qed simp
end
