(* ===== verification/Domain_Set_Properties.thy ===== *)
theory Domain_Set_Properties
  imports Domain_Set_Search
begin

text \<open>
  The properties of the domain set: which domains a set built from patterns or from a trie contains,
  and which it misses.
\<close>

section \<open>The keys of a pattern\<close>

text \<open>The paths of labels that can be stored: a leading dot is the last element.\<close>

definition good_path :: "string list \<Rightarrow> bool" where
  "good_path q \<longleftrightarrow> q \<noteq> [] \<and> (\<forall>p\<in>set (butlast q). pattern_label p) \<and> (last q = dotWildcard \<or> pattern_label (last q))"

lemma pattern_labels:
  assumes "labels_ok parts" "\<forall>p\<in>set parts. domainStepByte \<notin> set p"
  shows "\<forall>p\<in>set (tl parts). pattern_label p"
    and "hd parts = complexWildcard \<or> hd parts = dotWildcard \<or> pattern_label (hd parts)"
    and "hd parts = complexWildcard \<Longrightarrow> tl parts \<noteq> []"
proof -
  obtain r rs where parts: "parts = r # rs" using assms(1) by (cases parts) (auto simp: labels_ok_def)
  show "\<forall>p\<in>set (tl parts). pattern_label p"
    using assms by (auto simp: parts labels_ok_def pattern_label_def plain_label_def wildcardByte_def complexWildcardByte_def)
  show "hd parts = complexWildcard \<or> hd parts = dotWildcard \<or> pattern_label (hd parts)"
    using assms by (auto simp: parts labels_ok_def pattern_label_def plain_label_def wildcardByte_def complexWildcardByte_def
        dotWildcard_def)
  show "hd parts = complexWildcard \<Longrightarrow> tl parts \<noteq> []"
    using assms(1) by (auto simp: parts labels_ok_def)
qed

lemma expand_good:
  assumes "ValidAndSplitDomain p = Inr pat" and "q \<in> set (expand pat)"
  shows "good_path q"
proof -
  have ok: "labels_ok pat" and pat: "pat = Split (ToLower p) domainStep" using assms(1) by (auto simp: valid_iff)
  have "\<forall>l\<in>set pat. domainStepByte \<notin> set l" using Split_no_sep pat by (metis domainStep_def domainStepByte_def)
  note l = pattern_labels [OF ok this]
  obtain r rs where r: "pat = r # rs" using ok by (cases pat) (auto simp: labels_ok_def)
  have lb: "\<forall>p\<in>set rs. pattern_label p" using l(1) r by simp
  show ?thesis
  proof (cases "r = complexWildcard")
    case True
    then have rs: "rs \<noteq> []" using l(3) r by simp
    then have "last (rev rs) \<in> set rs" by (simp add: last_rev)
    moreover have "set (butlast (rev rs)) \<subseteq> set rs" by (cases rs) auto
    moreover from assms(2) True r have "q = rev rs \<or> q = rev rs @ [dotWildcard]" by (auto simp: expand_def)
    ultimately show ?thesis using lb rs unfolding good_path_def by auto
  next
    case False
    then have "q = rev rs @ [r]" using assms(2) r by (simp add: expand_def)
    with l(2) lb r False show ?thesis by (auto simp: good_path_def)
  qed
qed

lemma star_ok_literal: "wildcardByte \<notin> set p \<Longrightarrow> star_ok (p @ t) \<longleftrightarrow> star_ok t"
  by (induction p) auto

lemma path_key_star_ok: "good_path q \<Longrightarrow> star_ok (path_key q)"
proof (induction q)
  case (Cons p q)
  show ?case
  proof (cases "q = []")
    case True
    with Cons.prems show ?thesis
      by (auto simp: path_key_Cons good_path_def pattern_label_def wildcard_def complexWildcard_def wildcardByte_def
          only_steps_def star_ok_literal [of _ "[]", simplified] split: if_splits)
  next
    case False
    then have p: "pattern_label p" and "good_path q" using Cons.prems by (auto simp: good_path_def)
    then have "star_ok (domainStepByte # path_key q)" using Cons.IH by (simp add: domainStepByte_def wildcardByte_def)
    moreover have "wildcardByte \<notin> set p \<or> rev p = [wildcardByte]"
      using p by (auto simp: pattern_label_def wildcard_def wildcardByte_def)
    ultimately show ?thesis using False
      by (auto simp: path_key_Cons only_steps_def star_ok_literal [of "rev p"])
  qed
qed (simp add: good_path_def)

lemma builder_insert_key: "b_keys (builder_insert parts b) = b_keys b @ [path_key (rev parts)]"
  by (simp add: builder_insert_def path_key_def mark_plus_def Let_def)

lemma path_key_plus: "path_key (rev (complexWildcard # rs)) = path_key (rev (dotWildcard # rs))"
  by (simp add: path_key_def mark_plus_def complexWildcard_def dotWildcard_def)

lemma builder_Insert_keys:
  "b_keys (snd (builder_Insert p b)) =
     b_keys b @ (case ValidAndSplitDomain p of Inl e \<Rightarrow> [] | Inr pat \<Rightarrow> map path_key (expand pat))"
proof (cases "ValidAndSplitDomain p")
  case (Inr pat)
  then have "labels_ok pat" unfolding valid_iff by blast
  then obtain r rs where r: "pat = r # rs" by (cases pat) (auto simp: labels_ok_def)
  with Inr path_key_plus [of rs] show ?thesis
    by (simp add: builder_Insert_def builder_insert_key expand_def)
qed (simp add: builder_Insert_def)

text \<open>The calls of \<open>Insert\<close> on a new builder.\<close>

definition insert_all :: "string list \<Rightarrow> DomainSetBuilder" where
  "insert_all ps = fold (\<lambda>p b. snd (builder_Insert p b)) ps \<lparr>b_keys = []\<rparr>"

definition pattern_paths :: "string list \<Rightarrow> string list set" where
  "pattern_paths ps = {q. \<exists>p\<in>set ps. \<exists>pat. ValidAndSplitDomain p = Inr pat \<and> q \<in> set (expand pat)}"

lemma insert_all_keys: "set (b_keys (insert_all ps)) = path_key ` pattern_paths ps"
proof (induction ps rule: rev_induct)
  case Nil
  then show ?case by (simp add: insert_all_def pattern_paths_def)
next
  case (snoc p ps)
  have "pattern_paths (ps @ [p]) = pattern_paths ps \<union> pattern_paths [p]" by (auto simp: pattern_paths_def)
  moreover have "insert_all (ps @ [p]) = snd (builder_Insert p (insert_all ps))" by (simp add: insert_all_def)
  moreover have "path_key ` pattern_paths [p] =
      set (case ValidAndSplitDomain p of Inl e \<Rightarrow> [] | Inr pat \<Rightarrow> map path_key (expand pat))"
    by (cases "ValidAndSplitDomain p") (auto simp: pattern_paths_def)
  ultimately show ?case using snoc.IH by (simp add: builder_Insert_keys image_Un)
qed

lemma length_mark_plus: "length (joinDomain (mark_plus parts)) \<le> length (joinDomain parts) + 1"
proof (cases parts)
  case (Cons r rs)
  then show ?thesis
    by (cases "rs = []") (simp_all add: mark_plus_def joinDomain_def Join_Cons dotWildcard_def complexWildcard_def)
qed (simp add: mark_plus_def)

lemma length_keys:
  assumes "ValidAndSplitDomain p = Inr pat"
  shows "sum_list (map length (map path_key (expand pat))) \<le> 2 * length p"
proof -
  have ok: "labels_ok pat" and p: "p \<noteq> []" using assms unfolding valid_iff by blast+
  obtain r rs where r: "pat = r # rs" using ok by (cases pat) (auto simp: labels_ok_def)
  have len: "length (joinDomain (r # rs)) = length p" using valid_joins [OF assms] r by (simp add: ToLower_def)
  have key: "length (path_key (rev ps)) \<le> length (joinDomain ps) + 1" for ps
    using length_mark_plus [of ps] by (simp add: path_key_def)
  show ?thesis
  proof (cases "r = complexWildcard")
    case True
    then have "rs \<noteq> []" using ok r by (auto simp: labels_ok_def)
    then have "length (joinDomain rs) + 2 = length p"
      using len True by (simp add: joinDomain_def Join_Cons complexWildcard_def)
    moreover have "length (path_key (rev (dotWildcard # rs))) = length p"
      using path_key_plus [of rs, symmetric] len True
      by (simp add: path_key_def mark_plus_def complexWildcard_def dotWildcard_def)
    ultimately show ?thesis using key [of rs] True r by (simp add: expand_def)
  next
    case False
    have "1 \<le> length p" using p by (cases p) simp_all
    with key [of pat] len False r show ?thesis by (simp add: expand_def)
  qed
qed

lemma insert_all_length: "sum_list (map length (b_keys (insert_all ps))) \<le> 2 * sum_list (map length ps)"
proof (induction ps rule: rev_induct)
  case (snoc p ps)
  have "insert_all (ps @ [p]) = snd (builder_Insert p (insert_all ps))" by (simp add: insert_all_def)
  with snoc length_keys [of p] show ?case
    by (cases "ValidAndSplitDomain p") (simp_all add: builder_Insert_keys)
qed (simp add: insert_all_def)

section \<open>Membership\<close>

text \<open>The positions in the bitmap of the labels are 32-bit integers.\<close>

definition set_fits :: "DomainSet option \<Rightarrow> bool" where
  "set_fits ss = (case ss of None \<Rightarrow> True | Some ss \<Rightarrow> fits32 (ds_labelBitmap ss))"

text \<open>A valid domain whose bytes are not below the star.\<close>

definition searchable :: "string \<Rightarrow> string list \<Rightarrow> bool" where
  "searchable d labels \<longleftrightarrow> ValidAndSplitDomain d = Inr labels \<and> hd labels \<noteq> '''' \<and> (\<forall>c\<in>set d. CHR ''*'' \<le> c)"

lemma searchable_query:
  assumes "searchable d labels"
  shows "query d = path_bytes (rev labels)" and "rev labels \<noteq> []" and "\<forall>x\<in>set (rev labels). plain_label x"
    and "\<forall>c\<in>set (query d). wildcardByte \<le> c"
proof -
  have v: "ValidAndSplitDomain d = Inr labels" "hd labels \<noteq> ''''" "\<forall>c\<in>set d. CHR ''*'' \<le> c"
    using assms by (simp_all add: searchable_def)
  show "query d = path_bytes (rev labels)" using valid_joins [OF v(1)] by (simp add: query_def path_bytes_def)
  show "rev labels \<noteq> []" using v(1) by (auto simp: valid_iff)
  have "domainStepByte \<notin> set x" if "x \<in> set labels" for x
    using v(1) that Split_no_sep unfolding valid_iff by (metis domainStep_def domainStepByte_def)
  then show "\<forall>x\<in>set (rev labels). plain_label x"
    using valid_labels_not_empty [OF v(1,2)] by (auto simp: plain_label_def)
  have "wildcardByte \<le> lower_char c" if "c \<in> set d" for c
    using v(3) that unfolding wildcardByte_def lower_char_def Let_def by (auto simp: less_eq_char_def)
  then show "\<forall>c\<in>set (query d). wildcardByte \<le> c" by (auto simp: query_def ToLower_def)
qed

context bitmap_index
begin

lemma Has_paths:
  assumes "set keys = path_key ` P" and "\<forall>q\<in>P. good_path q" and "searchable d labels"
  shows "\<exists>ss. buildDomainSet B keys None () = Some (ss, ()) \<and>
    (2 * sum_list (map length keys) + 65 < 2 ^ 31 \<longrightarrow> set_fits ss) \<and>
    (set_fits ss \<longrightarrow> Has B ss d = Some (\<exists>q\<in>P. pmatch q (rev labels)))"
proof (cases "keys = []")
  case True
  with assms(1) show ?thesis by (auto simp: buildDomainSet_def Has_def set_fits_def)
next
  case False
  from buildDomainSet_stores [OF this, of B None "()"] obtain ss where
    ss: "buildDomainSet B keys None () = Some (Some ss, ())" "stores B ss (trie_nodes keys)" by auto
  note q = searchable_query [OF assms(3)]
  have "Has B (Some ss) d = Some (\<exists>q\<in>P. pmatch q (rev labels))" if "fits32 (ds_labelBitmap ss)"
  proof -
    have "walkable B ss (trie_nodes keys)" using ss(2) that trie_nodes_ok [OF False] by (simp add: walkable_def)
    moreover have "\<forall>k\<in>set keys. star_ok k" using assms(1,2) path_key_star_ok by auto
    ultimately have "Has B (Some ss) d = Some (\<exists>k\<in>set keys. byte_match k (query d))"
      using q(4) by (rule Has_decides)
    also have "(\<exists>k\<in>set keys. byte_match k (query d)) \<longleftrightarrow> (\<exists>q\<in>P. byte_match (path_key q) (path_bytes (rev labels)))"
      unfolding assms(1) q(1) by blast
    also have "\<dots> \<longleftrightarrow> (\<exists>q\<in>P. pmatch q (rev labels))"
      using path_key_match q(2,3) assms(2) unfolding good_path_def by blast
    finally show ?thesis .
  qed
  with ss stores_fits show ?thesis by (auto simp: set_fits_def)
qed

end

lemma pattern_paths_covers:
  "(\<exists>q\<in>pattern_paths ps. pmatch q (rev labels)) \<longleftrightarrow>
     (\<exists>p\<in>set ps. \<exists>pat. ValidAndSplitDomain p = Inr pat \<and> covers pat labels)"
proof -
  have "covers pat labels \<longleftrightarrow> (\<exists>q\<in>set (expand pat). pmatch q (rev labels))" if "ValidAndSplitDomain p = Inr pat" for p pat
    using that covers_expand unfolding valid_iff by blast
  then show ?thesis unfolding pattern_paths_def by blast
qed

text \<open>
  C5: A domain set built from patterns contains exactly the domains that an accepted pattern covers.
  \<open>Build\<close> returns for every sequence of \<open>Insert\<close> calls and leaves the builder empty. For every valid
  domain that does not begin with a dot and has no byte below the star, \<open>Has\<close> returns, and it returns
  true exactly if one of the inserted patterns is valid and covers the domain. The patterns together
  are shorter than \<open>2 ^ 29\<close> bytes, because positions in the bitmap are 32-bit integers, and the
  package of bitmap functions is assumed to count and to find ones.
\<close>
theorem domain_set_membership:
  assumes "bitmap_index B" and "searchable d labels" and "sum_list (map length ps) < 2 ^ 29 - 16"
  shows "\<exists>ss. builder_Build B (Some (insert_all ps)) = Some (ss, Some \<lparr>b_keys = []\<rparr>) \<and>
    Has B ss d = Some (\<exists>p\<in>set ps. \<exists>pat. ValidAndSplitDomain p = Inr pat \<and> covers pat labels)"
proof -
  have "\<forall>q\<in>pattern_paths ps. good_path q" using expand_good by (auto simp: pattern_paths_def)
  from bitmap_index.Has_paths [OF assms(1) insert_all_keys this assms(2)]
  obtain ss where "buildDomainSet B (b_keys (insert_all ps)) None () = Some (ss, ())"
    "2 * sum_list (map length (b_keys (insert_all ps))) + 65 < 2 ^ 31 \<longrightarrow> set_fits ss"
    "set_fits ss \<longrightarrow> Has B ss d = Some (\<exists>q\<in>pattern_paths ps. pmatch q (rev labels))" by blast
  with insert_all_length [of ps] assms(3) show ?thesis unfolding pattern_paths_covers by (auto simp: builder_Build_def)
qed

theorem domain_set_membership_witness:
  "\<exists>ss. builder_Build counting_ops (Some (insert_all [''*.a.com'', ''+.cn''])) = Some (ss, Some \<lparr>b_keys = []\<rparr>)
     \<and> Has counting_ops ss ''B.cn'' = Some True"
proof -
  have "searchable ''B.cn'' [''b'', ''cn'']"
    by (simp add: searchable_def less_eq_char_def) code_simp
  from domain_set_membership [OF counting.bitmap_index_axioms this, of "[''*.a.com'', ''+.cn'']"]
  obtain ss where ss: "builder_Build counting_ops (Some (insert_all [''*.a.com'', ''+.cn''])) = Some (ss, Some \<lparr>b_keys = []\<rparr>)"
    "Has counting_ops ss ''B.cn'' = Some (\<exists>p\<in>set [''*.a.com'', ''+.cn'']. \<exists>pat. ValidAndSplitDomain p = Inr pat \<and> covers pat [''b'', ''cn''])"
    by auto
  have "ValidAndSplitDomain ''+.cn'' = Inr [''+'', ''cn'']" by code_simp
  moreover have "\<exists>pre suf. [''b'', ''cn''] = pre @ suf \<and> label_match [''cn''] suf"
    by (intro exI [of _ "[''b'']"] exI [of _ "[''cn'']"]) (simp add: label_match_def)
  then have "covers [''+'', ''cn''] [''b'', ''cn'']" by (simp add: covers_def complexWildcard_def)
  ultimately have "\<exists>p\<in>set [''*.a.com'', ''+.cn'']. \<exists>pat. ValidAndSplitDomain p = Inr pat \<and> covers pat [''b'', ''cn'']" by auto
  with ss show ?thesis by auto
qed

section \<open>The set of a trie\<close>

lemma recursion_map:
  shows "fn = collect \<Longrightarrow> recursion items n (\<lambda>d v acc. (True, acc @ [g d v])) (map (\<lambda>(d, v). g d v) s)
      = map_prod id (map (\<lambda>(d, v). g d v)) (recursion items n fn s)"
    and "fn = collect \<Longrightarrow> recursion_children items cs (\<lambda>d v acc. (True, acc @ [g d v])) (map (\<lambda>(d, v). g d v) s)
      = map_prod id (map (\<lambda>(d, v). g d v)) (recursion_children items cs fn s)"
proof (induction items n fn s and items cs fn s rule: recursion_recursion_children.induct)
  case (1 items node fn s)
  then show ?case by (simp add: recursion.simps)
next
  case (2 items fn s)
  then show ?case by simp
next
  case (3 items key child cs fn s)
  define s1 where "s1 = (if inited child then s @ [(joinDomain (key # items), data child)] else s)"
  let ?h = "\<lambda>(d, v). g d v" and ?fn = "\<lambda>d v acc. (True, acc @ [g d v])"
  have f: "(if \<not> isEmpty (Some child) then fn (joinDomain (key # items)) (data child) s else (True, s)) = (True, s1)"
    using 3(3) by (simp add: s1_def isEmpty_def collect_def)
  have f': "(if \<not> isEmpty (Some child) then ?fn (joinDomain (key # items)) (data child) (map ?h s) else (True, map ?h s))
      = (True, map ?h s1)"
    by (simp add: s1_def isEmpty_def)
  obtain go s2 where s2: "recursion (key # items) child fn s1 = (go, s2)" by (cases "recursion (key # items) child fn s1")
  have r: "recursion (key # items) child ?fn (map ?h s1) = (go, map ?h s2)"
    using 3(1) [OF refl refl f [symmetric]] 3(3) s2 by simp
  show ?case
  proof (cases go)
    case True
    with 3(2) [OF refl refl f [symmetric] _ s2 [symmetric]] 3(3) s2 r show ?thesis
      unfolding recursion_children.simps Let_def f f' by simp
  qed (use s2 r in \<open>simp add: Let_def f [simplified] f' [simplified]\<close>)
qed

lemma foreach_children_map:
  "foreach_children cs (\<lambda>d v acc. (True, acc @ [g d v])) (map (\<lambda>(d, v). g d v) s)
     = map (\<lambda>(d, v). g d v) (foreach_children cs collect s)"
proof (induction cs arbitrary: s)
  case (Cons kc cs)
  let ?h = "\<lambda>(d, v). g d v" and ?fn = "\<lambda>d v acc. (True, acc @ [g d v])"
  obtain key child where kc: "kc = (key, child)" by (cases kc)
  have r: "recursion [key] child ?fn (map ?h s) = map_prod id (map ?h) (recursion [key] child collect s)"
    by (rule recursion_map(1)) simp
  show ?case using Cons.IH [of "snd (recursion [key] child collect s)"]
      Cons.IH [of "snd (recursion [key] child collect s) @ [(joinDomain [key], data child)]"]
    unfolding kc foreach_children.simps r
    by (simp add: Let_def collect_def [of "joinDomain [key]" "data child" "snd (recursion [key] child collect s)"])
qed simp

definition stored_key :: "string \<Rightarrow> string" where
  "stored_key d = rev (if d ! 0 = domainStepByte then complexWildcard @ d else d)"

lemma trie_keys: "DomainTrie_Foreach trie_key t [] = map (stored_key \<circ> fst) (Foreach_list t)"
proof -
  have "(trie_key :: string \<Rightarrow> 'a \<Rightarrow> _) = (\<lambda>d v acc. (True, acc @ [stored_key d]))"
    by (intro ext) (simp add: trie_key_def stored_key_def)
  with foreach_children_map [of "getChildren (root t)" "\<lambda>d v. stored_key d" "[]"] show ?thesis
    by (simp add: DomainTrie_Foreach_def Foreach_list_def split_beta o_def)
qed

lemma trie_key_path:
  assumes "good_path q" and "q \<noteq> [dotWildcard]"
  shows "stored_key (joinDomain (rev q)) = path_key q"
proof -
  obtain r rs where r: "rev q = r # rs" using assms(1) by (cases "rev q") (auto simp: good_path_def)
  then have q: "q = rev rs @ [r]" by (metis rev.simps(2) rev_rev_ident)
  show ?thesis
  proof (cases "r = dotWildcard")
    case True
    then have "rs \<noteq> []" using assms(2) q by auto
    with True show ?thesis unfolding r stored_key_def path_key_def
      by (simp add: joinDomain_def Join_Cons mark_plus_def dotWildcard_def complexWildcard_def domainStep_def domainStepByte_def)
  next
    case False
    then have "plain_label r" using assms(1) q by (auto simp: good_path_def pattern_label_def)
    then obtain c cs where "r = c # cs" "c \<noteq> domainStepByte" by (cases r) (auto simp: plain_label_def)
    then have "joinDomain (rev q) ! 0 \<noteq> domainStepByte"
      unfolding r by (cases "rs = []") (simp_all add: joinDomain_def Join_Cons)
    with False r show ?thesis by (simp add: stored_key_def path_key_def mark_plus_def)
  qed
qed

lemma entries_good: "entries ops q \<noteq> None \<Longrightarrow> good_path q \<and> q \<noteq> [dotWildcard]"
proof -
  assume "entries ops q \<noteq> None"
  then obtain p pat where p: "ValidAndSplitDomain p = Inr pat" "q \<in> set (expand pat)" unfolding entries_dom by blast
  then have ok: "labels_ok pat" unfolding valid_iff by blast
  then obtain r rs where r: "pat = r # rs" by (cases pat) (auto simp: labels_ok_def)
  have "q = rev rs \<and> r = complexWildcard \<or> q = rev rs @ [dotWildcard] \<and> r = complexWildcard \<or> q = rev rs @ [r]"
    using p(2) r by (auto simp: expand_def split: if_splits)
  moreover have "dotWildcard \<notin> set rs" "r = complexWildcard \<Longrightarrow> rs \<noteq> []" "rs = [] \<Longrightarrow> r \<noteq> dotWildcard"
    using ok r by (auto simp: labels_ok_def dotWildcard_def)
  ultimately have "q \<noteq> [dotWildcard]" by (metis append_self_conv2 last_snoc list.set_intros(1) rev_is_Nil_conv set_rev)
  with expand_good [OF p] show ?thesis by blast
qed

lemma trie_keys_set:
  "set (DomainTrie_Foreach trie_key (trie_run z ops) []) = path_key ` {q. entries ops q \<noteq> None}"
proof -
  have "set (Foreach_list (trie_run z ops)) = {(joinDomain (rev q), v) | q v. q \<noteq> [] \<and> entries ops q = Some v}"
    using Foreach_list_set [of "trie_run z ops"] trie_run_tmap [of z ops] by simp
  then have L: "set (DomainTrie_Foreach trie_key (trie_run z ops) [])
      = (stored_key \<circ> fst) ` {(joinDomain (rev q), v) | q v. q \<noteq> [] \<and> entries ops q = Some v}"
    unfolding trie_keys set_map by simp
  have key: "q \<noteq> [] \<and> stored_key (joinDomain (rev q)) = path_key q" if "entries ops q \<noteq> None" for q
    using entries_good [OF that] trie_key_path [of q] unfolding good_path_def by blast
  show ?thesis unfolding L
  proof (intro equalityI subsetI)
    fix x assume "x \<in> (stored_key \<circ> fst) ` {(joinDomain (rev q), v) | q v. q \<noteq> [] \<and> entries ops q = Some v}"
    then obtain q v where "x = stored_key (joinDomain (rev q))" "entries ops q = Some v" by auto
    with key [of q] show "x \<in> path_key ` {q. entries ops q \<noteq> None}" by auto
  next
    fix x assume "x \<in> path_key ` {q. entries ops q \<noteq> None}"
    then obtain q v where q: "x = path_key q" "entries ops q = Some v" by auto
    with key [of q] have "x = (stored_key \<circ> fst) (joinDomain (rev q), v)" "q \<noteq> []" by simp_all
    with q(2) show "x \<in> (stored_key \<circ> fst) ` {(joinDomain (rev q), v) | q v. q \<noteq> [] \<and> entries ops q = Some v}"
      by blast
  qed
qed

lemma Search_finds:
  assumes "ValidAndSplitDomain d = Inr labels" "hd labels \<noteq> ''''"
  shows "DomainTrie_Search d (trie_run z ops) \<noteq> None \<longleftrightarrow> (\<exists>q. entries ops q \<noteq> None \<and> pmatch q (rev labels))"
proof -
  have "map_option data (DomainTrie_Search d (trie_run z ops)) = best (entries ops) (rev labels)"
    unfolding Search_entries using assms by simp
  then have "DomainTrie_Search d (trie_run z ops) \<noteq> None \<longleftrightarrow> best (entries ops) (rev labels) \<noteq> None"
    by (metis map_option_is_None)
  also have "\<dots> \<longleftrightarrow> (\<exists>q. entries ops q \<noteq> None \<and> pmatch q (rev labels))"
    unfolding best_None [OF valid_labels_not_empty [OF assms]] by blast
  finally show ?thesis .
qed

text \<open>
  C15: A domain set made from a trie has the same members. After any \<open>Insert\<close> and \<open>Optimize\<close> calls on the
  trie, \<open>NewDomainSet\<close> returns, and if the positions in the bitmap fit into 32 bits, \<open>Has\<close> returns true
  for a valid domain exactly if \<open>Search\<close> in the trie finds it. The domain does not begin with a dot
  and has no byte below the star.
\<close>
theorem new_domain_set_agrees:
  assumes "bitmap_index B" and "searchable d labels"
  shows "\<exists>ss. NewDomainSet B (trie_run z ops) = Some ss \<and>
    (set_fits ss \<longrightarrow> Has B ss d = Some (DomainTrie_Search d (trie_run z ops) \<noteq> None))"
proof -
  let ?P = "{q. entries ops q \<noteq> None}" and ?keys = "DomainTrie_Foreach trie_key (trie_run z ops) []"
  have "good_path q" if "q \<in> ?P" for q
    using that entries_good [of ops q] by simp
  then have P: "\<forall>q\<in>?P. good_path q" by blast
  obtain ss where ss: "buildDomainSet B ?keys None () = Some (ss, ())"
    "set_fits ss \<longrightarrow> Has B ss d = Some (\<exists>q\<in>?P. pmatch q (rev labels))"
    using bitmap_index.Has_paths [OF assms(1) trie_keys_set P assms(2), of z] by (elim exE conjE) (rule that)
  have "ValidAndSplitDomain d = Inr labels" "hd labels \<noteq> ''''" using assms(2) by (simp_all add: searchable_def)
  from Search_finds [OF this, of z ops]
  have "(\<exists>q\<in>?P. pmatch q (rev labels)) = (DomainTrie_Search d (trie_run z ops) \<noteq> None)"
    unfolding mem_Collect_eq Bex_def by blast
  with ss show ?thesis unfolding NewDomainSet_def by (intro exI [of _ ss]) (simp only: option.map fst_conv simp_thms)
qed

lemma new_domain_set_fits:
  assumes "NewDomainSet B t = Some ss" and "2 * sum_list (map length (DomainTrie_Foreach trie_key t [])) + 65 < 2 ^ 31"
  shows "set_fits ss"
proof (cases "DomainTrie_Foreach trie_key t [] = []")
  case True
  with assms(1) show ?thesis by (auto simp: NewDomainSet_def buildDomainSet_def set_fits_def)
next
  case False
  from buildDomainSet_stores [OF this, of B None "()"] stores_fits assms show ?thesis
    by (auto simp: NewDomainSet_def set_fits_def)
qed

theorem new_domain_set_agrees_witness:
  "\<exists>ss. NewDomainSet counting_ops (trie_run 0 [TInsert ''+.cn'' (1::nat), TOptimize]) = Some ss
     \<and> Has counting_ops ss ''b.cn'' = Some True \<and> Has counting_ops ss ''b.com'' = Some False"
proof -
  let ?t = "trie_run 0 [TInsert ''+.cn'' (1::nat), TOptimize]"
  have s: "searchable ''b.cn'' [''b'', ''cn'']" "searchable ''b.com'' [''b'', ''com'']"
    by (simp_all add: searchable_def less_eq_char_def) code_simp+
  have "DomainTrie_Search ''b.cn'' ?t \<noteq> None" "DomainTrie_Search ''b.com'' ?t = None" by code_simp+
  with new_domain_set_agrees [OF counting.bitmap_index_axioms s(1), of 0 "[TInsert ''+.cn'' (1::nat), TOptimize]"]
    new_domain_set_agrees [OF counting.bitmap_index_axioms s(2), of 0 "[TInsert ''+.cn'' (1::nat), TOptimize]"]
  obtain ss where ss: "NewDomainSet counting_ops ?t = Some ss"
    "set_fits ss \<longrightarrow> Has counting_ops ss ''b.cn'' = Some True \<and> Has counting_ops ss ''b.com'' = Some False" by auto
  have "sum_list (map length (DomainTrie_Foreach trie_key ?t [])) = 6" by code_simp
  with new_domain_set_fits [OF ss(1)] ss show ?thesis by simp
qed

section \<open>Bytes below the star\<close>

text \<open>
  C24: \<open>Has\<close> misses members whose bytes are below the star. With the patterns \<open>+.cn\<close> and \<open>a!.cn\<close>, the domain
  \<open>b!.cn\<close> is valid and covered by the first, but \<open>Has\<close> returns false: the edge for the exclamation mark
  comes before the edge for the plus, so the search follows it and never returns to the wildcard. The
  trie with the same patterns finds the domain.
\<close>
theorem domain_set_misses_low_bytes:
  assumes "bitmap_index B"
  shows "\<exists>ss. builder_Build B (Some (insert_all [''+.cn'', ''a!.cn''])) = Some (Some ss, Some \<lparr>b_keys = []\<rparr>) \<and>
    Has B (Some ss) ''b!.cn'' = Some False \<and>
    DomainTrie_Search ''b!.cn'' (trie_run 0 [TInsert ''+.cn'' (1::nat), TInsert ''a!.cn'' 1]) \<noteq> None"
proof -
  let ?keys = "b_keys (insert_all [''+.cn'', ''a!.cn''])" and ?d = "''b!.cn''"
  define N where "N = trie_nodes ?keys"
  have "sum_list (map length ?keys) = 11" by code_simp
  moreover have "?keys \<noteq> []" by code_simp
  ultimately have keys: "?keys \<noteq> []" "2 * sum_list (map length ?keys) + 65 < 2 ^ 31" by simp_all
  have N: "N = [([], [''nc'', ''nc.!a'', ''nc.+'']), (''n'', [''c'', ''c.!a'', ''c.+'']), (''nc'', ['''', ''.!a'', ''.+'']),
      (''nc.'', [''!a'', ''+'']), (''nc.!'', [''a'']), (''nc.+'', ['''']), (''nc.!a'', [''''])]"
    unfolding N_def by code_simp
  from buildDomainSet_stores [OF keys(1), of B None "()"] obtain ss where
    ss: "buildDomainSet B ?keys None () = Some (Some ss, ())" "stores B ss N" by (auto simp: N_def)
  then have w: "walkable B ss N"
    using stores_fits [OF _ keys(2)] trie_nodes_ok [OF keys(1)] by (simp add: walkable_def N_def)
  note step = bitmap_index.has_from_edge [OF assms w _ _ _ refl refl, where key = ?d and stack = "[]"]
  have s: "start N 0 = 0" "start N 1 = 2" "start N 2 = 4" "start N 3 = 6" "start N 4 = 9"
    "degree N 0 = 1" "degree N 1 = 1" "degree N 2 = 1" "degree N 3 = 2" "degree N 4 = 1"
    unfolding N by code_simp+
  have e: "fst (groups (snd (N ! 0)) ! 0) = CHR ''n''" "fst (groups (snd (N ! 1)) ! 0) = CHR ''c''"
    "fst (groups (snd (N ! 2)) ! 0) = CHR ''.''" "fst (groups (snd (N ! 3)) ! 0) = CHR ''!''"
    "fst (groups (snd (N ! 4)) ! 0) = CHR ''a''"
    unfolding N by code_simp+
  have q: "query ?d = ''nc.!b''" by code_simp
  have len: "length N = 7" by (simp add: N)
  note eval = s [unfolded One_nat_def] e [unfolded One_nat_def] q len complexWildcardByte_def wildcardByte_def
  have "Has B (Some ss) ?d = has_from B ss ?d 0 0 0 []" by (simp add: Has_def)
  also have "\<dots> = has_from B ss ?d 1 2 1 []" using step [where i = 0 and n = 0 and k = 0] by (simp add: eval)
  also have "\<dots> = has_from B ss ?d 2 4 2 []" using step [where i = 1 and n = 1 and k = 0] by (simp add: eval flip: numeral_2_eq_2)
  also have "\<dots> = has_from B ss ?d 3 6 3 []" using step [where i = 2 and n = 2 and k = 0] by (simp add: eval)
  also have "\<dots> = has_from B ss ?d 4 9 4 []" using step [where i = 3 and n = 3 and k = 0] by (simp add: eval)
  also have "\<dots> = has_from B ss ?d 4 10 4 []" using step [where i = 4 and n = 4 and k = 0] by (simp add: eval)
  also have "\<dots> = Some False" using bitmap_index.has_from_exhausted [OF assms w, of 4 ?d 4] by (simp add: eval)
  finally have "Has B (Some ss) ?d = Some False" .
  moreover have "DomainTrie_Search ?d (trie_run 0 [TInsert ''+.cn'' (1::nat), TInsert ''a!.cn'' 1]) \<noteq> None" by code_simp
  ultimately show ?thesis using ss(1) by (auto simp: builder_Build_def)
qed

theorem domain_set_misses_low_bytes_witness:
  "\<exists>ss. builder_Build counting_ops (Some (insert_all [''+.cn'', ''a!.cn''])) = Some (Some ss, Some \<lparr>b_keys = []\<rparr>) \<and>
    Has counting_ops (Some ss) ''b!.cn'' = Some False"
  using domain_set_misses_low_bytes [OF counting.bitmap_index_axioms] by blast
end
