(* ===== verification/Go_Binary.thy ===== *)
theory Go_Binary
  imports Netip
begin

text \<open>
  Binary files: what the sources use of Go's packages \<open>io\<close> and \<open>encoding/binary\<close>. A reader is the list of
  the bytes that are left; reading gives a value and the rest, an error of the file, or a panic when
  the code allocates a slice of an impossible length. A writer is a function that appends bytes to a
  state of its own and may fail.
\<close>

section \<open>Reading\<close>

datatype bin_error = EOF | UnexpectedEOF | VersionInvalid | LengthInvalid | InvalidMagic | InvalidBehavior
  | InvalidFormat | ErrWrite string | ErrZstd string | NilSet | EmptyRule | ErrNoPayload

type_synonym 'a reader = "string \<Rightarrow> (bin_error + 'a \<times> string) res"

definition rd_return :: "'a \<Rightarrow> 'a reader" where
  "rd_return x s = Inr (Inr (x, s))"

definition rd_error :: "bin_error \<Rightarrow> 'a reader" where
  "rd_error e s = Inr (Inl e)"

definition rd_bind :: "'a reader \<Rightarrow> ('a \<Rightarrow> 'b reader) \<Rightarrow> 'b reader" where
  "rd_bind m f s = (case m s of
     Inl p \<Rightarrow> Inl p
   | Inr (Inl e) \<Rightarrow> Inr (Inl e)
   | Inr (Inr (x, s)) \<Rightarrow> f x s)"

text \<open>\<open>io.ReadFull\<close> into a buffer of \<open>n\<close> bytes.\<close>

definition ReadFull :: "nat \<Rightarrow> string reader" where
  "ReadFull n s =
     (if n \<le> length s then Inr (Inr (take n s, drop n s))
      else Inr (Inl (if s = [] then EOF else UnexpectedEOF)))"

text \<open>\<open>binary.Read\<close> with \<open>BigEndian\<close> of a \<open>uint64\<close> and of an \<open>int64\<close>.\<close>

definition read_uint64 :: "64 word reader" where
  "read_uint64 = rd_bind (ReadFull 8) (\<lambda>bs. rd_return (of_nat (be_bytes bs)))"

definition read_int64 :: "int reader" where
  "read_int64 = rd_bind read_uint64 (\<lambda>w. rd_return (sint w))"

text \<open>\<open>make([]T, n)\<close> for elements of \<open>sz\<close> bytes panics when the slice is larger than the address space.\<close>

definition maxAlloc :: int where
  "maxAlloc = 2 ^ 48"

definition make_slice :: "int \<Rightarrow> int \<Rightarrow> unit reader" where
  "make_slice n sz s =
     (if n < 0 \<or> n * sz > maxAlloc then Inl (Panic ''makeslice: len out of range'') else Inr (Inr ((), s)))"

text \<open>A loop that reads one element after the other into a slice.\<close>

primrec read_many :: "'a reader \<Rightarrow> nat \<Rightarrow> 'a list reader" where
  "read_many r 0 = rd_return []"
| "read_many r (Suc n) = rd_bind r (\<lambda>x. rd_bind (read_many r n) (\<lambda>xs. rd_return (x # xs)))"

section \<open>Writing\<close>

type_synonym 'w writer = "string \<Rightarrow> 'w \<Rightarrow> bin_error option \<times> 'w"

definition wr_seq :: "('w \<Rightarrow> bin_error option \<times> 'w) \<Rightarrow> ('w \<Rightarrow> bin_error option \<times> 'w) \<Rightarrow> 'w \<Rightarrow> bin_error option \<times> 'w" where
  "wr_seq f g w = (case f w of (Some e, w) \<Rightarrow> (Some e, w) | (None, w) \<Rightarrow> g w)"

definition put_uint64 :: "64 word \<Rightarrow> string" where
  "put_uint64 v = bytes_be 8 (unat v)"

definition write_uint64 :: "'w writer \<Rightarrow> 64 word \<Rightarrow> 'w \<Rightarrow> bin_error option \<times> 'w" where
  "write_uint64 W v = W (put_uint64 v)"

definition write_int64 :: "'w writer \<Rightarrow> int \<Rightarrow> 'w \<Rightarrow> bin_error option \<times> 'w" where
  "write_int64 W n = W (put_uint64 (of_int n))"

fun write_each :: "('a \<Rightarrow> 'w \<Rightarrow> bin_error option \<times> 'w) \<Rightarrow> 'a list \<Rightarrow> 'w \<Rightarrow> bin_error option \<times> 'w" where
  "write_each f [] w = (None, w)"
| "write_each f (x # xs) w = wr_seq (f x) (write_each f xs) w"

text \<open>A buffer in memory, to which every write succeeds.\<close>

definition buffer :: "string writer" where
  "buffer s out = (None, out @ s)"

section \<open>Writing and reading back\<close>

lemma rd_bind_apply [simp]:
  "m s = Inr (Inr (x, s')) \<Longrightarrow> rd_bind m f s = f x s'"
  "m s = Inr (Inl e) \<Longrightarrow> rd_bind m f s = Inr (Inl e)"
  "m s = Inl p \<Longrightarrow> rd_bind m f s = Inl p"
  by (simp_all add: rd_bind_def)

lemma rd_return_apply [simp]: "rd_return x s = Inr (Inr (x, s))"
  by (simp add: rd_return_def)

lemma ReadFull_append: "length bs = n \<Longrightarrow> ReadFull n (bs @ s) = Inr (Inr (bs, s))"
  by (simp add: ReadFull_def)

lemma read_uint64_put [simp]: "read_uint64 (put_uint64 w @ s) = Inr (Inr (w, s))"
proof -
  have "unat w < 2 ^ LENGTH(64)" by (rule unsigned_less)
  then have "unat w < 256 ^ 8" by simp
  then have "of_nat (be_bytes (put_uint64 w)) = w" by (simp add: put_uint64_def be_bytes_bytes_be)
  moreover have "ReadFull 8 (put_uint64 w @ s) = Inr (Inr (put_uint64 w, s))"
    by (rule ReadFull_append) (simp add: put_uint64_def)
  ultimately show ?thesis by (simp add: read_uint64_def)
qed

lemma read_int64_put:
  "0 \<le> n \<Longrightarrow> n < 2 ^ 63 \<Longrightarrow> read_int64 (put_uint64 (of_int n) @ s) = Inr (Inr (n, s))"
  by (simp add: read_int64_def signed_of_int signed_take_bit_int_eq_self)

lemma read_many_append:
  assumes "\<And>x s. x \<in> set xs \<Longrightarrow> r (f x @ s) = Inr (Inr (x, s))"
  shows "read_many r (length xs) (concat (map f xs) @ s) = Inr (Inr (xs, s))"
  using assms
proof (induction xs)
  case (Cons x xs)
  have "r (f x @ concat (map f xs) @ s) = Inr (Inr (x, concat (map f xs) @ s))" using Cons.prems by simp
  moreover have "read_many r (length xs) (concat (map f xs) @ s) = Inr (Inr (xs, s))" using Cons by simp
  ultimately show ?case by simp
qed simp

lemma buffer_seq: "f w = (None, w') \<Longrightarrow> wr_seq f g w = g w'"
  by (simp add: wr_seq_def)

lemma write_each_buffer:
  assumes "\<And>x out. f x out = (None, out @ g x)"
  shows "write_each f xs out = (None, out @ concat (map g xs))"
  by (induction xs arbitrary: out) (simp_all add: wr_seq_def assms)
end
