(* ===== verification/Domain_Set_Bin.thy ===== *)
theory Domain_Set_Bin
  imports Domain_Set_Search Go_Binary
begin

text \<open>
  The file format of a domain set, \<open>src/component/trie/domain_set_bin.go\<close>: a version byte, the two bitmaps
  and the labels, each after its length as a big-endian 64-bit integer. The arrays of the index are
  not written; reading computes them again.
\<close>

definition WriteBin :: "'w writer \<Rightarrow> DomainSet \<Rightarrow> 'w \<Rightarrow> bin_error option \<times> 'w" where
  "WriteBin W ss =
     wr_seq (W [char_of (1::nat)])
    (wr_seq (write_int64 W (int (length (ds_leaves ss))))
    (wr_seq (write_each (write_uint64 W) (ds_leaves ss))
    (wr_seq (write_int64 W (int (length (ds_labelBitmap ss))))
    (wr_seq (write_each (write_uint64 W) (ds_labelBitmap ss))
    (wr_seq (write_int64 W (int (length (ds_labels ss))))
    (W (ds_labels ss)))))))"

definition read_length :: "int reader" where
  "read_length = rd_bind read_int64 (\<lambda>n. if n < 1 then rd_error LengthInvalid else rd_return n)"

definition read_words :: "bitmap reader" where
  "read_words = rd_bind read_length (\<lambda>n. rd_bind (make_slice n 8) (\<lambda>_. read_many read_uint64 (nat n)))"

definition ReadDomainSetBin :: "bitmap_ops \<Rightarrow> DomainSet reader" where
  "ReadDomainSetBin B =
     rd_bind (ReadFull 1) (\<lambda>version.
       if version ! 0 \<noteq> char_of (1::nat) then rd_error VersionInvalid
       else
         rd_bind read_words (\<lambda>leaves.
         rd_bind read_words (\<lambda>labelBitmap.
         rd_bind read_length (\<lambda>n.
         rd_bind (make_slice n 1) (\<lambda>_.
         rd_bind (ReadFull (nat n)) (\<lambda>labels.
         rd_return (ds_init B leaves labelBitmap labels)))))))"

section \<open>Reading back\<close>

definition words_bytes :: "bitmap \<Rightarrow> string" where
  "words_bytes ws = put_uint64 (of_int (int (length ws))) @ concat (map put_uint64 ws)"

definition set_bytes :: "DomainSet \<Rightarrow> string" where
  "set_bytes ss = [char_of (1::nat)] @ words_bytes (ds_leaves ss) @ words_bytes (ds_labelBitmap ss)
     @ put_uint64 (of_int (int (length (ds_labels ss)))) @ ds_labels ss"

lemma WriteBin_buffer: "WriteBin buffer ss out = (None, out @ set_bytes ss)"
proof -
  have each: "write_each (write_uint64 buffer) ws out = (None, out @ concat (map put_uint64 ws))" for ws out
    by (rule write_each_buffer) (simp add: write_uint64_def buffer_def)
  show ?thesis
    by (simp add: WriteBin_def set_bytes_def words_bytes_def wr_seq_def buffer_def write_int64_def each)
qed

lemma read_length_put: "1 \<le> n \<Longrightarrow> n < 2 ^ 63 \<Longrightarrow> read_length (put_uint64 (of_int n) @ s) = Inr (Inr (n, s))"
  by (simp add: read_length_def read_int64_put)

lemma read_words_put:
  assumes "ws \<noteq> []" and "int (length ws) * 8 \<le> maxAlloc"
  shows "read_words (words_bytes ws @ s) = Inr (Inr (ws, s))"
proof -
  have "1 \<le> int (length ws)" using assms(1) by (cases ws) simp_all
  moreover have "int (length ws) < 2 ^ 63" using assms(2) by (simp add: maxAlloc_def)
  ultimately have "read_length (words_bytes ws @ s) = Inr (Inr (int (length ws), concat (map put_uint64 ws) @ s))"
    by (simp add: words_bytes_def read_length_put del: of_int_of_nat_eq)
  moreover have "read_many read_uint64 (length ws) (concat (map put_uint64 ws) @ s) = Inr (Inr (ws, s))"
    by (rule read_many_append) simp
  ultimately show ?thesis using assms(2) by (simp add: read_words_def make_slice_def rd_bind_def)
qed

text \<open>The lengths that the file can hold.\<close>

definition storable :: "DomainSet \<Rightarrow> bool" where
  "storable ss \<longleftrightarrow> ds_leaves ss \<noteq> [] \<and> ds_labelBitmap ss \<noteq> [] \<and> ds_labels ss \<noteq> [] \<and>
     int (length (ds_leaves ss)) * 8 \<le> maxAlloc \<and> int (length (ds_labelBitmap ss)) * 8 \<le> maxAlloc \<and>
     int (length (ds_labels ss)) \<le> maxAlloc"

lemma ReadDomainSetBin_set_bytes:
  assumes "storable ss" and "ss = ds_init B (ds_leaves ss) (ds_labelBitmap ss) (ds_labels ss)"
  shows "ReadDomainSetBin B (set_bytes ss @ s) = Inr (Inr (ss, s))"
proof -
  have st: "ds_leaves ss \<noteq> []" "ds_labelBitmap ss \<noteq> []" "ds_labels ss \<noteq> []"
    "int (length (ds_leaves ss)) * 8 \<le> maxAlloc" "int (length (ds_labelBitmap ss)) * 8 \<le> maxAlloc"
    "int (length (ds_labels ss)) \<le> maxAlloc" using assms(1) by (simp_all add: storable_def)
  let ?n = "int (length (ds_labels ss))"
  have "1 \<le> ?n" using st(3) by (cases "ds_labels ss") simp_all
  moreover have "?n < 2 ^ 63" using st(6) by (simp add: maxAlloc_def)
  ultimately have n: "1 \<le> ?n" "?n < 2 ^ 63" by simp_all
  define s3 where "s3 = put_uint64 (of_int ?n) @ ds_labels ss @ s"
  have "read_length s3 = Inr (Inr (?n, ds_labels ss @ s))" unfolding s3_def by (rule read_length_put [OF n])
  moreover have "ReadFull (length (ds_labels ss)) (ds_labels ss @ s) = Inr (Inr (ds_labels ss, s))"
    by (rule ReadFull_append) simp
  moreover have "read_words (words_bytes (ds_leaves ss) @ words_bytes (ds_labelBitmap ss) @ s3)
      = Inr (Inr (ds_leaves ss, words_bytes (ds_labelBitmap ss) @ s3))"
    "read_words (words_bytes (ds_labelBitmap ss) @ s3) = Inr (Inr (ds_labelBitmap ss, s3))"
    by (rule read_words_put; use st in simp)+
  moreover have "ReadFull 1 (set_bytes ss @ s)
      = Inr (Inr ([char_of (1::nat)], words_bytes (ds_leaves ss) @ words_bytes (ds_labelBitmap ss) @ s3))"
    by (simp add: ReadFull_def set_bytes_def s3_def)
  ultimately show ?thesis
    using st(6) assms(2) by (simp add: ReadDomainSetBin_def make_slice_def rd_bind_def del: One_nat_def)
qed

lemma length_labels_bits:
  "length (concat (map node_bits N)) = length (concat (map (map fst \<circ> groups \<circ> snd) N)) + length N"
  by (induction N) simp_all

lemma built_storable:
  assumes "stores B ss (trie_nodes keys)" "fits32 (ds_labelBitmap ss)" "keys \<noteq> []" "\<exists>k\<in>set keys. k \<noteq> []"
  shows "storable ss"
proof -
  let ?N = "trie_nodes keys" and ?bs = "concat (map node_bits (trie_nodes keys))" and ?r = "([], Compact (sort keys)) :: tnode"
  have w: "walkable B ss ?N" using assms(1,2) trie_nodes_ok [OF assms(3)] by (simp add: walkable_def)
  have N: "?N = ?r # concat (map kids ?N)" unfolding trie_nodes_def by (rule bfs_root)
  then have N0: "0 < length ?N" "?r \<in> set ?N" by (metis N length_greater_0_conv list.distinct(1)) (metis N list.set_intros(1))
  have h: "holds_bits (ds_labelBitmap ss) ?bs" "ds_labels ss = concat (map (map fst \<circ> groups \<circ> snd) ?N)"
    "leaves_hold (ds_leaves ss) ?N" using assms(1) by (simp_all add: stores_def)
  have bits: "length ?bs = length (ds_labels ss) + length ?N" unfolding h(2) by (rule length_labels_bits)
  have small: "length ?bs < 2 ^ 31" using holds_bits_length [OF h(1)] assms(2) by (simp add: fits32_def)
  obtain ls k where ls: "holds_bits (ds_leaves ss) ls" "map is_leaf ?N = ls @ replicate k False"
    using h(3) unfolding leaves_hold_def by blast
  have "length ls \<le> length ?N" using arg_cong [OF ls(2), of length] by simp
  moreover have len: "length (ds_leaves ss) = (length ls + 63) div 64" using ls(1) by (simp add: holds_bits_def)
  ultimately have "length (ds_leaves ss) < 2 ^ 31" using bits small by simp
  moreover have "ds_leaves ss \<noteq> []" using walk_leaf [OF w N0(1)] by (auto simp: getBit_def)
  moreover have "ds_labelBitmap ss \<noteq> []" using walk_end [OF w N0(1)] by (auto simp: getBit_def)
  moreover have "groups (snd ?r) \<noteq> []"
  proof -
    from assms(4) obtain c p where "c # p \<in> set keys" by (metis list.exhaust)
    then have "c # p \<in> set (snd ?r)" using Compact_sort [of keys] by simp
    then show ?thesis unfolding groups_mem by auto
  qed
  then have "ds_labels ss \<noteq> []" using N0(2) unfolding h(2) by (auto intro!: bexI [of _ ?r])
  moreover have "length (ds_labels ss) < 2 ^ 31" using bits small by simp
  moreover have "length (ds_labelBitmap ss) < 2 ^ 31" using assms(2) by (simp add: fits32_def)
  ultimately show ?thesis by (simp add: storable_def maxAlloc_def)
qed
end
