(* ===== verification/Ip_Cidr_Set.thy ===== *)
theory Ip_Cidr_Set
  imports Netip_Text Go_Binary
begin

text \<open>
  The set of address ranges of \<open>src/component/cidr\<close>, with its file format. The package \<open>netipx\<close>, which
  has ranges and sorted sets of ranges, is not part of the repository: its functions are the record
  \<open>netipx_ops\<close>, and the locale \<open>ip_ranges\<close> states what its documentation promises. A set is the slice of
  its ranges, as in the code, which reads it as a set of the package. Addresses have no zones.
\<close>

record iprange =
  ipr_From :: addr
  ipr_To :: addr

record netipx_ops =
  nx_RangeOfPrefix :: "prefix \<Rightarrow> iprange"
  nx_IsValid :: "iprange \<Rightarrow> bool"
  nx_Contains :: "iprange list \<Rightarrow> addr \<Rightarrow> bool"
  nx_IPSet :: "iprange list \<Rightarrow> unit + iprange list"
  nx_Prefixes :: "iprange \<Rightarrow> prefix list"

datatype cidr_error = ErrParsePrefix | ErrInvalidRange | ErrIPSet

record IpCidrSet = rr :: "iprange list"

definition NewIpCidrSet :: IpCidrSet where
  "NewIpCidrSet = \<lparr>rr = []\<rparr>"

definition AddIpCidr :: "netipx_ops \<Rightarrow> prefix \<Rightarrow> IpCidrSet \<Rightarrow> cidr_error option \<times> IpCidrSet" where
  "AddIpCidr X ipCidr cs =
     (let r = nx_RangeOfPrefix X ipCidr
      in if nx_IsValid X r then (None, cs\<lparr>rr := rr cs @ [r]\<rparr>) else (Some ErrInvalidRange, cs))"

definition AddIpCidrForString :: "netipx_ops \<Rightarrow> string \<Rightarrow> IpCidrSet \<Rightarrow> cidr_error option \<times> IpCidrSet" where
  "AddIpCidrForString X ipCidr cs =
     (case ParsePrefix ipCidr of
        None \<Rightarrow> (Some ErrParsePrefix, cs)
      | Some prefix \<Rightarrow> AddIpCidr X prefix cs)"

definition IsContain :: "netipx_ops \<Rightarrow> IpCidrSet \<Rightarrow> addr \<Rightarrow> bool" where
  "IsContain X cs ip = nx_Contains X (rr cs) ip"

definition IsContainForString :: "netipx_ops \<Rightarrow> IpCidrSet \<Rightarrow> string \<Rightarrow> bool" where
  "IsContainForString X cs ipString =
     (case ParseAddr ipString of None \<Rightarrow> False | Some (ip, zone) \<Rightarrow> IsContain X cs ip)"

definition IpCidrSet_IsEmpty :: "IpCidrSet option \<Rightarrow> bool" where
  "IpCidrSet_IsEmpty cs = (case cs of None \<Rightarrow> True | Some cs \<Rightarrow> length (rr cs) = 0)"

definition MatchIp :: "netipx_ops \<Rightarrow> IpCidrSet option \<Rightarrow> addr \<Rightarrow> bool" where
  "MatchIp X cs ip = (if IpCidrSet_IsEmpty cs then False else IsContain X (the cs) ip)"

definition IpCidrSet_Merge :: "netipx_ops \<Rightarrow> IpCidrSet \<Rightarrow> cidr_error option \<times> IpCidrSet" where
  "IpCidrSet_Merge X cs =
     (case nx_IPSet X (rr cs) of
        Inl _ \<Rightarrow> (Some ErrIPSet, cs)
      | Inr i \<Rightarrow> (None, cs\<lparr>rr := i\<rparr>))"

fun foreach_prefix :: "(prefix \<Rightarrow> 's \<Rightarrow> bool \<times> 's) \<Rightarrow> prefix list \<Rightarrow> 's \<Rightarrow> bool \<times> 's" where
  "foreach_prefix f [] s = (True, s)"
| "foreach_prefix f (p # ps) s = (case f p s of (go, s) \<Rightarrow> if \<not> go then (False, s) else foreach_prefix f ps s)"

fun foreach_range :: "netipx_ops \<Rightarrow> (prefix \<Rightarrow> 's \<Rightarrow> bool \<times> 's) \<Rightarrow> iprange list \<Rightarrow> 's \<Rightarrow> 's" where
  "foreach_range X f [] s = s"
| "foreach_range X f (r # rs) s =
     (case foreach_prefix f (nx_Prefixes X r) s of (go, s) \<Rightarrow> if \<not> go then s else foreach_range X f rs s)"

definition IpCidrSet_Foreach :: "netipx_ops \<Rightarrow> (prefix \<Rightarrow> 's \<Rightarrow> bool \<times> 's) \<Rightarrow> IpCidrSet \<Rightarrow> 's \<Rightarrow> 's" where
  "IpCidrSet_Foreach X f cs s = foreach_range X f (rr cs) s"

section \<open>The file format\<close>

fun addr_As16 :: "addr \<Rightarrow> string" where
  "addr_As16 AddrZero = bytes_be 16 0"
| "addr_As16 (Addr4 w) = bytes_be 16 (0xffff * 2 ^ 32 + unat w)"
| "addr_As16 (Addr6 w) = bytes_be 16 (unat w)"

definition AddrFrom16 :: "string \<Rightarrow> addr" where
  "AddrFrom16 bs = Addr6 (of_nat (be_bytes bs))"

definition IpCidrSet_WriteBin :: "'w writer \<Rightarrow> IpCidrSet \<Rightarrow> 'w \<Rightarrow> bin_error option \<times> 'w" where
  "IpCidrSet_WriteBin W ss =
     wr_seq (W [char_of (1::nat)])
    (wr_seq (write_int64 W (int (length (rr ss))))
    (write_each (\<lambda>r. wr_seq (W (addr_As16 (ipr_From r))) (W (addr_As16 (ipr_To r)))) (rr ss)))"

definition read_range :: "iprange reader" where
  "read_range =
     rd_bind (ReadFull 16) (\<lambda>a16. rd_bind (ReadFull 16) (\<lambda>b16.
       rd_return \<lparr>ipr_From = addr_Unmap (AddrFrom16 a16), ipr_To = addr_Unmap (AddrFrom16 b16)\<rparr>))"

definition ReadIpCidrSet :: "IpCidrSet reader" where
  "ReadIpCidrSet =
     rd_bind (ReadFull 1) (\<lambda>version.
       if version ! 0 \<noteq> char_of (1::nat) then rd_error VersionInvalid
       else
         rd_bind read_int64 (\<lambda>n.
           if n < 1 then rd_error LengthInvalid
           else
             rd_bind (make_slice n 48) (\<lambda>_.
             rd_bind (read_many read_range (nat n)) (\<lambda>rs. rd_return \<lparr>rr = rs\<rparr>))))"

section \<open>The package netipx\<close>

definition in_range :: "iprange \<Rightarrow> addr \<Rightarrow> bool" where
  "in_range r a \<longleftrightarrow> addr_IsValid a \<and> addr_BitLen (ipr_From r) = addr_BitLen a \<and> addr_BitLen (ipr_To r) = addr_BitLen a
     \<and> addr_num (ipr_From r) \<le> addr_num a \<and> addr_num a \<le> addr_num (ipr_To r)"

locale ip_ranges =
  fixes X :: netipx_ops
  assumes range_valid: "nx_IsValid X (nx_RangeOfPrefix X p) \<longleftrightarrow> prefix_IsValid p"
    and range_prefix: "prefix_IsValid p \<Longrightarrow> in_range (nx_RangeOfPrefix X p) a \<longleftrightarrow> prefix_Contains p a"
    and set_contains: "\<forall>r\<in>set rs. nx_IsValid X r \<Longrightarrow>
      \<exists>rs'. nx_IPSet X rs = Inr rs' \<and> (\<forall>a. nx_Contains X rs' a \<longleftrightarrow> (\<exists>r\<in>set rs. in_range r a))"

text \<open>The calls of \<open>AddIpCidrForString\<close> on a new set.\<close>

definition add_all :: "netipx_ops \<Rightarrow> string list \<Rightarrow> IpCidrSet" where
  "add_all X ss = fold (\<lambda>s cs. snd (AddIpCidrForString X s cs)) ss NewIpCidrSet"

context ip_ranges
begin

lemma add_all_ranges:
  "set (rr (add_all X ss)) = {nx_RangeOfPrefix X p | p. prefix_IsValid p \<and> (\<exists>s\<in>set ss. ParsePrefix s = Some p)}"
proof (induction ss rule: rev_induct)
  case Nil
  then show ?case by (simp add: add_all_def NewIpCidrSet_def)
next
  case (snoc s ss)
  have "add_all X (ss @ [s]) = snd (AddIpCidrForString X s (add_all X ss))" by (simp add: add_all_def)
  then show ?case using snoc
    by (cases "ParsePrefix s") (auto simp: AddIpCidrForString_def AddIpCidr_def Let_def range_valid)
qed

text \<open>After \<open>Merge\<close> the set contains the addresses of the prefixes that were added.\<close>

lemma merged_contains:
  "\<exists>cs. IpCidrSet_Merge X (add_all X ss) = (None, cs) \<and>
     (\<forall>a. IsContain X cs a \<longleftrightarrow> (\<exists>s\<in>set ss. \<exists>p. ParsePrefix s = Some p \<and> prefix_Contains p a))"
proof -
  have "\<forall>r\<in>set (rr (add_all X ss)). nx_IsValid X r" unfolding add_all_ranges by (auto simp: range_valid)
  from set_contains [OF this] obtain rs where rs: "nx_IPSet X (rr (add_all X ss)) = Inr rs"
    "\<And>a. nx_Contains X rs a \<longleftrightarrow> (\<exists>r\<in>set (rr (add_all X ss)). in_range r a)" by blast
  have "(\<exists>r\<in>set (rr (add_all X ss)). in_range r a) \<longleftrightarrow> (\<exists>s\<in>set ss. \<exists>p. ParsePrefix s = Some p \<and> prefix_Contains p a)" for a
    unfolding add_all_ranges using range_prefix by (auto simp: prefix_Contains_def)
  with rs show ?thesis by (auto simp: IpCidrSet_Merge_def IsContain_def)
qed

end

text \<open>An implementation that keeps the ranges as they are.\<close>

fun last_addr :: "addr \<Rightarrow> nat \<Rightarrow> addr" where
  "last_addr AddrZero n = AddrZero"
| "last_addr (Addr4 w) n = Addr4 (of_nat (unat w div 2 ^ (32 - n) * 2 ^ (32 - n) + (2 ^ (32 - n) - 1)))"
| "last_addr (Addr6 w) n = Addr6 (of_nat (unat w div 2 ^ (128 - n) * 2 ^ (128 - n) + (2 ^ (128 - n) - 1)))"

fun with_num :: "addr \<Rightarrow> nat \<Rightarrow> addr" where
  "with_num AddrZero n = AddrZero"
| "with_num (Addr4 w) n = Addr4 (of_nat n)"
| "with_num (Addr6 w) n = Addr6 (of_nat n)"

definition linear_ops :: netipx_ops where
  "linear_ops =
     \<lparr>nx_RangeOfPrefix = (\<lambda>p.
        if prefix_IsValid p then \<lparr>ipr_From = addr_masked (pfx_ip p) (nat (pfx_bits p)), ipr_To = last_addr (pfx_ip p) (nat (pfx_bits p))\<rparr>
        else \<lparr>ipr_From = AddrZero, ipr_To = AddrZero\<rparr>),
      nx_IsValid = (\<lambda>r. addr_IsValid (ipr_From r) \<and> in_range r (ipr_From r) \<and> in_range r (ipr_To r)),
      nx_Contains = (\<lambda>rs a. \<exists>r\<in>set rs. in_range r a),
      nx_IPSet = Inr,
      nx_Prefixes = (\<lambda>r. map (\<lambda>n. \<lparr>pfx_ip = with_num (ipr_From r) n, pfx_bits = addr_BitLen (ipr_From r)\<rparr>)
        [addr_num (ipr_From r)..<Suc (addr_num (ipr_To r))])\<rparr>"

lemma block_ends:
  fixes v :: "'a::len word"
  assumes "k \<le> LENGTH('a)"
  shows "unat (push_bit k (drop_bit k v)) = unat v div 2 ^ k * 2 ^ k"
    and "unat (of_nat (unat v div 2 ^ k * 2 ^ k + (2 ^ k - 1)) :: 'a word) = unat v div 2 ^ k * 2 ^ k + (2 ^ k - 1)"
proof -
  have v: "unat v < 2 ^ LENGTH('a)" by (rule unsigned_less)
  have "unat (push_bit k (drop_bit k v)) = take_bit LENGTH('a) (push_bit k (drop_bit k (unat v)))"
    using v by (simp add: unsigned_push_bit_eq unsigned_drop_bit_eq take_bit_nat_eq_self)
  moreover have "unat v div 2 ^ k * 2 ^ k < 2 ^ LENGTH('a)"
    using v by (meson div_times_less_eq_dividend le_less_trans)
  ultimately show "unat (push_bit k (drop_bit k v)) = unat v div 2 ^ k * 2 ^ k"
    by (simp add: push_bit_nat_def drop_bit_nat_def take_bit_nat_eq_self)
  have L: "(2::nat) ^ LENGTH('a) = 2 ^ (LENGTH('a) - k) * 2 ^ k" using assms by (simp add: power_add [symmetric])
  have "unat v div 2 ^ k < 2 ^ (LENGTH('a) - k)" using v unfolding L by (simp add: less_mult_imp_div_less)
  then have "Suc (unat v div 2 ^ k) * 2 ^ k \<le> 2 ^ LENGTH('a)" unfolding L by (intro mult_right_mono) simp_all
  moreover obtain K where "(2::nat) ^ k = Suc K" using not0_implies_Suc [of "2 ^ k"] by auto
  ultimately have "unat v div 2 ^ k * 2 ^ k + (2 ^ k - 1) < 2 ^ LENGTH('a)" by simp
  then show "unat (of_nat (unat v div 2 ^ k * 2 ^ k + (2 ^ k - 1)) :: 'a word) = unat v div 2 ^ k * 2 ^ k + (2 ^ k - 1)"
    by (simp add: unat_of_nat)
qed

lemma block_range:
  fixes v w :: "'a::len word"
  assumes "k \<le> LENGTH('a)"
  shows "unat (push_bit k (drop_bit k v)) \<le> unat w
      \<and> unat w \<le> unat (of_nat (unat v div 2 ^ k * 2 ^ k + (2 ^ k - 1)) :: 'a word) \<longleftrightarrow> drop_bit k (v XOR w) = 0"
proof -
  have "drop_bit k (v XOR w) = 0 \<longleftrightarrow> drop_bit k v = drop_bit k w" by (auto simp: bit_eq_iff bit_xor_iff bit_drop_bit_eq)
  also have "\<dots> \<longleftrightarrow> unat v div 2 ^ k = unat w div 2 ^ k"
    by (simp add: word_unat_eq_iff unat_drop_bit_eq drop_bit_nat_def)
  also have "\<dots> \<longleftrightarrow> unat v div 2 ^ k * 2 ^ k \<le> unat w \<and> unat w \<le> unat v div 2 ^ k * 2 ^ k + (2 ^ k - 1)"
  proof
    assume e: "unat v div 2 ^ k = unat w div 2 ^ k"
    have "unat w mod 2 ^ k \<le> 2 ^ k - 1" by (simp add: less_Suc_eq_le [symmetric])
    with div_mult_mod_eq [of "unat w" "2 ^ k"] show "unat v div 2 ^ k * 2 ^ k \<le> unat w \<and> unat w \<le> unat v div 2 ^ k * 2 ^ k + (2 ^ k - 1)"
      unfolding e by linarith
  next
    let ?q = "unat v div 2 ^ k"
    assume "?q * 2 ^ k \<le> unat w \<and> unat w \<le> ?q * 2 ^ k + (2 ^ k - 1)"
    moreover obtain K where "(2::nat) ^ k = Suc K" using not0_implies_Suc [of "2 ^ k"] by auto
    ultimately have "?q * 2 ^ k \<le> unat w" "unat w < Suc ?q * 2 ^ k" by simp_all
    then show "?q = unat w div 2 ^ k" by (intro div_nat_eqI [symmetric]) (simp_all add: mult.commute)
  qed
  finally show ?thesis unfolding block_ends [OF assms] by simp
qed

lemma linear_range:
  assumes "prefix_IsValid p"
  shows "in_range \<lparr>ipr_From = addr_masked (pfx_ip p) (nat (pfx_bits p)), ipr_To = last_addr (pfx_ip p) (nat (pfx_bits p))\<rparr> a
    \<longleftrightarrow> prefix_Contains p a"
proof (cases "pfx_ip p")
  case (Addr4 v)
  then show ?thesis using assms block_range [of "32 - nat (pfx_bits p)" v]
    by (cases a) (simp_all add: in_range_def prefix_Contains_def addr_IsValid_def)
next
  case (Addr6 v)
  then show ?thesis using assms block_range [of "128 - nat (pfx_bits p)" v]
    by (cases a) (simp_all add: in_range_def prefix_Contains_def addr_IsValid_def)
qed (use assms in \<open>simp add: prefix_IsValid_def addr_IsValid_def\<close>)

interpretation linear: ip_ranges linear_ops
proof
  show "in_range (nx_RangeOfPrefix linear_ops p) a \<longleftrightarrow> prefix_Contains p a" if "prefix_IsValid p" for p a
    using linear_range [OF that] that by (simp add: linear_ops_def)
  show "nx_IsValid linear_ops (nx_RangeOfPrefix linear_ops p) \<longleftrightarrow> prefix_IsValid p" for p
  proof (cases "prefix_IsValid p")
    case True
    have "prefix_Contains p (pfx_ip p)" using True
      by (cases "pfx_ip p") (simp_all add: prefix_Contains_def prefix_IsValid_def addr_IsValid_def)
    with linear_range [OF True, of "pfx_ip p"] True show ?thesis
      by (cases "pfx_ip p") (auto simp: linear_ops_def in_range_def addr_IsValid_def)
  qed (simp add: linear_ops_def addr_IsValid_def)
  show "\<exists>rs'. nx_IPSet linear_ops rs = Inr rs' \<and> (\<forall>a. nx_Contains linear_ops rs' a \<longleftrightarrow> (\<exists>r\<in>set rs. in_range r a))" for rs
    by (simp add: linear_ops_def)
qed

section \<open>Reading back\<close>

text \<open>
  A set whose ranges do not end at an IPv4 address written as IPv6 is read back as it was. Other
  ends come back as IPv4 addresses, as the code cannot tell them apart: the range of \<open>::/80\<close>
  becomes one from an IPv6 to an IPv4 address, which is not valid.
\<close>

definition plain_end :: "addr \<Rightarrow> bool" where
  "plain_end a \<longleftrightarrow> addr_IsValid a \<and> \<not> addr_Is4In6 a"

lemma AddrFrom16_As16: "AddrFrom16 (addr_As16 (Addr6 w)) = Addr6 w"
proof -
  have "unat w < 2 ^ LENGTH(128)" by (rule unsigned_less)
  then have "unat w < 256 ^ 16" by simp
  then show ?thesis by (simp add: AddrFrom16_def be_bytes_bytes_be)
qed

lemma Unmap_As16: "plain_end a \<Longrightarrow> addr_Unmap (AddrFrom16 (addr_As16 a)) = a"
proof (cases a)
  case (Addr4 w)
  have w: "unat w < 2 ^ 32" using unsigned_less [of w] by simp
  define n where "n = 0xffff * 2 ^ 32 + unat w"
  have "(0xffff * 2 ^ 32 + unat w) mod 2 ^ 32 = unat w mod 2 ^ 32" by (rule mod_mult_self3)
  with w have n: "n < 2 ^ 128" "n div 2 ^ 32 = 0xffff" "n mod 2 ^ 32 = unat w" by (simp_all add: n_def)
  then have "n mod 256 ^ 16 = n" by simp
  then have a: "AddrFrom16 (addr_As16 a) = Addr6 (of_nat n)"
    unfolding Addr4 addr_As16.simps n_def [symmetric] AddrFrom16_def be_bytes_bytes_be by simp
  have u: "unat (of_nat n :: 128 word) = n"
    using n(1) by (simp add: unsigned_of_nat take_bit_nat_eq_self)
  have "unat (drop_bit 32 (of_nat n :: 128 word)) = unat (0xffff :: 128 word)"
    using n(2) u by (simp add: unat_drop_bit_eq drop_bit_nat_def)
  then have "drop_bit 32 (of_nat n :: 128 word) = 0xffff" unfolding word_unat_eq_iff .
  moreover have "ucast (of_nat n :: 128 word) = w"
    using n(3) u by (simp add: word_unat_eq_iff unsigned_ucast_eq take_bit_eq_mod)
  ultimately show ?thesis unfolding a by (simp add: addr_Unmap_def addr_Is4In6_def Addr4)
next
  case (Addr6 w)
  assume "plain_end a"
  with AddrFrom16_As16 [of w] show ?thesis by (simp add: plain_end_def addr_Unmap_def Addr6)
qed (simp add: plain_end_def addr_IsValid_def)

definition range_bytes :: "iprange \<Rightarrow> string" where
  "range_bytes r = addr_As16 (ipr_From r) @ addr_As16 (ipr_To r)"

definition cidr_bytes :: "IpCidrSet \<Rightarrow> string" where
  "cidr_bytes cs = [char_of (1::nat)] @ put_uint64 (of_int (int (length (rr cs)))) @ concat (map range_bytes (rr cs))"

lemma IpCidrSet_WriteBin_buffer: "IpCidrSet_WriteBin buffer cs out = (None, out @ cidr_bytes cs)"
proof -
  have "write_each (\<lambda>r. wr_seq (buffer (addr_As16 (ipr_From r))) (buffer (addr_As16 (ipr_To r)))) rs out
      = (None, out @ concat (map range_bytes rs))" for rs out
    by (rule write_each_buffer) (simp add: wr_seq_def buffer_def range_bytes_def)
  then show ?thesis by (simp add: IpCidrSet_WriteBin_def cidr_bytes_def wr_seq_def buffer_def write_int64_def)
qed

lemma length_As16 [simp]: "length (addr_As16 a) = 16"
  by (cases a) simp_all

lemma read_range_bytes:
  "plain_end (ipr_From r) \<Longrightarrow> plain_end (ipr_To r) \<Longrightarrow> read_range (range_bytes r @ s) = Inr (Inr (r, s))"
  by (simp add: read_range_def range_bytes_def ReadFull_append Unmap_As16)

lemma cidr_round_trip:
  assumes "rr cs \<noteq> []" "int (length (rr cs)) * 48 \<le> maxAlloc" "\<forall>r\<in>set (rr cs). plain_end (ipr_From r) \<and> plain_end (ipr_To r)"
  shows "ReadIpCidrSet (cidr_bytes cs @ s) = Inr (Inr (cs, s))"
proof -
  have n: "1 \<le> int (length (rr cs))" using assms(1) by (cases "rr cs") simp_all
  moreover have "int (length (rr cs)) < 2 ^ 63" using assms(2) by (simp add: maxAlloc_def)
  ultimately have "read_int64 (put_uint64 (of_int (int (length (rr cs)))) @ concat (map range_bytes (rr cs)) @ s)
      = Inr (Inr (int (length (rr cs)), concat (map range_bytes (rr cs)) @ s))"
    by (intro read_int64_put) simp_all
  moreover have "read_many read_range (length (rr cs)) (concat (map range_bytes (rr cs)) @ s) = Inr (Inr (rr cs, s))"
    by (rule read_many_append) (use assms(3) read_range_bytes in blast)
  ultimately show ?thesis using assms(1,2) n
    by (simp add: ReadIpCidrSet_def cidr_bytes_def ReadFull_def make_slice_def rd_bind_def del: of_int_of_nat_eq)
qed

lemma mapped_end_lost:
  "read_range (range_bytes \<lparr>ipr_From = Addr6 0, ipr_To = Addr6 0xffffffffffff\<rparr>)
     = Inr (Inr (\<lparr>ipr_From = Addr6 0, ipr_To = Addr4 0xffffffff\<rparr>, []))"
proof -
  have "addr_Unmap (AddrFrom16 (addr_As16 (Addr6 0))) = Addr6 0"
    "addr_Unmap (AddrFrom16 (addr_As16 (Addr6 0xffffffffffff))) = Addr4 0xffffffff"
    unfolding AddrFrom16_As16 by (simp_all add: addr_Unmap_def addr_Is4In6_def)
  then show ?thesis using ReadFull_append [of "addr_As16 (Addr6 0xffffffffffff)" 16 "[]"]
    by (simp add: read_range_def range_bytes_def ReadFull_append del: addr_As16.simps)
qed

text \<open>A length that no slice can have makes the code panic.\<close>

lemma cidr_length_panics:
  "ReadIpCidrSet ([char_of (1::nat)] @ put_uint64 0x7fffffffffffffff) = Inl (Panic ''makeslice: len out of range'')"
proof -
  have "read_int64 (put_uint64 0x7fffffffffffffff) = Inr (Inr (0x7fffffffffffffff, []))"
    using read_int64_put [of "0x7fffffffffffffff" "[]"] by simp
  then show ?thesis by (simp add: ReadIpCidrSet_def ReadFull_def make_slice_def maxAlloc_def rd_bind_def)
qed
end
