(* ===== verification/Rule_Provider.thy ===== *)
theory Rule_Provider
  imports Rule_Config Domain_Set_Bin Ip_Cidr_Set
begin

text \<open>
  The strategies of rule providers, \<open>src/rules/provider\<close>: sets of domains, sets of address ranges and lists
  of classical rules, filled from the text, YAML and binary (MRS) formats, and the conversion between
  text and MRS files. The packages for YAML and zstd are functions in the record \<open>provider_env\<close>. A zstd
  stream that breaks off reads like one that ends; the compressed bytes are written when the encoder
  is closed.

  Results are options of results that may be panics: \<open>None\<close> would be a call that does not return.
\<close>

section \<open>Behaviors and formats\<close>

datatype RuleBehavior = BehaviorDomain | BehaviorIPCIDR | BehaviorClassical

datatype RuleFormat = YamlRule | TextRule | MrsRule

fun behavior_String :: "RuleBehavior \<Rightarrow> string" where
  "behavior_String BehaviorDomain = ''Domain''"
| "behavior_String BehaviorIPCIDR = ''IPCIDR''"
| "behavior_String BehaviorClassical = ''Classical''"

fun behavior_Byte :: "RuleBehavior \<Rightarrow> char" where
  "behavior_Byte BehaviorDomain = char_of (0::nat)"
| "behavior_Byte BehaviorIPCIDR = char_of (1::nat)"
| "behavior_Byte BehaviorClassical = char_of (2::nat)"

definition ParseBehavior :: "string \<Rightarrow> RuleBehavior option" where
  "ParseBehavior s =
     (if s = ''domain'' then Some BehaviorDomain
      else if s = ''ipcidr'' then Some BehaviorIPCIDR
      else if s = ''classical'' then Some BehaviorClassical
      else None)"

fun format_String :: "RuleFormat \<Rightarrow> string" where
  "format_String YamlRule = ''YamlRule''"
| "format_String TextRule = ''TextRule''"
| "format_String MrsRule = ''MrsRule''"

definition ParseRuleFormat :: "string \<Rightarrow> RuleFormat option" where
  "ParseRuleFormat s =
     (if s = '''' \<or> s = ''yaml'' then Some YamlRule
      else if s = ''text'' then Some TextRule
      else if s = ''mrs'' then Some MrsRule
      else None)"

record RulePayload =
  pl_Payload :: "string list"
  pl_Rules :: "string list"

record provider_env =
  pe_bitmap :: bitmap_ops
  pe_netipx :: netipx_ops
  pe_rules :: rule_env
  pe_decode :: "string \<Rightarrow> bin_error + string"
  pe_encode :: "string \<Rightarrow> string"
  pe_Unmarshal :: "string \<Rightarrow> RulePayload \<Rightarrow> bool \<times> RulePayload"

section \<open>Domains\<close>

record domain_strategy =
  dom_count :: int
  dom_builder :: DomainSetBuilder
  dom_set :: "DomainSet option"

definition NewDomainStrategy :: domain_strategy where
  "NewDomainStrategy = \<lparr>dom_count = 0, dom_builder = \<lparr>b_keys = []\<rparr>, dom_set = None\<rparr>"

definition domain_Reset :: "domain_strategy \<Rightarrow> domain_strategy" where
  "domain_Reset d = d\<lparr>dom_builder := builder_Reset (dom_builder d), dom_set := None, dom_count := 0\<rparr>"

definition domain_Insert :: "string \<Rightarrow> domain_strategy \<Rightarrow> domain_strategy" where
  "domain_Insert rule d =
     (if CHR ''/'' \<in> set rule then d
      else (case builder_Insert rule (dom_builder d) of
              (Some err, b) \<Rightarrow> d\<lparr>dom_builder := b\<rparr>
            | (None, b) \<Rightarrow> d\<lparr>dom_builder := b, dom_count := dom_count d + 1\<rparr>))"

definition domain_FinishInsert :: "bitmap_ops \<Rightarrow> domain_strategy \<Rightarrow> domain_strategy option" where
  "domain_FinishInsert B d =
     (case builder_Build B (Some (dom_builder d)) of
        None \<Rightarrow> None
      | Some (ss, b) \<Rightarrow> Some (d\<lparr>dom_set := ss, dom_builder := the b\<rparr>))"

definition domain_FromMrs :: "bitmap_ops \<Rightarrow> int \<Rightarrow> domain_strategy \<Rightarrow> domain_strategy reader" where
  "domain_FromMrs B count d = rd_bind (ReadDomainSetBin B) (\<lambda>ss. rd_return (d\<lparr>dom_count := count, dom_set := Some ss\<rparr>))"

definition domain_WriteMrs :: "'w writer \<Rightarrow> domain_strategy \<Rightarrow> 'w \<Rightarrow> bin_error option \<times> 'w" where
  "domain_WriteMrs W d w = (case dom_set d of None \<Rightarrow> (Some NilSet, w) | Some ss \<Rightarrow> WriteBin W ss w)"

text \<open>The compact list of rules: a domain and its suffix rule become one \<open>+.\<close> rule.\<close>

definition TrimPrefix :: "string \<Rightarrow> string \<Rightarrow> string" where
  "TrimPrefix s p = (if HasPrefix s p then drop (length p) s else s)"

fun merge_pairs :: "string list \<Rightarrow> string list" where
  "merge_pairs (k # l # keys) =
     (let domain = TrimPrefix k ''.''
      in if domain = TrimPrefix l ''.'' then (''+.'' @ domain) # '''' # merge_pairs keys
         else k # merge_pairs (l # keys))"
| "merge_pairs keys = keys"

definition compact_rules :: "string list \<Rightarrow> string list" where
  "compact_rules keys = sort (filter (\<lambda>k. k \<noteq> '''') (merge_pairs (sort_key (\<lambda>k. TrimPrefix k ''.'') keys)))"

fun foreach_key :: "(string \<Rightarrow> 's \<Rightarrow> bool \<times> 's) \<Rightarrow> string list \<Rightarrow> 's \<Rightarrow> 's" where
  "foreach_key f [] s = s"
| "foreach_key f (k # keys) s = (case f k s of (go, s) \<Rightarrow> if \<not> go then s else foreach_key f keys s)"

definition domain_DumpMrs :: "bitmap_ops \<Rightarrow> (string \<Rightarrow> 's \<Rightarrow> bool \<times> 's) \<Rightarrow> domain_strategy \<Rightarrow> 's \<Rightarrow> 's option" where
  "domain_DumpMrs B f d s =
     (case dom_set d of
        None \<Rightarrow> Some s
      | Some ss \<Rightarrow>
          map_option (\<lambda>keys. foreach_key f (compact_rules keys) s)
            (DomainSet_Foreach B ss (\<lambda>key keys. (True, keys @ [key])) []))"

section \<open>Address ranges\<close>

record ipcidr_strategy =
  ipc_count :: int
  ipc_set :: "IpCidrSet option"

definition NewIPCidrStrategy :: ipcidr_strategy where
  "NewIPCidrStrategy = \<lparr>ipc_count = 0, ipc_set = None\<rparr>"

definition ipcidr_Reset :: "ipcidr_strategy \<Rightarrow> ipcidr_strategy" where
  "ipcidr_Reset i = i\<lparr>ipc_set := Some NewIpCidrSet, ipc_count := 0\<rparr>"

text \<open>Adding to the nil set fails only when the rule is valid, at the access to the ranges.\<close>

definition ipcidr_Insert :: "netipx_ops \<Rightarrow> string \<Rightarrow> ipcidr_strategy \<Rightarrow> ipcidr_strategy res" where
  "ipcidr_Insert X rule i =
     (case ipc_set i of
        Some cs \<Rightarrow>
          (case AddIpCidrForString X rule cs of
             (Some err, cs) \<Rightarrow> Inr (i\<lparr>ipc_set := Some cs\<rparr>)
           | (None, cs) \<Rightarrow> Inr (i\<lparr>ipc_set := Some cs, ipc_count := ipc_count i + 1\<rparr>))
      | None \<Rightarrow>
          (case AddIpCidrForString X rule NewIpCidrSet of
             (Some err, _) \<Rightarrow> Inr i
           | (None, _) \<Rightarrow> Inl NilDereference))"

definition ipcidr_FinishInsert :: "netipx_ops \<Rightarrow> ipcidr_strategy \<Rightarrow> ipcidr_strategy res" where
  "ipcidr_FinishInsert X i =
     (case ipc_set i of None \<Rightarrow> Inl NilDereference | Some cs \<Rightarrow> Inr (i\<lparr>ipc_set := Some (snd (IpCidrSet_Merge X cs))\<rparr>))"

definition ipcidr_FromMrs :: "int \<Rightarrow> ipcidr_strategy \<Rightarrow> ipcidr_strategy reader" where
  "ipcidr_FromMrs count i = rd_bind ReadIpCidrSet (\<lambda>cs. rd_return (i\<lparr>ipc_count := count, ipc_set := Some cs\<rparr>))"

definition ipcidr_WriteMrs :: "'w writer \<Rightarrow> ipcidr_strategy \<Rightarrow> 'w \<Rightarrow> bin_error option \<times> 'w" where
  "ipcidr_WriteMrs W i w = (case ipc_set i of None \<Rightarrow> (Some NilSet, w) | Some cs \<Rightarrow> IpCidrSet_WriteBin W cs w)"

definition ipcidr_DumpMrs :: "netipx_ops \<Rightarrow> (string \<Rightarrow> 's \<Rightarrow> bool \<times> 's) \<Rightarrow> ipcidr_strategy \<Rightarrow> 's \<Rightarrow> 's" where
  "ipcidr_DumpMrs X f i s =
     (case ipc_set i of None \<Rightarrow> s | Some cs \<Rightarrow> IpCidrSet_Foreach X (\<lambda>p. f (prefix_String p)) cs s)"

section \<open>The interface\<close>

datatype strategy = DomainStrategy domain_strategy | IPCIDRStrategy ipcidr_strategy | ClassicalStrategy classical

fun newStrategy :: "RuleBehavior \<Rightarrow> strategy" where
  "newStrategy BehaviorDomain = DomainStrategy NewDomainStrategy"
| "newStrategy BehaviorIPCIDR = IPCIDRStrategy NewIPCidrStrategy"
| "newStrategy BehaviorClassical = ClassicalStrategy NewClassicalStrategy"

fun strategy_Behavior :: "strategy \<Rightarrow> RuleBehavior" where
  "strategy_Behavior (DomainStrategy d) = BehaviorDomain"
| "strategy_Behavior (IPCIDRStrategy i) = BehaviorIPCIDR"
| "strategy_Behavior (ClassicalStrategy c) = BehaviorClassical"

fun strategy_Count :: "strategy \<Rightarrow> int" where
  "strategy_Count (DomainStrategy d) = dom_count d"
| "strategy_Count (IPCIDRStrategy i) = ipc_count i"
| "strategy_Count (ClassicalStrategy c) = int (cl_count c)"

fun strategy_Reset :: "strategy \<Rightarrow> strategy" where
  "strategy_Reset (DomainStrategy d) = DomainStrategy (domain_Reset d)"
| "strategy_Reset (IPCIDRStrategy i) = IPCIDRStrategy (ipcidr_Reset i)"
| "strategy_Reset (ClassicalStrategy c) = ClassicalStrategy (classical_Reset c)"

fun strategy_Insert :: "provider_env \<Rightarrow> string \<Rightarrow> strategy \<Rightarrow> strategy res" where
  "strategy_Insert P rule (DomainStrategy d) = Inr (DomainStrategy (domain_Insert rule d))"
| "strategy_Insert P rule (IPCIDRStrategy i) = rbind (ipcidr_Insert (pe_netipx P) rule i) (\<lambda>i. Inr (IPCIDRStrategy i))"
| "strategy_Insert P rule (ClassicalStrategy c) = Inr (ClassicalStrategy (classical_Insert (pe_rules P) rule c))"

fun strategy_FinishInsert :: "provider_env \<Rightarrow> strategy \<Rightarrow> strategy res option" where
  "strategy_FinishInsert P (DomainStrategy d) =
     map_option (\<lambda>d. Inr (DomainStrategy d)) (domain_FinishInsert (pe_bitmap P) d)"
| "strategy_FinishInsert P (IPCIDRStrategy i) = Some (rbind (ipcidr_FinishInsert (pe_netipx P) i) (\<lambda>i. Inr (IPCIDRStrategy i)))"
| "strategy_FinishInsert P (ClassicalStrategy c) = Some (Inr (ClassicalStrategy c))"

text \<open>What the rules see of a strategy, as in \<open>Rules_Logic\<close>; a search that does not return finds nothing.\<close>

fun strategy_matcher :: "provider_env \<Rightarrow> strategy \<Rightarrow> ruleStrategy" where
  "strategy_matcher P (DomainStrategy d) =
     domainStrategy (\<lambda>host. dom_set d \<noteq> None \<and> Has (pe_bitmap P) (dom_set d) host = Some True)"
| "strategy_matcher P (IPCIDRStrategy i) =
     ipcidrStrategy (\<lambda>ip. case ipc_set i of None \<Rightarrow> False | Some cs \<Rightarrow> IsContain (pe_netipx P) cs ip)"
| "strategy_matcher P (ClassicalStrategy c) = classicalStrategy (cl_rules c)"

section \<open>MRS files\<close>

definition MrsMagicBytes :: string where
  "MrsMagicBytes = ''MRS'' @ [char_of (1::nat)]"

fun strategy_FromMrs :: "provider_env \<Rightarrow> int \<Rightarrow> strategy \<Rightarrow> strategy reader" where
  "strategy_FromMrs P count (DomainStrategy d) =
     rd_bind (domain_FromMrs (pe_bitmap P) count d) (\<lambda>d. rd_return (DomainStrategy d))"
| "strategy_FromMrs P count (IPCIDRStrategy i) = rd_bind (ipcidr_FromMrs count i) (\<lambda>i. rd_return (IPCIDRStrategy i))"
| "strategy_FromMrs P count (ClassicalStrategy c) = rd_error InvalidFormat"

fun strategy_WriteMrs :: "'w writer \<Rightarrow> strategy \<Rightarrow> 'w \<Rightarrow> bin_error option \<times> 'w" where
  "strategy_WriteMrs W (DomainStrategy d) w = domain_WriteMrs W d w"
| "strategy_WriteMrs W (IPCIDRStrategy i) w = ipcidr_WriteMrs W i w"
| "strategy_WriteMrs W (ClassicalStrategy c) w = (Some InvalidFormat, w)"

fun strategy_DumpMrs :: "provider_env \<Rightarrow> (string \<Rightarrow> 's \<Rightarrow> bool \<times> 's) \<Rightarrow> strategy \<Rightarrow> 's \<Rightarrow> 's option" where
  "strategy_DumpMrs P f (DomainStrategy d) s = domain_DumpMrs (pe_bitmap P) f d s"
| "strategy_DumpMrs P f (IPCIDRStrategy i) s = Some (ipcidr_DumpMrs (pe_netipx P) f i s)"
| "strategy_DumpMrs P f (ClassicalStrategy c) s = Some s"

definition read_mrs :: "provider_env \<Rightarrow> strategy \<Rightarrow> strategy reader" where
  "read_mrs P strategy =
     rd_bind (ReadFull 4) (\<lambda>header.
       if header \<noteq> MrsMagicBytes then rd_error InvalidMagic
       else rd_bind (ReadFull 1) (\<lambda>b.
         if b ! 0 \<noteq> behavior_Byte (strategy_Behavior strategy) then rd_error InvalidBehavior
         else rd_bind read_int64 (\<lambda>count. rd_bind read_int64 (\<lambda>n.
           if n < 0 then rd_error LengthInvalid
           else rd_bind (if n > 0 then rd_bind (make_slice n 1) (\<lambda>_. ReadFull (nat n)) else rd_return []) (\<lambda>extra.
             strategy_FromMrs P count strategy)))))"

definition rulesMrsParse :: "provider_env \<Rightarrow> string \<Rightarrow> strategy \<Rightarrow> (bin_error + strategy) res" where
  "rulesMrsParse P buf strategy =
     (case strategy of
        ClassicalStrategy _ \<Rightarrow> Inr (Inl InvalidFormat)
      | _ \<Rightarrow>
          (case pe_decode P buf of
             Inl e \<Rightarrow> Inr (Inl e)
           | Inr s \<Rightarrow> rbind (read_mrs P strategy s) (\<lambda>r. case r of Inl e \<Rightarrow> Inr (Inl e) | Inr (st, _) \<Rightarrow> Inr (Inr st))))"

section \<open>Text and YAML files\<close>

definition first_line :: "string \<Rightarrow> string" where
  "first_line buf = (if CHR 0x0A \<in> set buf then takeWhile (\<lambda>c. c \<noteq> CHR 0x0A) buf @ [CHR 0x0A] else buf)"

text \<open>The rule in a line of a text file, if any.\<close>

definition text_rule :: "string \<Rightarrow> string option" where
  "text_rule line =
     (let str = TrimSpace line
      in if length str = 0 then None
         else if str ! 0 = CHR ''#'' then None
         else if HasPrefix str ''//'' then None
         else Some str)"

text \<open>
  A line of a YAML file: the first line that can be the head of a list is kept in \<open>head\<close>, and every
  later line is read together with it.
\<close>

definition yaml_rule :: "(string \<Rightarrow> RulePayload \<Rightarrow> bool \<times> RulePayload) \<Rightarrow> string \<Rightarrow> string \<Rightarrow> RulePayload
    \<Rightarrow> string option \<times> string \<times> RulePayload" where
  "yaml_rule Unmarshal line head schema =
     (let trimLine = TrimSpace line
      in if length trimLine = 0 then (None, head, schema)
         else if trimLine ! 0 = CHR ''#'' then (None, head, schema)
         else if head = '''' then
           (case Unmarshal (line @ ''  - '' @ [CHR 0x27, CHR 0x27]) schema of
              (failed, schema) \<Rightarrow>
                if \<not> failed \<and> (length (pl_Rules schema) > 0 \<or> length (pl_Payload schema) > 0) then (None, line, schema)
                else (None, '''', schema))
         else
           (case Unmarshal (head @ line) schema of
              (failed, schema) \<Rightarrow>
                if failed then (None, head, schema)
                else if length (pl_Payload schema) > 0 then (Some (pl_Payload schema ! 0), head, schema)
                else if length (pl_Rules schema) > 0 then (Some (pl_Rules schema ! 0), head, schema)
                else (None, head, schema)))"

text \<open>One line: the rule in it and the new state of the loop, or the error for an unknown format.\<close>

definition line_rule :: "provider_env \<Rightarrow> RuleFormat \<Rightarrow> string \<Rightarrow> string \<Rightarrow> RulePayload
    \<Rightarrow> bin_error + string option \<times> string \<times> RulePayload" where
  "line_rule P form line head schema =
     (case form of
        TextRule \<Rightarrow> Inr (text_rule line, head, schema)
      | YamlRule \<Rightarrow> Inr (yaml_rule (pe_Unmarshal P) line head schema)
      | MrsRule \<Rightarrow> Inl InvalidFormat)"

function parse_loop :: "provider_env \<Rightarrow> RuleFormat \<Rightarrow> string \<Rightarrow> string \<Rightarrow> RulePayload \<Rightarrow> strategy \<Rightarrow> (bin_error + strategy) res" where
  "parse_loop P form buf head schema strategy =
     (if buf = [] then Inr (Inr strategy)
      else
        (let line = first_line buf; rest = drop (length line) buf
         in if CHR 0x0A \<notin> set buf \<and> head = '''' \<and> form = YamlRule then Inr (Inl ErrNoPayload)
            else (case line_rule P form line head schema of
                    Inl e \<Rightarrow> Inr (Inl e)
                  | Inr (rule, head, schema) \<Rightarrow>
                      (case rule of
                         None \<Rightarrow> parse_loop P form rest head schema strategy
                       | Some str \<Rightarrow>
                           if str = '''' then parse_loop P form rest head schema strategy
                           else rbind (strategy_Insert P str strategy) (\<lambda>strategy.
                                  parse_loop P form rest head schema strategy)))))"
  by pat_completeness auto
termination
  by (relation "measure (\<lambda>(P, form, buf, head, schema, strategy). length buf)") (auto simp: first_line_def)

declare parse_loop.simps [simp del]

definition rulesParse :: "provider_env \<Rightarrow> string \<Rightarrow> strategy \<Rightarrow> RuleFormat \<Rightarrow> (bin_error + strategy) res option" where
  "rulesParse P buf strategy form =
     (let strategy = strategy_Reset strategy
      in if form = MrsRule then Some (rulesMrsParse P buf strategy)
         else (case parse_loop P form buf '''' \<lparr>pl_Payload = [], pl_Rules = []\<rparr> strategy of
                 Inl p \<Rightarrow> Some (Inl p)
               | Inr (Inl e) \<Rightarrow> Some (Inr (Inl e))
               | Inr (Inr strategy) \<Rightarrow>
                   map_option (\<lambda>r. rbind r (\<lambda>st. Inr (Inr st))) (strategy_FinishInsert P strategy)))"

text \<open>\<open>rulesParseInline\<close> at any strategy.\<close>

fun insert_each :: "provider_env \<Rightarrow> string list \<Rightarrow> strategy \<Rightarrow> strategy res" where
  "insert_each P [] strategy = Inr strategy"
| "insert_each P (r # rs) strategy =
     (if r \<noteq> '''' then rbind (strategy_Insert P r strategy) (\<lambda>strategy. insert_each P rs strategy)
      else insert_each P rs strategy)"

definition parseInline :: "provider_env \<Rightarrow> string list \<Rightarrow> strategy \<Rightarrow> strategy res option" where
  "parseInline P rs strategy =
     (case insert_each P rs (strategy_Reset strategy) of
        Inl p \<Rightarrow> Some (Inl p)
      | Inr strategy \<Rightarrow> strategy_FinishInsert P strategy)"

section \<open>Conversion\<close>

text \<open>The bytes that go into the encoder.\<close>

definition write_mrs :: "'w writer \<Rightarrow> RuleBehavior \<Rightarrow> strategy \<Rightarrow> 'w \<Rightarrow> bin_error option \<times> 'w" where
  "write_mrs W behavior strategy =
     wr_seq (W MrsMagicBytes)
    (wr_seq (W [behavior_Byte behavior])
    (wr_seq (write_int64 W (strategy_Count strategy))
    (wr_seq (write_int64 W 0)
    (wr_seq (W [])
    (strategy_WriteMrs W strategy)))))"

definition ConvertToMrs :: "provider_env \<Rightarrow> string \<Rightarrow> RuleBehavior \<Rightarrow> RuleFormat \<Rightarrow> 'w writer \<Rightarrow> 'w
    \<Rightarrow> (bin_error option \<times> 'w) res option" where
  "ConvertToMrs P buf behavior form W w =
     (case rulesParse P buf (newStrategy behavior) form of
        None \<Rightarrow> None
      | Some (Inl p) \<Rightarrow> Some (Inl p)
      | Some (Inr (Inl e)) \<Rightarrow> Some (Inr (Some e, w))
      | Some (Inr (Inr strategy)) \<Rightarrow>
          if strategy_Count strategy = 0 then Some (Inr (Some EmptyRule, w))
          else (case strategy of
             ClassicalStrategy _ \<Rightarrow> Some (Inr (Some InvalidFormat, w))
           | _ \<Rightarrow>
               if form = MrsRule then
                 map_option (\<lambda>w. Inr (None, w))
                   (strategy_DumpMrs P (\<lambda>key w. case W (key @ [CHR 0x0A]) w of (err, w) \<Rightarrow> (err = None, w)) strategy w)
               else
                 (case write_mrs buffer behavior strategy [] of
                    (err, out) \<Rightarrow>
                      (case W (pe_encode P out) w of
                         (zstdErr, w) \<Rightarrow> Some (Inr (if err = None then zstdErr else err, w))))))"
end
