(* ===== verification/Domain_Set_Listing.thy ===== *)
theory Domain_Set_Listing
  imports Domain_Set_Search
begin

text \<open>
  The traversal of a domain set visits its keys in ascending order, each once, with the number of
  the node where the key ends, and stops when the callback asks for it.
\<close>

section \<open>Visiting a list\<close>

fun visit :: "(string \<Rightarrow> nat \<Rightarrow> 's \<Rightarrow> bool \<times> 's) \<Rightarrow> (string \<times> nat) list \<Rightarrow> 's \<Rightarrow> bool \<times> 's" where
  "visit f [] s = (True, s)"
| "visit f ((k, n) # xs) s = (case f k n s of (go, s) \<Rightarrow> if go then visit f xs s else (False, s))"

lemma visit_append:
  "visit f (xs @ ys) s = (case visit f xs s of (go, s) \<Rightarrow> if go then visit f ys s else (False, s))"
  by (induction f xs s rule: visit.induct) (auto split: prod.splits)

lemma visit_collect: "visit (\<lambda>k n acc. (True, acc @ [g k n])) xs acc = (True, acc @ map (\<lambda>(k, n). g k n) xs)"
  by (induction xs arbitrary: acc) auto

section \<open>The keys below a node\<close>

definition edge_suffixes :: "(char \<times> string list) list \<Rightarrow> string list" where
  "edge_suffixes G = concat (map (\<lambda>(c, T). map ((#) c) T) G)"

lemma groups_suffixes: "[] \<notin> set T \<Longrightarrow> edge_suffixes (groups T) = T"
proof (induction T rule: groups.induct)
  case (3 c p T)
  have "map ((#) c) (map tl (takeWhile (starts c) T)) = takeWhile (starts c) T"
    by (induction T) (auto simp: starts_def)
  moreover have "[] \<notin> set (dropWhile (starts c) T)" using "3.prems" by (auto dest: set_dropWhileD)
  ultimately show ?case using "3.IH" by (simp add: edge_suffixes_def del: map_map)
qed (simp_all add: edge_suffixes_def)

lemma sorted_suffixes:
  assumes "sorted_wrt (<) T"
  shows "T = (if [] \<in> set T then [[]] else []) @ edge_suffixes (groups T)"
proof (cases T)
  case (Cons p T')
  have "[] \<notin> set T'" using strict_above(1) assms Cons by blast
  then have "edge_suffixes (groups T') = T'" by (rule groups_suffixes)
  with Cons \<open>[] \<notin> set T'\<close> groups_suffixes [of T] show ?thesis by (cases p) simp_all
qed (simp add: edge_suffixes_def)

text \<open>A listing of keys with the nodes where they end.\<close>

definition ends_at :: "tnode list \<Rightarrow> (string \<times> nat) list \<Rightarrow> bool" where
  "ends_at N L \<longleftrightarrow> (\<forall>(k, n)\<in>set L. n < length N \<and> is_leaf (N ! n) \<and> fst (N ! n) = k)"

context bitmap_index
begin

lemma traverse_edges:
  assumes w: "walkable B ss N" and "n < length N" "k \<le> degree N n"
  shows "\<exists>L. map fst L = map ((@) (fst (N ! n))) (edge_suffixes (drop k (groups (snd (N ! n))))) \<and> ends_at N L \<and>
    (\<forall>s. traverse B ss f False n (start N n + k) (fst (N ! n)) s = Some (visit f L s))"
  using assms(2,3)
proof (induction "edges_weight (drop k (groups (snd (N ! n))))" arbitrary: n k rule: less_induct)
  case less
  let ?G = "groups (snd (N ! n))" and ?w = "fst (N ! n)"
  show ?case
  proof (cases "k = degree N n")
    case True
    then have "traverse B ss f False n (start N n + k) ?w s = Some (visit f [] s)" for s
      using walk_end [OF w less.prems(1)] by (subst traverse.simps) simp
    moreover have "drop k ?G = []" using True by (simp add: degree_def)
    ultimately show ?thesis by (intro exI [of _ "[]"]) (simp add: edge_suffixes_def ends_at_def)
  next
    case False
    then have k: "k < degree N n" using less.prems(2) by simp
    define e where "e = ?G ! k"
    define m where "m = start N n + k - n + 1"
    note edge = walk_edge [OF w less.prems(1) k, folded e_def m_def]
    note lighter = edges_weight_skip [OF k e_def] edges_weight_node [of "snd e"]
    have m0: "0 < m" by (simp add: m_def)
    have Nm: "snd (N ! m) = snd e" "fst (N ! m) = ?w @ [fst e]" using edge(4) by simp_all
    obtain L1 where L1: "map fst L1 = map ((@) (fst (N ! m))) (edge_suffixes (drop 0 (groups (snd (N ! m)))))"
      "ends_at N L1" "\<forall>s. traverse B ss f False m (start N m + 0) (fst (N ! m)) s = Some (visit f L1 s)"
      using less.hyps [of 0 m] lighter edge(3) Nm by auto
    obtain L2 where L2: "map fst L2 = map ((@) ?w) (edge_suffixes (drop (k + 1) ?G))"
      "ends_at N L2" "\<forall>s. traverse B ss f False n (start N n + (k + 1)) ?w s = Some (visit f L2 s)"
      using less.hyps [of "k + 1" n] lighter less.prems(1) k by auto
    let ?L0 = "if is_leaf (N ! m) then [(fst (N ! m), m)] else []"
    have "N ! m \<in> set N" using edge(3) by simp
    then have "sorted_wrt (<) (snd e)" using w unfolding walkable_def trie_ok_def Nm(1) [symmetric] by blast
    then have T: "snd e = (if is_leaf (N ! m) then [[]] else []) @ edge_suffixes (groups (snd e))"
      using sorted_suffixes [of "snd e"] by (simp add: is_leaf_def Nm)
    define Lc where "Lc = ?L0 @ L1"
    have "map fst Lc = map ((@) (fst (N ! m))) (snd e)"
      using L1(1) unfolding Nm Lc_def by (subst T) simp
    then have child: "map fst Lc = map ((@) ?w) (map ((#) (fst e)) (snd e))" by (simp add: Nm)
    have enter: "traverse B ss f True m (start N m) (fst (N ! m)) s = Some (visit f Lc s)" for s
      using L1(3) walk_leaf [OF w edge(3)] unfolding Lc_def
      by (subst traverse.simps) (auto simp: visit_append split: prod.splits)
    have "drop k ?G = e # drop (k + 1) ?G" using k by (simp add: e_def degree_def Cons_nth_drop_Suc)
    then have "map fst (Lc @ L2) = map ((@) ?w) (edge_suffixes (drop k ?G))"
      using child L2(1) unfolding map_append by (simp add: edge_suffixes_def split_beta)
    moreover have "ends_at N (Lc @ L2)" using L1(2) L2(2) edge(3) unfolding Lc_def by (auto simp: ends_at_def)
    moreover have "traverse B ss f False n (start N n + k) ?w s = Some (visit f (Lc @ L2) s)" for s
    proof -
      obtain go s' where v: "visit f Lc s = (go, s')" by (cases "visit f Lc s")
      have "start N n + k - n = m - Suc 0" "Suc (m - Suc 0) = m" by (simp_all add: m_def)
      with v enter [of s, unfolded Nm(2)] edge(1,2) L2(3) walk_first [OF w edge(3) m0] show ?thesis
        by (subst traverse.simps) (simp add: visit_append Let_def)
    qed
    ultimately show ?thesis by blast
  qed
qed

lemma DomainSet_keys_visits:
  assumes w: "walkable B ss (trie_nodes keys)"
  shows "\<exists>L. map fst L = Compact (sort keys) \<and> ends_at (trie_nodes keys) L \<and>
    (\<forall>s. DomainSet_keys B ss f s = Some (snd (visit f L s)))"
proof -
  let ?N = "trie_nodes keys" and ?r = "([], Compact (sort keys)) :: tnode"
  have N: "?N = ?r # concat (map kids ?N)" unfolding trie_nodes_def by (rule bfs_root)
  then have root: "?N ! 0 = ?r" "0 < length ?N" by (metis nth_Cons_0) (metis N length_greater_0_conv list.distinct(1))
  from traverse_edges [OF w root(2), of 0 f] obtain L where
    L: "map fst L = map ((@) (fst (?N ! 0))) (edge_suffixes (drop 0 (groups (snd (?N ! 0)))))" "ends_at ?N L"
      "\<forall>s. traverse B ss f False 0 (start ?N 0 + 0) (fst (?N ! 0)) s = Some (visit f L s)" by auto
  let ?L0 = "if is_leaf (?N ! 0) then [([], 0)] else []"
  have "map fst (?L0 @ L) = Compact (sort keys)"
  proof -
    have "map ((@) []) xs = xs" for xs :: "string list" by (induction xs) simp_all
    then have "map fst L = edge_suffixes (groups (Compact (sort keys)))" using L(1) by (simp add: root)
    then show ?thesis using sorted_suffixes [of "Compact (sort keys)"] Compact_sort [of keys]
      by (auto simp: root is_leaf_def)
  qed
  moreover have "ends_at ?N (?L0 @ L)" using L(2) root by (auto simp: ends_at_def)
  moreover have "DomainSet_keys B ss f s = Some (snd (visit f (?L0 @ L) s))" for s
  proof -
    have "traverse B ss f True 0 0 [] s = Some (visit f (?L0 @ L) s)"
      using L(3) walk_leaf [OF w root(2)] root(1)
      by (subst traverse.simps) (auto simp: visit_append split: prod.splits)
    then show ?thesis by (simp add: DomainSet_keys_def)
  qed
  ultimately show ?thesis by blast
qed

text \<open>\<open>Foreach\<close> with a callback that collects.\<close>

lemma DomainSet_Foreach_lists:
  assumes "walkable B ss (trie_nodes keys)"
  shows "DomainSet_Foreach B ss (\<lambda>d acc. (True, acc @ [d])) [] =
    Some (map (\<lambda>k. rev (TrimSuffix k complexWildcard)) (Compact (sort keys)))"
proof -
  let ?g = "\<lambda>k (n::nat). rev (TrimSuffix k complexWildcard)"
  from DomainSet_keys_visits [OF assms, of "\<lambda>k n acc. (True, acc @ [?g k n])"] obtain L where
    L: "map fst L = Compact (sort keys)"
      "DomainSet_keys B ss (\<lambda>k n acc. (True, acc @ [?g k n])) [] = Some (snd (visit (\<lambda>k n acc. (True, acc @ [?g k n])) L []))"
    by auto
  have "map (\<lambda>(k, n). ?g k n) L = map (\<lambda>k. rev (TrimSuffix k complexWildcard)) (map fst L)" by (simp add: split_beta)
  with L show ?thesis by (simp add: DomainSet_Foreach_def visit_collect)
qed

end
end
