(* ===== verification/Rule_Provider_Properties.thy ===== *)
theory Rule_Provider_Properties
  imports Rule_Provider Domain_Set_Properties Domain_Set_Listing
begin

text \<open>
  The properties of rule providers: a file of domains in text form, converted to MRS and read back,
  gives the same strategy, and so does the text that the MRS file is converted to.
\<close>

section \<open>The rules of a text file\<close>

function text_rules :: "string \<Rightarrow> string list" where
  "text_rules buf =
     (if buf = [] then []
      else (case text_rule (first_line buf) of None \<Rightarrow> [] | Some r \<Rightarrow> [r]) @ text_rules (drop (length (first_line buf)) buf))"
  by pat_completeness auto
termination by (relation "measure length") (auto simp: first_line_def)

declare text_rules.simps [simp del]

lemma length_TrimSpace: "length (TrimSpace s) \<le> length s"
  by (simp add: TrimSpace_def length_trim_by)

lemma text_rules_length: "sum_list (map length (text_rules buf)) \<le> length buf"
proof (induction buf rule: text_rules.induct)
  case (1 buf)
  show ?case
  proof (cases "buf = []")
    case False
    let ?l = "first_line buf"
    have l: "length ?l \<le> length buf"
    proof (cases "CHR 0x0A \<in> set buf")
      case True
      then have "length (takeWhile (\<lambda>c. c \<noteq> CHR 0x0A) buf) < length buf"
        by (induction buf) auto
      then show ?thesis using True by (simp add: first_line_def)
    qed (simp add: first_line_def)
    have "sum_list (map length (case text_rule ?l of None \<Rightarrow> [] | Some r \<Rightarrow> [r])) \<le> length ?l"
      using length_TrimSpace [of ?l] by (auto simp: text_rule_def Let_def)
    moreover have "sum_list (map length (text_rules (drop (length ?l) buf))) \<le> length buf - length ?l"
      using 1 [OF False] by simp
    ultimately show ?thesis using False l by (subst text_rules.simps) simp
  qed (simp add: text_rules.simps)
qed

lemma parse_loop_text:
  "parse_loop P TextRule buf head schema (DomainStrategy d) = Inr (Inr (DomainStrategy (fold domain_Insert (text_rules buf) d)))"
proof (induction buf arbitrary: d rule: text_rules.induct)
  case (1 buf)
  show ?case
  proof (cases "buf = []")
    case False
    let ?rest = "drop (length (first_line buf)) buf"
    have "r \<noteq> []" if "text_rule l = Some r" for l r using that by (auto simp: text_rule_def Let_def split: if_splits)
    with False "1.IH" [OF False] show ?thesis
      by (cases "text_rule (first_line buf)")
        (simp_all add: parse_loop.simps [of P TextRule buf head schema "DomainStrategy d"] text_rules.simps [of buf] line_rule_def Let_def)
  qed (simp add: parse_loop.simps text_rules.simps)
qed

section \<open>The strategy of a list of rules\<close>

definition accepted :: "string list \<Rightarrow> string list" where
  "accepted rs = filter (\<lambda>r. CHR ''/'' \<notin> set r \<and> (\<exists>pat. ValidAndSplitDomain r = Inr pat)) rs"

lemma builder_Insert_cases:
  "builder_Insert r b = (case ValidAndSplitDomain r of Inl e \<Rightarrow> (Some e, b) | Inr _ \<Rightarrow> (None, snd (builder_Insert r b)))"
  by (simp add: builder_Insert_def split: sum.splits)

lemma fold_domain_Insert:
  "fold domain_Insert rs d = d\<lparr>dom_builder := fold (\<lambda>p b. snd (builder_Insert p b)) (accepted rs) (dom_builder d),
     dom_count := dom_count d + int (length (accepted rs))\<rparr>"
proof (induction rs arbitrary: d)
  case (Cons r rs)
  show ?case
  proof (cases "CHR ''/'' \<in> set r")
    case True
    with Cons show ?thesis by (simp add: domain_Insert_def accepted_def)
  next
    case False
    show ?thesis
    proof (cases "ValidAndSplitDomain r")
      case (Inl e)
      then have "domain_Insert r d = d" using False by (simp add: domain_Insert_def builder_Insert_def)
      with Cons Inl show ?thesis by (simp add: accepted_def)
    next
      case (Inr pat)
      then obtain b where "builder_Insert r (dom_builder d) = (None, b)"
        using builder_Insert_cases [of r "dom_builder d"] by simp
      then have "domain_Insert r d = d\<lparr>dom_builder := snd (builder_Insert r (dom_builder d)), dom_count := dom_count d + 1\<rparr>"
        using False by (simp add: domain_Insert_def)
      with Cons Inr False show ?thesis by (simp add: accepted_def)
    qed
  qed
qed (simp add: accepted_def)

text \<open>The strategy that parsing a text file gives.\<close>

definition domains_of :: "bitmap_ops \<Rightarrow> string list \<Rightarrow> domain_strategy \<Rightarrow> bool" where
  "domains_of B rs d \<longleftrightarrow> dom_count d = int (length (accepted rs)) \<and> dom_builder d = \<lparr>b_keys = []\<rparr> \<and>
     buildDomainSet B (b_keys (insert_all (accepted rs))) None () = Some (dom_set d, ())"

lemma rulesParse_text:
  "\<exists>d. rulesParse P buf (newStrategy BehaviorDomain) TextRule = Some (Inr (Inr (DomainStrategy d)))
     \<and> domains_of (pe_bitmap P) (text_rules buf) d"
proof -
  let ?keys = "b_keys (insert_all (accepted (text_rules buf)))"
  have "\<exists>ss. buildDomainSet (pe_bitmap P) ?keys None () = Some (ss, ())"
    using buildDomainSet_stores [of ?keys "pe_bitmap P" None "()"] by (cases "?keys = []") (auto simp: buildDomainSet_def)
  then obtain ss where ss: "buildDomainSet (pe_bitmap P) ?keys None () = Some (ss, ())" by blast
  have b: "dom_builder (fold domain_Insert (text_rules buf) (domain_Reset NewDomainStrategy)) = insert_all (accepted (text_rules buf))"
    "dom_count (fold domain_Insert (text_rules buf) (domain_Reset NewDomainStrategy)) = int (length (accepted (text_rules buf)))"
    by (simp_all add: fold_domain_Insert insert_all_def domain_Reset_def NewDomainStrategy_def builder_Reset_def)
  show ?thesis using ss
    by (simp add: rulesParse_def parse_loop_text domain_FinishInsert_def builder_Build_def b domains_of_def)
qed

text \<open>The set is there exactly if a rule was accepted, and then it can be written and read.\<close>

lemma accepted_keys: "accepted rs \<noteq> [] \<Longrightarrow> \<exists>k\<in>set (b_keys (insert_all (accepted rs))). k \<noteq> []"
proof -
  assume "accepted rs \<noteq> []"
  then obtain r where "r \<in> set (accepted rs)" by (cases "accepted rs") auto
  then obtain pat where r: "ValidAndSplitDomain r = Inr pat" "r \<in> set (accepted rs)" by (auto simp: accepted_def)
  obtain q where q: "q \<in> set (expand pat)" by (cases "hd pat = complexWildcard") (auto simp: expand_def)
  then have "path_key q \<in> set (b_keys (insert_all (accepted rs)))"
    unfolding insert_all_keys pattern_paths_def using r by blast
  moreover have "path_key q \<noteq> []"
  proof -
    have "good_path q" by (rule expand_good [OF r(1) q])
    then show ?thesis
      by (cases q) (auto simp: good_path_def path_key_Cons pattern_label_def plain_label_def complexWildcard_def split: if_splits)
  qed
  ultimately show ?thesis by blast
qed

lemma accepted_length: "sum_list (map length (accepted rs)) \<le> sum_list (map length rs)"
  by (induction rs) (auto simp: accepted_def)

lemma accepted_count: "length (accepted rs) \<le> sum_list (map length rs)"
proof (induction rs)
  case (Cons r rs)
  have "r \<noteq> []" if "ValidAndSplitDomain r = Inr pat" for pat
    using that by (auto simp: ValidAndSplitDomain_def split: if_splits)
  with Cons show ?case by (cases r) (auto simp: accepted_def)
qed (simp add: accepted_def)

lemma domains_of_set:
  assumes "domains_of B rs d" and "accepted rs \<noteq> []" and "sum_list (map length rs) < 2 ^ 29 - 16"
  shows "\<exists>ss. dom_set d = Some ss \<and> stores B ss (trie_nodes (b_keys (insert_all (accepted rs))))
    \<and> fits32 (ds_labelBitmap ss) \<and> storable ss"
proof -
  let ?keys = "b_keys (insert_all (accepted rs))"
  have k: "\<exists>k\<in>set ?keys. k \<noteq> []" by (rule accepted_keys [OF assms(2)])
  then have ne: "?keys \<noteq> []" by auto
  from buildDomainSet_stores [OF ne, of B None "()"] assms(1) obtain ss where
    ss: "dom_set d = Some ss" "stores B ss (trie_nodes ?keys)" by (auto simp: domains_of_def)
  have "2 * sum_list (map length ?keys) + 65 < 2 ^ 31"
    using insert_all_length [of "accepted rs"] accepted_length [of rs] assms(3) by simp
  then have "fits32 (ds_labelBitmap ss)" by (rule stores_fits [OF ss(2)])
  with ss built_storable [OF ss(2) _ ne k] show ?thesis by blast
qed

lemma domains_of_Has:
  assumes "bitmap_index B" and "domains_of B rs d" and "sum_list (map length rs) < 2 ^ 29 - 16" and "searchable host labels"
  shows "Has B (dom_set d) host = Some (\<exists>r\<in>set rs. CHR ''/'' \<notin> set r \<and> (\<exists>pat. ValidAndSplitDomain r = Inr pat \<and> covers pat labels))"
proof -
  let ?ps = "accepted rs"
  have "\<forall>q\<in>pattern_paths ?ps. good_path q" using expand_good by (auto simp: pattern_paths_def)
  from bitmap_index.Has_paths [OF assms(1) insert_all_keys this assms(4)] assms(2)
  have "2 * sum_list (map length (b_keys (insert_all ?ps))) + 65 < 2 ^ 31 \<longrightarrow> set_fits (dom_set d)"
    "set_fits (dom_set d) \<longrightarrow> Has B (dom_set d) host = Some (\<exists>q\<in>pattern_paths ?ps. pmatch q (rev labels))"
    by (auto simp: domains_of_def)
  moreover have "2 * sum_list (map length (b_keys (insert_all ?ps))) + 65 < 2 ^ 31"
    using insert_all_length [of ?ps] accepted_length [of rs] assms(3) by simp
  moreover have "(\<exists>p\<in>set ?ps. \<exists>pat. ValidAndSplitDomain p = Inr pat \<and> covers pat labels) \<longleftrightarrow>
      (\<exists>r\<in>set rs. CHR ''/'' \<notin> set r \<and> (\<exists>pat. ValidAndSplitDomain r = Inr pat \<and> covers pat labels))"
    by (auto simp: accepted_def)
  ultimately show ?thesis unfolding pattern_paths_covers by simp
qed

lemma stores_init: "stores B ss N \<Longrightarrow> ss = ds_init B (ds_leaves ss) (ds_labelBitmap ss) (ds_labels ss)"
  by (simp add: stores_def ds_init_def)

section \<open>Text to MRS and back\<close>

definition mrs_header :: "RuleBehavior \<Rightarrow> int \<Rightarrow> string" where
  "mrs_header behavior count = MrsMagicBytes @ [behavior_Byte behavior] @ put_uint64 (of_int count) @ put_uint64 0"

lemma write_mrs_domain:
  "dom_set d = Some ss \<Longrightarrow>
     write_mrs buffer BehaviorDomain (DomainStrategy d) [] = (None, mrs_header BehaviorDomain (dom_count d) @ set_bytes ss)"
  by (simp add: write_mrs_def wr_seq_def buffer_def write_int64_def domain_WriteMrs_def WriteBin_buffer mrs_header_def)

lemma read_mrs_header:
  assumes "0 \<le> count" and "count < 2 ^ 63" and "strategy_Behavior st = behavior"
  shows "read_mrs P st (mrs_header behavior count @ s) = strategy_FromMrs P count st s"
proof -
  have "ReadFull 4 (mrs_header behavior count @ s) = Inr (Inr (MrsMagicBytes, [behavior_Byte behavior] @ put_uint64 (of_int count) @ put_uint64 0 @ s))"
    by (simp add: ReadFull_def mrs_header_def MrsMagicBytes_def)
  moreover have "ReadFull 1 ([behavior_Byte behavior] @ put_uint64 (of_int count) @ put_uint64 0 @ s)
      = Inr (Inr ([behavior_Byte behavior], put_uint64 (of_int count) @ put_uint64 0 @ s))"
    by (simp add: ReadFull_def)
  moreover have "read_int64 (put_uint64 (of_int count) @ put_uint64 0 @ s) = Inr (Inr (count, put_uint64 0 @ s))"
    by (rule read_int64_put [OF assms(1,2)])
  moreover have "read_int64 (put_uint64 0 @ s) = Inr (Inr (0, s))" using read_int64_put [of 0 s] by simp
  ultimately show ?thesis using assms(3) by (simp add: read_mrs_def del: One_nat_def)
qed

lemma rulesParse_mrs_bytes:
  assumes "pe_decode P (pe_encode P bytes) = Inr bytes" and "bytes = mrs_header BehaviorDomain (dom_count d) @ set_bytes ss"
    and "dom_set d = Some ss" and "dom_builder d = \<lparr>b_keys = []\<rparr>" and "0 \<le> dom_count d" and "dom_count d < 2 ^ 63"
    and "storable ss" and "stores (pe_bitmap P) ss N"
  shows "rulesParse P (pe_encode P bytes) (newStrategy BehaviorDomain) MrsRule = Some (Inr (Inr (DomainStrategy d)))"
proof -
  let ?e = "domain_Reset NewDomainStrategy"
  have "ReadDomainSetBin (pe_bitmap P) (set_bytes ss) = Inr (Inr (ss, []))"
    using ReadDomainSetBin_set_bytes [OF assms(7), of "pe_bitmap P" "[]"] stores_init [OF assms(8)] by simp
  moreover have "?e\<lparr>dom_count := dom_count d, dom_set := Some ss\<rparr> = d"
    using assms(3,4) by (cases d) (simp add: domain_Reset_def NewDomainStrategy_def builder_Reset_def)
  ultimately have "strategy_FromMrs P (dom_count d) (DomainStrategy ?e) (set_bytes ss) = Inr (Inr (DomainStrategy d, []))"
    by (simp add: domain_FromMrs_def rd_bind_def rd_return_def rbind_def)
  with read_mrs_header [OF assms(5,6), of "DomainStrategy ?e" BehaviorDomain P "set_bytes ss"] assms(1,2) show ?thesis
    by (simp add: rulesParse_def rulesMrsParse_def)
qed

text \<open>
  C12: A text file of domains, converted to MRS and read back, decides as its lines say. For every text
  file shorter than \<open>2 ^ 29 - 16\<close> bytes, parsing returns a strategy, whose set contains a host exactly
  if a line that is no comment and has no slash is a valid pattern that covers the host. If no line was
  accepted, the conversion reports an empty rule and writes nothing; otherwise it succeeds, and parsing
  the file that it wrote gives the strategy again, with the same set and the same count. The bitmap
  package is assumed to count and to find ones, and the zstd package to decode what it has encoded; the
  host is valid, does not begin with a dot and has no byte below the star.
\<close>
theorem mrs_round_trip:
  assumes "bitmap_index (pe_bitmap P)" and "\<forall>s. pe_decode P (pe_encode P s) = Inr s" and "length buf < 2 ^ 29 - 16"
    and "searchable host labels"
  shows "\<exists>d. rulesParse P buf (newStrategy BehaviorDomain) TextRule = Some (Inr (Inr (DomainStrategy d))) \<and>
    Has (pe_bitmap P) (dom_set d) host = Some (\<exists>r\<in>set (text_rules buf).
      CHR ''/'' \<notin> set r \<and> (\<exists>pat. ValidAndSplitDomain r = Inr pat \<and> covers pat labels)) \<and>
    (if dom_count d = 0 then ConvertToMrs P buf BehaviorDomain TextRule buffer [] = Some (Inr (Some EmptyRule, []))
     else \<exists>out. ConvertToMrs P buf BehaviorDomain TextRule buffer [] = Some (Inr (None, out)) \<and>
       rulesParse P out (newStrategy BehaviorDomain) MrsRule = Some (Inr (Inr (DomainStrategy d))))"
proof -
  from rulesParse_text [of P buf] obtain d where d: "rulesParse P buf (newStrategy BehaviorDomain) TextRule = Some (Inr (Inr (DomainStrategy d)))"
    "domains_of (pe_bitmap P) (text_rules buf) d" by blast
  have len: "sum_list (map length (text_rules buf)) < 2 ^ 29 - 16" using text_rules_length [of buf] assms(3) by simp
  note has = domains_of_Has [OF assms(1) d(2) len assms(4)]
  show ?thesis
  proof (cases "dom_count d = 0")
    case True
    with d(1) has show ?thesis by (simp add: ConvertToMrs_def)
  next
    case False
    then have acc: "accepted (text_rules buf) \<noteq> []" using d(2) by (auto simp: domains_of_def)
    from domains_of_set [OF d(2) acc len] obtain ss where ss: "dom_set d = Some ss" "stores (pe_bitmap P) ss
        (trie_nodes (b_keys (insert_all (accepted (text_rules buf)))))" "storable ss" by blast
    let ?bytes = "mrs_header BehaviorDomain (dom_count d) @ set_bytes ss"
    have conv: "ConvertToMrs P buf BehaviorDomain TextRule buffer [] = Some (Inr (None, pe_encode P ?bytes))"
      using d(1) False write_mrs_domain [OF ss(1)] by (simp add: ConvertToMrs_def buffer_def)
    have "rulesParse P (pe_encode P ?bytes) (newStrategy BehaviorDomain) MrsRule = Some (Inr (Inr (DomainStrategy d)))"
    proof (rule rulesParse_mrs_bytes [OF _ refl ss(1) _ _ _ ss(3,2)])
      show "dom_count d < 2 ^ 63" using d(2) accepted_count [of "text_rules buf"] len by (simp add: domains_of_def)
    qed (use assms(2) d(2) in \<open>auto simp: domains_of_def\<close>)
    with d(1) has conv False show ?thesis by auto
  qed
qed

text \<open>Packages that satisfy the assumptions: bytes are not compressed, and no file is YAML.\<close>

definition plain_env :: provider_env where
  "plain_env = \<lparr>pe_bitmap = counting_ops, pe_netipx = linear_ops,
     pe_rules = \<lparr>env_Compile = (\<lambda>_. False), env_MatchString = (\<lambda>_ _. False), env_GeodataMode = False, env_InitGeoIP = False,
       env_LoadGeoIPMatcher = (\<lambda>_. None), env_LookupCode = (\<lambda>_. []), env_InitASN = False, env_LookupASN = (\<lambda>_. ([], [])),
       env_InitGeoSite = False, env_LoadGeoSiteMatcher = (\<lambda>_. None), env_GOOS = []\<rparr>,
     pe_decode = Inr, pe_encode = id, pe_Unmarshal = (\<lambda>_ schema. (True, schema))\<rparr>"

theorem mrs_round_trip_witness:
  "\<exists>d. rulesParse plain_env ''+.cn'' (newStrategy BehaviorDomain) TextRule = Some (Inr (Inr (DomainStrategy d))) \<and>
    Has counting_ops (dom_set d) ''b.cn'' = Some True"
proof -
  have "searchable ''b.cn'' [''b'', ''cn'']" by (simp add: searchable_def less_eq_char_def) code_simp
  then obtain d where d: "rulesParse plain_env ''+.cn'' (newStrategy BehaviorDomain) TextRule = Some (Inr (Inr (DomainStrategy d)))"
    "Has counting_ops (dom_set d) ''b.cn'' = Some (\<exists>r\<in>set (text_rules ''+.cn'').
      CHR ''/'' \<notin> set r \<and> (\<exists>pat. ValidAndSplitDomain r = Inr pat \<and> covers pat [''b'', ''cn'']))"
    using mrs_round_trip [of plain_env "''+.cn''" "''b.cn''" "[''b'', ''cn'']"] counting.bitmap_index_axioms
    by (auto simp: plain_env_def)
  have "text_rules ''+.cn'' = [''+.cn'']" by code_simp
  moreover have "ValidAndSplitDomain ''+.cn'' = Inr [''+'', ''cn'']" by code_simp
  moreover have "\<exists>pre suf. [''b'', ''cn''] = pre @ suf \<and> label_match [''cn''] suf"
    by (intro exI [of _ "[''b'']"] exI [of _ "[''cn'']"]) (simp add: label_match_def)
  then have "covers [''+'', ''cn''] [''b'', ''cn'']" by (simp add: covers_def complexWildcard_def)
  ultimately show ?thesis using d by auto
qed
end
