(* ===== verification/Sniffer_Base.thy ===== *)
theory Sniffer_Base
  imports Go_Strings Hako_Prelude
begin

text \<open>
  The results of sniffers, \<open>src/component/sniffer\<close>. A sniffer reads the first bytes of a connection and
  returns a host, an error, or the length of a prefix that it needs for a verdict
  (\<open>errNeedAtLeastData\<close>, which always wraps \<open>ErrNoClue\<close>). As elsewhere a panic is a value.

  A sniffer is \<open>cautious\<close> if it never panics and asks only for more bytes than it has; it is
  \<open>incremental\<close> if it also keeps its verdict when more bytes arrive and asks for the same length as long
  as fewer have arrived. Parsers are shown to be incremental by the rules for \<open>guarded\<close>, one for each
  construct.
\<close>

datatype sniff_error = ErrNoClue | ErrNotTLS | ErrNotClientHello | ErrNotHTTP | ErrHostIsIP | ErrTODO
  | ErrorUnsupportedSniffer | ErrorSniffFailed | ErrBufferFull | ErrRead
  | ErrNotQUIC | ErrNotQUICInitial | ErrQUICDecryptionFailed | ErrUnexpectedEOF | ErrShortBuffer | ErrCipher
  | NeedAtLeast nat

type_synonym 'a parse = "(sniff_error + 'a) res"

definition fail :: "sniff_error \<Rightarrow> 'a parse" where
  "fail e = Inr (Inl e)"

definition ret :: "'a \<Rightarrow> 'a parse" where
  "ret x = Inr (Inr x)"

definition pbind :: "'a parse \<Rightarrow> ('a \<Rightarrow> 'b parse) \<Rightarrow> 'b parse" where
  "pbind m f = (case m of
     Inl p \<Rightarrow> Inl p
   | Inr (Inl e) \<Rightarrow> Inr (Inl e)
   | Inr (Inr x) \<Rightarrow> f x)"

definition lift :: "'a res \<Rightarrow> 'a parse" where
  "lift m = rbind m ret"

lemma pbind_simps [simp]:
  "pbind (Inl p) f = Inl p"
  "pbind (fail e) f = fail e"
  "pbind (ret x) f = f x"
  "pbind (Inr (Inl e)) f = Inr (Inl e)"
  "pbind (Inr (Inr x)) f = f x"
  by (simp_all add: pbind_def fail_def ret_def)

lemma lift_simps [simp]: "lift (Inl p) = Inl p" "lift (Inr x) = ret x"
  by (simp_all add: lift_def)

lemma pbind_cong [fundef_cong]:
  "m = m' \<Longrightarrow> (\<And>x. m' = Inr (Inr x) \<Longrightarrow> f x = f' x) \<Longrightarrow> pbind m f = pbind m' f'"
  by (auto simp: pbind_def split: sum.splits)

lemma ret_eq [simp]: "ret x = Inr (Inr y) \<longleftrightarrow> x = y"
  by (simp add: ret_def)

lemma fail_neq [simp]: "fail e \<noteq> Inr (Inr y)" "fail e \<noteq> Inl p"
  by (simp_all add: fail_def)

lemma pbind_eq_ret: "pbind m f = Inr (Inr y) \<longleftrightarrow> (\<exists>x. m = Inr (Inr x) \<and> f x = Inr (Inr y))"
  by (auto simp: pbind_def split: sum.splits)

text \<open>Two bytes as a number, most significant first.\<close>

definition be16 :: "string \<Rightarrow> nat \<Rightarrow> nat res" where
  "be16 d i = rbind (go_nth d i) (\<lambda>a. rbind (go_nth d (i + 1)) (\<lambda>b. Inr (of_char a * 256 + of_char b)))"

lemma be16_ok [simp]: "i + 1 < length d \<Longrightarrow> be16 d i = Inr (of_char (d ! i) * 256 + of_char (d ! (i + 1)))"
  by (simp add: be16_def)

section \<open>Incremental sniffers\<close>

definition settled :: "sniff_error + 'a \<Rightarrow> nat \<Rightarrow> bool" where
  "settled r n \<longleftrightarrow> (case r of Inl (NeedAtLeast l) \<Rightarrow> n < l | _ \<Rightarrow> True)"

text \<open>
  \<open>guarded n B F\<close>: with at least \<open>n\<close> bytes \<open>F\<close> is incremental, and it asks only for lengths in \<open>B\<close>.
\<close>

definition guarded :: "nat \<Rightarrow> (nat \<Rightarrow> bool) \<Rightarrow> (string \<Rightarrow> 'a parse) \<Rightarrow> bool" where
  "guarded n B F \<longleftrightarrow> (\<forall>d. n \<le> length d \<longrightarrow>
     (\<exists>r. F d = Inr r \<and> settled r (length d) \<and> (\<forall>l. r = Inl (NeedAtLeast l) \<longrightarrow> B l) \<and>
        (\<forall>c. settled r (length (d @ c)) \<longrightarrow> F (d @ c) = Inr r)))"

locale cautious =
  fixes F :: "string \<Rightarrow> 'a parse"
  assumes no_panic: "\<exists>r. F d = Inr r"
    and asks_for_more: "F d = Inr (Inl (NeedAtLeast l)) \<Longrightarrow> length d < l"

locale incremental = cautious +
  assumes verdict_kept: "F d = Inr r \<Longrightarrow> settled r (length (d @ c)) \<Longrightarrow> F (d @ c) = Inr r"

lemma guarded_incremental: "guarded 0 B F \<Longrightarrow> incremental F"
proof unfold_locales
  assume g: "guarded 0 B F"
  have *: "\<exists>r. F d = Inr r \<and> settled r (length d) \<and> (\<forall>c. settled r (length (d @ c)) \<longrightarrow> F (d @ c) = Inr r)" for d
    using g unfolding guarded_def by blast
  show "\<exists>r. F d = Inr r" for d using * [of d] by blast
  show "length d < l" if "F d = Inr (Inl (NeedAtLeast l))" for d l
    using * [of d] that by (simp add: settled_def)
  show "F (d @ c) = Inr r" if "F d = Inr r" "settled r (length (d @ c))" for d c r
    using * [of d] that by (metis sum.inject(2))
qed

named_theorems guarded_rules \<open>the constructs of parsers that wait for bytes\<close>

lemma guardedI:
  assumes "\<And>d. n \<le> length d \<Longrightarrow> \<exists>r. F d = Inr r \<and> settled r (length d) \<and> (\<forall>l. r = Inl (NeedAtLeast l) \<longrightarrow> B l) \<and>
    (\<forall>c. settled r (length (d @ c)) \<longrightarrow> F (d @ c) = Inr r)"
  shows "guarded n B F"
  using assms by (simp add: guarded_def)

lemma guarded_mono: "guarded n B F \<Longrightarrow> n \<le> m \<Longrightarrow> guarded m B F"
  unfolding guarded_def by (meson le_trans)

lemma guarded_fail [guarded_rules]: "(\<And>l. e \<noteq> NeedAtLeast l) \<Longrightarrow> guarded n B (\<lambda>d. fail e)"
  by (rule guardedI) (auto simp: fail_def settled_def split: sniff_error.splits)

lemma guarded_ret [guarded_rules]: "guarded n B (\<lambda>d. ret x)"
  by (rule guardedI) (auto simp: ret_def settled_def)

lemma guarded_if [guarded_rules]:
  "(b \<Longrightarrow> guarded n B F) \<Longrightarrow> (\<not> b \<Longrightarrow> guarded n B G) \<Longrightarrow> guarded n B (\<lambda>d. if b then F d else G d)"
  by (cases b) simp_all

lemma guarded_wait [guarded_rules]:
  assumes "guarded (max n l) B F" and "B l"
  shows "guarded n B (\<lambda>d. if length d < l then fail (NeedAtLeast l) else F d)"
proof (rule guardedI)
  fix d :: string
  assume n: "n \<le> length d"
  show "\<exists>r. (if length d < l then fail (NeedAtLeast l) else F d) = Inr r \<and> settled r (length d) \<and>
      (\<forall>l. r = Inl (NeedAtLeast l) \<longrightarrow> B l) \<and>
      (\<forall>c. settled r (length (d @ c)) \<longrightarrow> (if length (d @ c) < l then fail (NeedAtLeast l) else F (d @ c)) = Inr r)"
  proof (cases "length d < l")
    case True
    then show ?thesis using assms(2) by (auto simp: fail_def settled_def)
  next
    case False
    then show ?thesis using assms(1) n by (simp add: guarded_def)
  qed
qed

text \<open>Reading a part of the bytes that are there.\<close>

lemma guarded_read:
  assumes "\<And>d. n \<le> length d \<Longrightarrow> \<exists>v. m d = Inr v \<and> (\<forall>c. m (d @ c) = Inr v)" and "\<And>v. guarded n B (K v)"
  shows "guarded n B (\<lambda>d. pbind (lift (m d)) (\<lambda>v. K v d))"
proof (rule guardedI)
  fix d :: string
  assume n: "n \<le> length d"
  from assms(1) [OF n] obtain v where v: "m d = Inr v" "\<forall>c. m (d @ c) = Inr v" by blast
  show "\<exists>r. pbind (lift (m d)) (\<lambda>v. K v d) = Inr r \<and> settled r (length d) \<and> (\<forall>l. r = Inl (NeedAtLeast l) \<longrightarrow> B l) \<and>
      (\<forall>c. settled r (length (d @ c)) \<longrightarrow> pbind (lift (m (d @ c))) (\<lambda>v. K v (d @ c)) = Inr r)"
    using assms(2) [of v] n v by (simp add: guarded_def)
qed

lemma guarded_nth [guarded_rules]:
  "i < n \<Longrightarrow> (\<And>v. guarded n B (K v)) \<Longrightarrow> guarded n B (\<lambda>d. pbind (lift (go_nth d i)) (\<lambda>v. K v d))"
  by (rule guarded_read) (auto simp: nth_append)

lemma guarded_be16 [guarded_rules]:
  "i + 1 < n \<Longrightarrow> (\<And>v. guarded n B (K v)) \<Longrightarrow> guarded n B (\<lambda>d. pbind (lift (be16 d i)) (\<lambda>v. K v d))"
  by (rule guarded_read) (auto simp: nth_append)

lemma guarded_slice [guarded_rules]:
  "i \<le> j \<Longrightarrow> j \<le> n \<Longrightarrow> (\<And>v. guarded n B (K v)) \<Longrightarrow> guarded n B (\<lambda>d. pbind (lift (go_slice d i j)) (\<lambda>v. K v d))"
  by (rule guarded_read) auto

text \<open>One parser after another.\<close>

lemma guarded_bind:
  assumes "guarded n B F" and "\<And>d x. n \<le> length d \<Longrightarrow> F d = Inr (Inr x) \<Longrightarrow> m x \<le> length d \<and> guarded (m x) B (K x)"
  shows "guarded n B (\<lambda>d. pbind (F d) (\<lambda>x. K x d))"
proof (rule guardedI)
  fix d :: string
  assume n: "n \<le> length d"
  from assms(1) n obtain r where r: "F d = Inr r" "settled r (length d)" "\<forall>l. r = Inl (NeedAtLeast l) \<longrightarrow> B l"
    "\<forall>c. settled r (length (d @ c)) \<longrightarrow> F (d @ c) = Inr r" by (auto simp: guarded_def)
  show "\<exists>r. pbind (F d) (\<lambda>x. K x d) = Inr r \<and> settled r (length d) \<and> (\<forall>l. r = Inl (NeedAtLeast l) \<longrightarrow> B l) \<and>
      (\<forall>c. settled r (length (d @ c)) \<longrightarrow> pbind (F (d @ c)) (\<lambda>x. K x (d @ c)) = Inr r)"
  proof (cases r)
    case (Inl e)
    then show ?thesis using r by (intro exI [of _ "Inl e"]) (auto simp: settled_def split: sniff_error.splits)
  next
    case (Inr x)
    with r have F: "F (d @ c) = Inr (Inr x)" for c by (simp add: settled_def)
    have "m x \<le> length d" "guarded (m x) B (K x)" using assms(2) [OF n] F [of "[]"] by auto
    with F F [of "[]"] show ?thesis by (simp add: guarded_def)
  qed
qed
end
