(* ===== verification/Sniffer_Tls.thy ===== *)
theory Sniffer_Tls
  imports Sniffer_Base
begin

text \<open>
  The TLS sniffer, \<open>src/component/sniffer/tls_sniffer.go\<close>: the server name in the ClientHello of a TLS
  connection, which may be split over several records and may have arrived only in part. Lengths are
  natural numbers; in the code they are sums of a few fields of at most 24 bits.
\<close>

section \<open>The ClientHello\<close>

definition clientHelloSize :: "string \<Rightarrow> nat parse" where
  "clientHelloSize data =
     (if length data < 4 then fail ErrNoClue
      else pbind (lift (go_nth data 0)) (\<lambda>t.
        if of_char t \<noteq> (0x01::nat) then fail ErrNotClientHello
        else pbind (lift (go_nth data 1)) (\<lambda>a. pbind (lift (be16 data 2)) (\<lambda>b. ret (4 + (of_char a * 65536 + b))))))"

definition need :: "nat \<Rightarrow> string \<Rightarrow> nat \<Rightarrow> unit parse" where
  "need helloSize data n =
     (if n > helloSize then fail ErrNotClientHello
      else if length data < n then fail (NeedAtLeast n)
      else ret ())"

text \<open>The names in the extension: a name, or the offset after the last one.\<close>

function hello_names :: "nat \<Rightarrow> string \<Rightarrow> nat \<Rightarrow> nat \<Rightarrow> (string + nat) parse" where
  "hello_names helloSize data namesEnd offset =
     (if offset < namesEnd then
        pbind (need helloSize data (offset + 3)) (\<lambda>_.
        pbind (lift (go_nth data offset)) (\<lambda>nameType.
        pbind (lift (be16 data (offset + 1))) (\<lambda>nameLen.
        let offset = offset + 3; nameEnd = offset + nameLen
        in if nameEnd > namesEnd then fail ErrNotClientHello
           else pbind (need helloSize data nameEnd) (\<lambda>_.
             if of_char nameType = (0::nat) then
               pbind (lift (go_slice data offset nameEnd)) (\<lambda>serverName.
                 if HasSuffix serverName ''.'' then fail ErrNotClientHello else ret (Inl serverName))
             else hello_names helloSize data namesEnd nameEnd))))
      else ret (Inr offset))"
  by pat_completeness auto
termination by (relation "measure (\<lambda>(_, _, namesEnd, offset). namesEnd - offset)") auto

declare hello_names.simps [simp del]

lemma hello_names_end:
  "hello_names H d e n = Inr (Inr (Inr m)) \<Longrightarrow> n \<le> e \<Longrightarrow> m = e"
proof (induction H d e n rule: hello_names.induct)
  case (1 H d e n)
  show ?case
  proof (cases "n < e")
    case False
    with 1(2,3) show ?thesis by (simp add: hello_names.simps)
  next
    case True
    with 1(2) obtain t l where t: "need H d (n + 3) = Inr (Inr ())" "lift (go_nth d n) = Inr (Inr t)" "lift (be16 d (n + 1)) = Inr (Inr l)"
      "\<not> n + 3 + l > e" "need H d (n + 3 + l) = Inr (Inr ())" "of_char t \<noteq> (0::nat)" "hello_names H d e (n + 3 + l) = Inr (Inr (Inr m))"
      by (subst (asm) hello_names.simps) (auto simp: pbind_eq_ret Let_def split: if_splits)
    from "1.IH" [OF True t(1-3) refl refl t(4,5,6,7)] t(4) show ?thesis by simp
  qed
qed

function hello_extensions :: "nat \<Rightarrow> string \<Rightarrow> nat \<Rightarrow> nat \<Rightarrow> string parse" where
  "hello_extensions helloSize data extensionsEnd offset =
     (if offset < extensionsEnd then
        pbind (need helloSize data (offset + 4)) (\<lambda>_.
        pbind (lift (be16 data offset)) (\<lambda>extension.
        pbind (lift (be16 data (offset + 2))) (\<lambda>len.
        let offset = offset + 4; extensionEnd = offset + len
        in if extensionEnd > extensionsEnd then fail ErrNotClientHello
           else if extension = 0 then
             if len < 2 then fail ErrNotClientHello
             else pbind (need helloSize data (offset + 2)) (\<lambda>_.
               pbind (lift (be16 data offset)) (\<lambda>namesLen.
               let offset = offset + 2; namesEnd = offset + namesLen
               in if namesEnd \<noteq> extensionEnd then fail ErrNotClientHello
                  else pbind (hello_names helloSize data namesEnd offset) (\<lambda>r.
                    case r of
                      Inl serverName \<Rightarrow> ret serverName
                    | Inr offset \<Rightarrow> hello_extensions helloSize data extensionsEnd offset)))
           else if extensionEnd = extensionsEnd then fail ErrNotTLS
           else pbind (need helloSize data extensionEnd) (\<lambda>_.
             hello_extensions helloSize data extensionsEnd extensionEnd))))
      else fail ErrNotTLS)"
  by pat_completeness auto
termination
  by (relation "measure (\<lambda>(_, _, extensionsEnd, offset). extensionsEnd - offset)") (auto dest!: hello_names_end)

declare hello_extensions.simps [simp del]

text \<open>The fields before the extensions.\<close>

definition hello_body :: "nat \<Rightarrow> string \<Rightarrow> string parse" where
  "hello_body helloSize data =
     (let offset = 4 + 2 + 32 in
      pbind (need helloSize data (offset + 1)) (\<lambda>_.
      pbind (lift (go_nth data offset)) (\<lambda>b.
      let sessionIDLen = of_char b in
      if sessionIDLen > 32 then fail ErrNotClientHello else
      let offset = offset + 1 in
      pbind (need helloSize data (offset + sessionIDLen)) (\<lambda>_.
      let offset = offset + sessionIDLen in
      pbind (need helloSize data (offset + 2)) (\<lambda>_.
      pbind (lift (be16 data offset)) (\<lambda>cipherSuiteLen.
      if cipherSuiteLen mod 2 = 1 then fail ErrNotClientHello else
      let offset = offset + 2 in
      pbind (need helloSize data (offset + cipherSuiteLen)) (\<lambda>_.
      let offset = offset + cipherSuiteLen in
      pbind (need helloSize data (offset + 1)) (\<lambda>_.
      pbind (lift (go_nth data offset)) (\<lambda>b.
      let compressionMethodsLen = of_char b; offset = offset + 1 in
      pbind (need helloSize data (offset + compressionMethodsLen)) (\<lambda>_.
      let offset = offset + compressionMethodsLen in
      if offset = helloSize then fail ErrNotClientHello else
      pbind (need helloSize data (offset + 2)) (\<lambda>_.
      pbind (lift (be16 data offset)) (\<lambda>extensionsLength.
      let offset = offset + 2; extensionsEnd = offset + extensionsLength in
      if extensionsEnd \<noteq> helloSize then fail ErrNotClientHello
      else hello_extensions helloSize data extensionsEnd offset))))))))))))"

definition ReadClientHello :: "string \<Rightarrow> string parse" where
  "ReadClientHello data =
     (if length data = 0 then fail (NeedAtLeast 1)
      else pbind (lift (go_nth data 0)) (\<lambda>t.
        if of_char t \<noteq> (0x01::nat) then fail ErrNotClientHello
        else if length data < 4 then fail (NeedAtLeast 4)
        else pbind (clientHelloSize data) (\<lambda>helloSize.
          pbind (lift (if length data > helloSize then go_slice data 0 helloSize else Inr data)) (\<lambda>data.
            hello_body helloSize data))))"

section \<open>Records\<close>

definition IsValidTLSVersion :: "char \<Rightarrow> char \<Rightarrow> bool" where
  "IsValidTLSVersion major minor \<longleftrightarrow> of_char major = (3::nat)"

definition tlsMaxPlaintext :: nat where
  "tlsMaxPlaintext = 2 ^ 14"

text \<open>
  The loop of \<open>SniffTLS\<close>. \<open>append\<close> writes behind a slice whose capacity is its length, so it copies.
\<close>

function sniff_records :: "string \<Rightarrow> nat \<Rightarrow> string \<Rightarrow> string parse" where
  "sniff_records b wireOffset clientHello =
     (if length b < wireOffset + 5 then fail (NeedAtLeast (wireOffset + 5))
      else pbind (lift (go_slice b wireOffset (wireOffset + 5))) (\<lambda>header.
        if of_char (header ! 0) \<noteq> (0x16::nat) \<or> \<not> IsValidTLSVersion (header ! 1) (header ! 2) then fail ErrNotTLS
        else pbind (lift (be16 header 3)) (\<lambda>recordLen.
          if recordLen > tlsMaxPlaintext then fail ErrNotTLS
          else if recordLen = 0 then fail ErrNotClientHello
          else
            let payloadOffset = wireOffset + 5;
                recordEnd = payloadOffset + recordLen;
                payloadEnd = max (min (length b) recordEnd) payloadOffset
            in pbind (lift (go_slice b payloadOffset payloadEnd)) (\<lambda>payload.
                 let clientHello = (if wireOffset = 0 then payload else clientHello @ payload)
                 in case ReadClientHello clientHello of
                      Inl p \<Rightarrow> Inl p
                    | Inr (Inr domain) \<Rightarrow> ret domain
                    | Inr (Inl (NeedAtLeast n)) \<Rightarrow>
                        if payloadEnd < recordEnd then
                          fail (NeedAtLeast (payloadEnd + min (n - length clientHello) (recordEnd - payloadEnd)))
                        else sniff_records b recordEnd clientHello
                    | Inr (Inl e) \<Rightarrow> fail e))))"
  by pat_completeness auto
termination
  by (relation "measure (\<lambda>(b, wireOffset, clientHello). length b - wireOffset)") auto

declare sniff_records.simps [simp del]

definition SniffTLS :: "string \<Rightarrow> string parse" where
  "SniffTLS b = sniff_records b 0 []"

section \<open>Incremental reading\<close>

lemma guarded_need [guarded_rules]:
  assumes "n \<le> l" and "guarded l (\<lambda>l. l \<le> H) F"
  shows "guarded n (\<lambda>l. l \<le> H) (\<lambda>d. pbind (need H d l) (\<lambda>_. F d))"
proof (cases "l > H")
  case True
  then have "(\<lambda>d. pbind (need H d l) (\<lambda>_. F d)) = (\<lambda>d. fail ErrNotClientHello)" by (simp add: need_def fun_eq_iff)
  then show ?thesis by (simp add: guarded_fail)
next
  case False
  then have eq: "(\<lambda>d. pbind (need H d l) (\<lambda>_. F d)) = (\<lambda>d. if length d < l then fail (NeedAtLeast l) else F d)"
    by (simp add: need_def fun_eq_iff)
  show ?thesis unfolding eq using assms False by (intro guarded_wait) (simp_all add: max_def)
qed

lemma hello_names_guarded:
  "n \<le> e \<Longrightarrow> guarded n (\<lambda>l. l \<le> H) (\<lambda>d. hello_names H d e n)"
proof (induction "e - n" arbitrary: n rule: less_induct)
  case less
  show ?case
    by (subst hello_names.simps, unfold Let_def)
      (intro guarded_rules; (rule less.hyps, simp, simp | simp))
qed

lemma hello_names_bytes: "hello_names H d e n = Inr (Inr (Inr m)) \<Longrightarrow> n \<le> length d \<Longrightarrow> m \<le> length d"
proof (induction H d e n rule: hello_names.induct)
  case (1 H d e n)
  show ?case
  proof (cases "n < e")
    case False
    with 1(2,3) show ?thesis by (simp add: hello_names.simps)
  next
    case True
    with 1(2) obtain t l where t: "need H d (n + 3) = Inr (Inr ())" "lift (go_nth d n) = Inr (Inr t)" "lift (be16 d (n + 1)) = Inr (Inr l)"
      "\<not> n + 3 + l > e" "need H d (n + 3 + l) = Inr (Inr ())" "of_char t \<noteq> (0::nat)" "hello_names H d e (n + 3 + l) = Inr (Inr (Inr m))"
      by (subst (asm) hello_names.simps) (auto simp: pbind_eq_ret Let_def split: if_splits)
    from t(5) have "n + 3 + l \<le> length d" by (simp add: need_def split: if_splits)
    from "1.IH" [OF True t(1-3) refl refl t(4,5,6,7) this] show ?thesis .
  qed
qed

lemma hello_extensions_guarded: "guarded n (\<lambda>l. l \<le> H) (\<lambda>d. hello_extensions H d e n)"
proof (induction "e - n" arbitrary: n rule: less_induct)
  case less
  have names: "guarded m (\<lambda>l. l \<le> H) (\<lambda>d. pbind (hello_names H d l m)
      (\<lambda>r. case r of Inl s \<Rightarrow> ret s | Inr k \<Rightarrow> hello_extensions H d e k))" if "n < m" "m \<le> l" "l \<le> e" for m l
  proof (rule guarded_bind [where m = "\<lambda>r. case r of Inl s \<Rightarrow> 0 | Inr k \<Rightarrow> k"])
    fix d r assume "m \<le> length d" and r: "hello_names H d l m = Inr (Inr r)"
    with hello_names_end [of H d l m] hello_names_bytes [of H d l m] that less.hyps [of l]
    show "(case r of Inl s \<Rightarrow> 0 | Inr k \<Rightarrow> k) \<le> length d \<and> guarded (case r of Inl s \<Rightarrow> 0 | Inr k \<Rightarrow> k) (\<lambda>l. l \<le> H)
        (\<lambda>d. case r of Inl s \<Rightarrow> ret s | Inr k \<Rightarrow> hello_extensions H d e k)"
      by (cases r) (auto simp: guarded_ret)
  qed (rule hello_names_guarded [OF that(2)])
  show ?case
    by (subst hello_extensions.simps, unfold Let_def)
      (intro guarded_rules; (rule less.hyps, simp | rule names, simp, simp, simp | simp))
qed

lemma hello_body_guarded: "guarded n (\<lambda>l. l \<le> H) (hello_body H)"
proof -
  have "guarded 0 (\<lambda>l. l \<le> H) (\<lambda>d. hello_body H d)"
    unfolding hello_body_def Let_def by (intro guarded_rules; (rule hello_extensions_guarded | simp))
  then show ?thesis by (rule guarded_mono) simp
qed

text \<open>The bytes after the ClientHello are not read.\<close>

lemma guarded_take:
  assumes "guarded n (\<lambda>l. l \<le> H) F" and "n \<le> H"
  shows "guarded n (\<lambda>l. l \<le> H) (\<lambda>d. F (take H d))"
proof (rule guardedI)
  fix d :: string
  assume n: "n \<le> length d"
  then have "n \<le> length (take H d)" using assms(2) by simp
  with assms(1) obtain r where r: "F (take H d) = Inr r" "settled r (length (take H d))" "\<forall>l. r = Inl (NeedAtLeast l) \<longrightarrow> l \<le> H"
    "\<forall>c. settled r (length (take H d @ c)) \<longrightarrow> F (take H d @ c) = Inr r" unfolding guarded_def by blast
  have s: "settled r (length d)"
    using r(2,3) by (auto simp: settled_def min_def split: sum.splits sniff_error.splits if_splits)
  have "F (take H (d @ c)) = Inr r" if "settled r (length (d @ c))" for c
  proof -
    have "settled r (length (take H d @ take (H - length d) c))"
      using that by (auto simp: settled_def min_def split: sum.splits sniff_error.splits)
    then show ?thesis using r(4) by simp
  qed
  with r s show "\<exists>r. F (take H d) = Inr r \<and> settled r (length d) \<and> (\<forall>l. r = Inl (NeedAtLeast l) \<longrightarrow> l \<le> H) \<and>
      (\<forall>c. settled r (length (d @ c)) \<longrightarrow> F (take H (d @ c)) = Inr r)" by auto
qed

lemma guarded_weaken: "guarded n B F \<Longrightarrow> (\<And>l. B l \<Longrightarrow> C l) \<Longrightarrow> guarded n C F"
  unfolding guarded_def by meson

lemma ReadClientHello_guarded: "guarded 0 (\<lambda>l. True) ReadClientHello"
proof -
  have body: "guarded 4 (\<lambda>l. True) (\<lambda>d. hello_body (4 + k) (take (4 + k) d))" for k
    by (rule guarded_weaken [OF guarded_take [OF hello_body_guarded]]) simp_all
  have eq: "ReadClientHello d =
     (if length d < 1 then fail (NeedAtLeast 1)
      else pbind (lift (go_nth d 0)) (\<lambda>t. if of_char t \<noteq> (1::nat) then fail ErrNotClientHello
        else if length d < 4 then fail (NeedAtLeast 4)
        else pbind (lift (go_nth d 1)) (\<lambda>a. pbind (lift (be16 d 2)) (\<lambda>b.
          hello_body (4 + (of_char a * 65536 + b)) (take (4 + (of_char a * 65536 + b)) d)))))" for d
  proof (cases "length d < 4")
    case True
    then show ?thesis by (cases d) (simp_all add: ReadClientHello_def)
  next
    case False
    then have "0 < length d" "1 < length d" "2 + 1 < length d" by linarith+
    then have "go_nth d 0 = Inr (d ! 0)" "go_nth d 1 = Inr (d ! 1)"
      "be16 d 2 = Inr (of_char (d ! 2) * 256 + of_char (d ! 3))" "d \<noteq> []" using be16_ok [of 2 d] by (simp_all only: go_nth_ok) auto
    moreover have "lift (if length d > k then go_slice d 0 k else Inr d) = ret (take k d)" for k by simp
    ultimately show ?thesis using False unfolding ReadClientHello_def clientHelloSize_def by simp
  qed
  show ?thesis unfolding eq [abs_def] by (intro guarded_rules; (rule guarded_mono [OF body]; simp | simp))
qed

interpretation hello: incremental ReadClientHello
  by (rule guarded_incremental [OF ReadClientHello_guarded])

definition record_length :: "string \<Rightarrow> nat \<Rightarrow> nat" where
  "record_length b w = of_char (b ! (w + 3)) * 256 + of_char (b ! (w + 4))"

definition record_ok :: "string \<Rightarrow> nat \<Rightarrow> bool" where
  "record_ok b w \<longleftrightarrow> of_char (b ! w) = (0x16::nat) \<and> IsValidTLSVersion (b ! (w + 1)) (b ! (w + 2)) \<and> record_length b w \<le> tlsMaxPlaintext"

text \<open>The handshake bytes up to the end of the record at \<open>w\<close>, as far as they have arrived.\<close>

definition hello_upto :: "string \<Rightarrow> nat \<Rightarrow> string \<Rightarrow> string" where
  "hello_upto b w h = (if w = 0 then [] else h) @ take (record_length b w) (drop (w + 5) b)"

lemma sniff_records_step:
  assumes "w + 5 \<le> length b"
  shows "sniff_records b w h =
    (if \<not> record_ok b w then fail ErrNotTLS
     else if record_length b w = 0 then fail ErrNotClientHello
     else let e = w + 5 + record_length b w; hello = hello_upto b w h
       in case ReadClientHello hello of
            Inl p \<Rightarrow> Inl p
          | Inr (Inr domain) \<Rightarrow> ret domain
          | Inr (Inl (NeedAtLeast n)) \<Rightarrow>
              if length b < e then fail (NeedAtLeast (length b + min (n - length hello) (e - length b)))
              else sniff_records b e hello
          | Inr (Inl e) \<Rightarrow> fail e)"
proof -
  let ?R = "record_length b w" and ?p = "w + 5"
  have h: "go_slice b w (w + 5) = Inr (take 5 (drop w b))" using assms by simp
  have n: "take 5 (drop w b) ! i = b ! (w + i)" if "i < 5" for i using that assms by simp
  have l: "be16 (take 5 (drop w b)) 3 = Inr ?R"
    using be16_ok [of 3 "take 5 (drop w b)"] assms by (simp add: record_length_def n)
  have m: "max (min (length b) (?p + ?R)) ?p = min (length b) (?p + ?R)" using assms by simp
  have s: "go_slice b ?p (min (length b) (?p + ?R)) = Inr (take ?R (drop ?p b))" using assms by (simp add: min_def)
  have u: "(if w = 0 then take ?R (drop ?p b) else h @ take ?R (drop ?p b)) = hello_upto b w h" by (simp add: hello_upto_def)
  have ok: "(of_char (take 5 (drop w b) ! 0) \<noteq> (0x16::nat) \<or> \<not> IsValidTLSVersion (take 5 (drop w b) ! 1) (take 5 (drop w b) ! 2))
      \<or> tlsMaxPlaintext < ?R \<longleftrightarrow> \<not> record_ok b w"
    using n [of 0] n [of 1] n [of 2] by (auto simp: record_ok_def)
  have e: "min (length b) (?p + ?R) < ?p + ?R \<longleftrightarrow> length b < ?p + ?R" by auto
  have "sniff_records b w h =
      (if \<not> record_ok b w then fail ErrNotTLS
       else if ?R = 0 then fail ErrNotClientHello
       else case ReadClientHello (hello_upto b w h) of
            Inl p \<Rightarrow> Inl p
          | Inr (Inr domain) \<Rightarrow> ret domain
          | Inr (Inl (NeedAtLeast n)) \<Rightarrow>
              if length b < ?p + ?R then fail (NeedAtLeast (min (length b) (?p + ?R)
                + min (n - length (hello_upto b w h)) (?p + ?R - min (length b) (?p + ?R))))
              else sniff_records b (?p + ?R) (hello_upto b w h)
          | Inr (Inl e) \<Rightarrow> fail e)"
    using assms unfolding ok [symmetric]
    by (subst sniff_records.simps) (simp only: h l m s u e Let_def lift_simps pbind_simps not_less if_False if_True split: if_splits, simp)
  then show ?thesis
    by (simp add: Let_def min_def split: sum.splits sniff_error.splits)
qed

lemma hello_upto_append:
  assumes "w + 5 \<le> length b"
  shows "record_length (b @ c) w = record_length b w" and "record_ok (b @ c) w = record_ok b w"
    and "hello_upto (b @ c) w h = hello_upto b w h @ take (w + 5 + record_length b w - length b) c"
  using assms by (simp_all add: record_length_def record_ok_def hello_upto_def nth_append ac_simps)

lemma sniff_records_incremental:
  assumes "w \<le> length b"
  shows "\<exists>r. sniff_records b w h = Inr r \<and> settled r (length b) \<and> (\<forall>c. settled r (length (b @ c)) \<longrightarrow> sniff_records (b @ c) w h = Inr r)"
  using assms
proof (induction "length b - w" arbitrary: w h rule: less_induct)
  case less
  show ?case
  proof (cases "w + 5 \<le> length b")
    case False
    then show ?thesis by (auto simp: sniff_records.simps [of b] sniff_records.simps [of "b @ _"] fail_def settled_def)
  next
    case True
    let ?hello = "hello_upto b w h" and ?e = "w + 5 + record_length b w"
    note app = hello_upto_append [OF True]
    have len: "w + 5 \<le> length (b @ c)" for c using True by simp
    note step = sniff_records_step [OF True] sniff_records_step [OF len, unfolded app Let_def]
    show ?thesis
    proof (cases "record_ok b w \<and> record_length b w \<noteq> 0")
      case False
      then show ?thesis by (auto simp: step fail_def settled_def)
    next
      case ok: True
      obtain r where r: "ReadClientHello ?hello = Inr r" using hello.no_panic by blast
      show ?thesis
      proof (cases "\<exists>n. r = Inl (NeedAtLeast n)")
        case False
        have "ReadClientHello (?hello @ c) = Inr r" for c
          using hello.verdict_kept [OF r, of c] False by (auto simp: settled_def split: sum.splits sniff_error.splits)
        with r ok False show ?thesis
          by (auto simp: step Let_def ret_def fail_def settled_def split: sum.splits sniff_error.splits)
      next
        case True
        then obtain n where n: "r = Inl (NeedAtLeast n)" by blast
        then have more: "length ?hello < n" using hello.asks_for_more r by simp
        show ?thesis
        proof (cases "length b < ?e")
          case True
          let ?m = "min (n - length ?hello) (?e - length b)"
          have "sniff_records (b @ c) w h = Inr (Inl (NeedAtLeast (length b + ?m)))" if "length c < ?m" for c
          proof -
            have "take (?e - length b) c = c" using that by simp
            moreover have "ReadClientHello (?hello @ c) = Inr (Inl (NeedAtLeast n))"
              using hello.verdict_kept [OF r, of c] less_diff_conv [of "length c" n "length ?hello"] that n
              by (simp add: settled_def add.commute)
            moreover have "length b + length c < ?e"
              "length b + length c + min (n - length (?hello @ c)) (?e - length (b @ c)) = length b + ?m" using that by auto
            ultimately show ?thesis using ok by (simp add: step fail_def)
          qed
          from this [of "[]"] this more True show ?thesis
            by (intro exI [of _ "Inl (NeedAtLeast (length b + ?m))"]) (auto simp: settled_def)
        next
          case False
          have "sniff_records (b @ c) w h = sniff_records (b @ c) ?e ?hello" for c
            using ok r n False by (simp add: step)
          from this this [of "[]"] less.hyps [of ?e ?hello] ok False show ?thesis by simp
        qed
      qed
    qed
  qed
qed

interpretation tls: incremental SniffTLS
proof (rule guarded_incremental [where B = "\<lambda>_. True"], rule guardedI)
  fix d :: string
  show "\<exists>r. SniffTLS d = Inr r \<and> settled r (length d) \<and> (\<forall>l. r = Inl (NeedAtLeast l) \<longrightarrow> True) \<and>
      (\<forall>c. settled r (length (d @ c)) \<longrightarrow> SniffTLS (d @ c) = Inr r)"
    using sniff_records_incremental [of 0 d "[]"] by (simp add: SniffTLS_def)
qed
end
