(* ===== verification/Sniffer_Tls_Wire.thy ===== *)
theory Sniffer_Tls_Wire
  imports Sniffer_Tls
begin

text \<open>
  The bytes of a ClientHello with a server name, after RFC 8446, and what the sniffer makes of them: it
  finds the name wherever the extension stands and however the message is cut into records.
\<close>

section \<open>The message\<close>

definition be2 :: "nat \<Rightarrow> string" where
  "be2 n = [char_of (n div 256), char_of (n mod 256)]"

definition name_bytes :: "nat \<times> string \<Rightarrow> string" where
  "name_bytes p = char_of (fst p) # be2 (length (snd p)) @ snd p"

definition ext_bytes :: "nat \<times> string \<Rightarrow> string" where
  "ext_bytes p = be2 (fst p) @ be2 (length (snd p)) @ snd p"

definition sni_bytes :: "(nat \<times> string) list \<Rightarrow> string \<Rightarrow> string \<Rightarrow> string" where
  "sni_bytes ns name tl_names = concat (map name_bytes ns) @ name_bytes (0, name) @ tl_names"

definition exts_bytes :: "(nat \<times> string) list \<Rightarrow> string \<Rightarrow> string \<Rightarrow> string" where
  "exts_bytes es sni after = concat (map ext_bytes es) @ ext_bytes (0, be2 (length sni) @ sni) @ after"

record client_hello =
  ch_version :: string
  ch_random :: string
  ch_session :: string
  ch_ciphers :: string
  ch_compression :: string
  ch_before :: "(nat \<times> string) list"
  ch_other_names :: "(nat \<times> string) list"
  ch_name :: string
  ch_more_names :: string
  ch_after :: string

definition ch_sni :: "client_hello \<Rightarrow> string" where
  "ch_sni ch = sni_bytes (ch_other_names ch) (ch_name ch) (ch_more_names ch)"

definition ch_exts :: "client_hello \<Rightarrow> string" where
  "ch_exts ch = exts_bytes (ch_before ch) (ch_sni ch) (ch_after ch)"

definition ch_body :: "client_hello \<Rightarrow> string" where
  "ch_body ch = ch_version ch @ ch_random ch @ char_of (length (ch_session ch)) # ch_session ch
     @ be2 (length (ch_ciphers ch)) @ ch_ciphers ch @ char_of (length (ch_compression ch)) # ch_compression ch
     @ be2 (length (ch_exts ch)) @ ch_exts ch"

definition ch_bytes :: "client_hello \<Rightarrow> string" where
  "ch_bytes ch = char_of (1::nat) # char_of (length (ch_body ch) div 65536) # be2 (length (ch_body ch) mod 65536) @ ch_body ch"

definition ch_ok :: "client_hello \<Rightarrow> bool" where
  "ch_ok ch \<longleftrightarrow> length (ch_version ch) = 2 \<and> length (ch_random ch) = 32 \<and> length (ch_session ch) \<le> 32
     \<and> length (ch_ciphers ch) < 65536 \<and> even (length (ch_ciphers ch)) \<and> length (ch_compression ch) < 256
     \<and> length (ch_exts ch) < 65536 \<and> (\<forall>p\<in>set (ch_before ch). 0 < fst p \<and> fst p < 65536)
     \<and> (\<forall>p\<in>set (ch_other_names ch). 0 < fst p \<and> fst p < 256) \<and> \<not> HasSuffix (ch_name ch) ''.''"

section \<open>Reading it\<close>

lemma length_be2 [simp]: "length (be2 n) = 2"
  by (simp add: be2_def)

lemma be16_at: "n < 65536 \<Longrightarrow> i = length pre \<Longrightarrow> be16 (pre @ be2 n @ post) i = Inr n"
  by (simp add: be16_def go_nth_def nth_append be2_def)

lemma nth_at: "i = length pre \<Longrightarrow> go_nth (pre @ c # post) i = Inr c"
  by (simp add: go_nth_def nth_append)

lemma slice_at: "i = length pre \<Longrightarrow> j = i + length s \<Longrightarrow> go_slice (pre @ s @ post) i j = Inr s"
  by (simp add: go_slice_def)

lemma need_ok: "n \<le> H \<Longrightarrow> n \<le> length d \<Longrightarrow> need H d n = ret ()"
  by (simp add: need_def)

lemma hello_names_finds:
  assumes "\<forall>p\<in>set ns. 0 < fst p \<and> fst p < 256" and "\<not> HasSuffix name ''.''" and "i = length pre"
    and "e = i + length (sni_bytes ns name tl_names)" and "e \<le> H" and "length (sni_bytes ns name tl_names) < 65536"
  shows "hello_names H (pre @ sni_bytes ns name tl_names @ post) e i = ret (Inl name)"
  using assms
proof (induction ns arbitrary: pre i)
  case Nil
  let ?d = "pre @ char_of (0::nat) # be2 (length name) @ name @ tl_names @ post"
  have d: "pre @ sni_bytes [] name tl_names @ post = ?d" by (simp add: sni_bytes_def name_bytes_def)
  have l: "length (sni_bytes [] name tl_names) = 3 + length name + length tl_names" by (simp add: sni_bytes_def name_bytes_def)
  have "be16 ?d (i + 1) = Inr (length name)"
    using be16_at [of "length name" "i + 1" "pre @ [char_of (0::nat)]" "name @ tl_names @ post"] Nil l by simp
  moreover have "go_slice ?d (i + 3) (i + 3 + length name) = Inr name"
    using slice_at [of "i + 3" "pre @ char_of (0::nat) # be2 (length name)" "i + 3 + length name" name "tl_names @ post"] Nil by simp
  ultimately show ?case
    unfolding d by (subst hello_names.simps) (use Nil l in \<open>simp add: need_ok nth_at Let_def\<close>)
next
  case (Cons p ns)
  obtain t x where p: "p = (t, x)" by (cases p)
  let ?d = "pre @ char_of t # be2 (length x) @ x @ sni_bytes ns name tl_names @ post"
  have d: "pre @ sni_bytes (p # ns) name tl_names @ post = ?d" by (simp add: sni_bytes_def name_bytes_def p)
  have l: "length (sni_bytes (p # ns) name tl_names) = 3 + length x + length (sni_bytes ns name tl_names)"
    by (simp add: sni_bytes_def name_bytes_def p)
  have t: "0 < t" "t < 256" using Cons.prems(1) p by auto
  have "be16 ?d (i + 1) = Inr (length x)"
    using be16_at [of "length x" "i + 1" "pre @ [char_of t]" "x @ sni_bytes ns name tl_names @ post"] Cons.prems l by simp
  moreover have "hello_names H ?d e (i + 3 + length x) = ret (Inl name)"
    using Cons.IH [of "i + 3 + length x" "pre @ char_of t # be2 (length x) @ x"] Cons.prems l by simp
  ultimately show ?case
    unfolding d by (subst hello_names.simps) (use Cons.prems l t in \<open>simp add: need_ok nth_at Let_def\<close>)
qed

lemma hello_extensions_finds:
  assumes "\<forall>p\<in>set es. 0 < fst p \<and> fst p < 65536" and "\<forall>p\<in>set ns. 0 < fst p \<and> fst p < 256" and "\<not> HasSuffix name ''.''"
    and "i = length pre" and "sni = sni_bytes ns name tl_names" and "e = i + length (exts_bytes es sni after)" and "e \<le> H"
    and "length (exts_bytes es sni after) < 65536"
  shows "hello_extensions H (pre @ exts_bytes es sni after) e i = ret name"
  using assms
proof (induction es arbitrary: pre i)
  case Nil
  define k where "k = length sni + 2"
  let ?d = "pre @ be2 0 @ be2 k @ be2 (length sni) @ sni @ after"
  have d: "pre @ exts_bytes [] sni after = ?d" by (simp add: exts_bytes_def ext_bytes_def k_def)
  have l: "length (exts_bytes [] sni after) = 6 + length sni + length after" by (simp add: exts_bytes_def ext_bytes_def)
  have "be16 ?d i = Inr 0" by (rule be16_at) (simp_all add: Nil)
  moreover have "be16 ?d (i + 2) = Inr k"
    using be16_at [of k "i + 2" "pre @ be2 0" "be2 (length sni) @ sni @ after"] Nil l k_def by simp
  moreover have "be16 ?d (i + 4) = Inr (length sni)"
    using be16_at [of "length sni" "i + 4" "pre @ be2 0 @ be2 k" "sni @ after"] Nil l by simp
  moreover have "hello_names H ?d (6 + i + length sni) (6 + i) = ret (Inl name)"
    using hello_names_finds [OF Nil.prems(2,3), of "6 + i" "pre @ be2 0 @ be2 k @ be2 (length sni)" "6 + i + length sni" tl_names H after]
      Nil l by simp
  moreover have "\<not> k < 2" "i + 4 + k = i + 6 + length sni" by (simp_all add: k_def)
  moreover have "length ?d = e" "e = i + 6 + length sni + length after" using Nil.prems l by simp_all
  ultimately show ?case
    unfolding d by (subst hello_extensions.simps) (use Nil.prems(7) in \<open>simp add: need_ok Let_def del: be16_ok\<close>)
next
  case (Cons p es)
  obtain t x where p: "p = (t, x)" by (cases p)
  let ?d = "pre @ be2 t @ be2 (length x) @ x @ exts_bytes es sni after"
  have d: "pre @ exts_bytes (p # es) sni after = ?d" by (simp add: exts_bytes_def ext_bytes_def p)
  have l: "length (exts_bytes (p # es) sni after) = 4 + length x + length (exts_bytes es sni after)" "0 < length (exts_bytes es sni after)"
    by (simp_all add: exts_bytes_def ext_bytes_def p)
  have t: "0 < t" "t < 65536" using Cons.prems(1) p by auto
  have "be16 ?d i = Inr t" by (rule be16_at) (simp_all add: Cons t)
  moreover have "be16 ?d (i + 2) = Inr (length x)"
    using be16_at [of "length x" "i + 2" "pre @ be2 t" "x @ exts_bytes es sni after"] Cons.prems l by simp
  moreover have "hello_extensions H ?d e (i + 4 + length x) = ret name"
    using Cons.IH [of "i + 4 + length x" "pre @ be2 t @ be2 (length x) @ x"] Cons.prems l by (simp add: add.assoc)
  ultimately show ?case
    unfolding d by (subst hello_extensions.simps) (use Cons.prems l t in \<open>simp add: need_ok Let_def\<close>)
qed

lemma ch_exts_found:
  "ch_ok ch \<Longrightarrow> i = length pre \<Longrightarrow> e = i + length (ch_exts ch) \<Longrightarrow> hello_extensions e (pre @ ch_exts ch) e i = ret (ch_name ch)"
  unfolding ch_exts_def ch_sni_def
  by (rule hello_extensions_finds) (simp_all add: ch_ok_def ch_exts_def ch_sni_def)

lemma ReadClientHello_finds:
  assumes "ch_ok ch"
  shows "ReadClientHello (ch_bytes ch) = ret (ch_name ch)"
proof -
  let ?b = "ch_body ch" and ?s = "ch_session ch" and ?c = "ch_ciphers ch" and ?m = "ch_compression ch" and ?e = "ch_exts ch"
  note ok = assms [unfolded ch_ok_def]
  have l: "length ?b = 40 + length ?s + length ?c + length ?m + length ?e" using ok by (simp add: ch_body_def)
  then have lb: "length ?b < 256 * 65536" using ok by simp
  define h where "h = char_of (1::nat) # char_of (length ?b div 65536) # be2 (length ?b mod 65536) @ ch_version ch @ ch_random ch"
  define H where "H = length (ch_bytes ch)"
  have H: "H = 4 + length ?b" by (simp add: H_def ch_bytes_def)
  have lh: "length h = 38" using ok by (simp add: h_def)
  define d where "d = ch_bytes ch"
  have d: "d = h @ char_of (length ?s) # ?s @ be2 (length ?c) @ ?c @ char_of (length ?m) # ?m @ be2 (length ?e) @ ?e"
    by (simp add: d_def ch_bytes_def ch_body_def h_def)
  have ld: "length d = H" by (simp add: d_def H_def)
  have size: "clientHelloSize d = ret H"
  proof -
    have "be16 d 2 = Inr (length ?b mod 65536)"
      using be16_at [of "length ?b mod 65536" 2 "[char_of (1::nat), char_of (length ?b div 65536)]" ?b] by (simp add: d_def ch_bytes_def)
    moreover have "d ! 0 = char_of (1::nat)" "d ! 1 = char_of (length ?b div 65536)" by (simp_all add: d_def ch_bytes_def)
    moreover have "length ?b div 65536 < 256" using lb by simp
    moreover have "\<not> length d < 4" "0 < length d" "1 < length d" using ld H by simp_all
    ultimately show ?thesis unfolding clientHelloSize_def by (simp add: H)
  qed
  have r: "go_nth d 38 = Inr (char_of (length ?s))" "be16 d (39 + length ?s) = Inr (length ?c)"
    "go_nth d (41 + length ?s + length ?c) = Inr (char_of (length ?m))"
    "be16 d (42 + length ?s + length ?c + length ?m) = Inr (length ?e)"
    using ok lh nth_at [of 38 h "char_of (length ?s)" "?s @ be2 (length ?c) @ ?c @ char_of (length ?m) # ?m @ be2 (length ?e) @ ?e"]
      be16_at [of "length ?c" "39 + length ?s" "h @ char_of (length ?s) # ?s" "?c @ char_of (length ?m) # ?m @ be2 (length ?e) @ ?e"]
      nth_at [of "41 + length ?s + length ?c" "h @ char_of (length ?s) # ?s @ be2 (length ?c) @ ?c" "char_of (length ?m)" "?m @ be2 (length ?e) @ ?e"]
      be16_at [of "length ?e" "42 + length ?s + length ?c + length ?m"
        "h @ char_of (length ?s) # ?s @ be2 (length ?c) @ ?c @ char_of (length ?m) # ?m" ?e]
    unfolding d by simp_all
  have x: "hello_extensions H d H (44 + length ?s + length ?c + length ?m) = ret (ch_name ch)"
    using ch_exts_found [OF assms, of "44 + length ?s + length ?c + length ?m"
      "h @ char_of (length ?s) # ?s @ be2 (length ?c) @ ?c @ char_of (length ?m) # ?m @ be2 (length ?e)" H] lh H l
    unfolding d by simp
  have "hello_body H d = ret (ch_name ch)"
  proof -
    have H44: "44 + length ?s + length ?c + length ?m + length ?e = H" "42 + length ?s + length ?c + length ?m \<noteq> H" using H l by simp_all
    have n: "need H d n = ret ()" if "n \<le> 44 + length ?s + length ?c + length ?m" for n
      using that ld H l by (intro need_ok) simp_all
    have "of_char (char_of (length ?s)) = length ?s" "of_char (char_of (length ?m)) = length ?m" using ok by simp_all
    then show ?thesis unfolding hello_body_def Let_def using ok r x H44
      by (simp add: n add.assoc del: be16_ok go_nth_ok)
  qed
  moreover have "0 < length d" "d ! 0 = char_of (1::nat)" using ld H by (simp_all add: d_def ch_bytes_def)
  ultimately show ?thesis using size ld H unfolding ReadClientHello_def d_def [symmetric] by simp
qed

section \<open>Records\<close>

definition record_bytes :: "char \<Rightarrow> string \<Rightarrow> string" where
  "record_bytes minor f = char_of (0x16::nat) # char_of (3::nat) # minor # be2 (length f) @ f"

lemma record_at:
  assumes "w = length pre" and "length f \<le> 2 ^ 14" and "b = pre @ record_bytes minor f @ post"
  shows "record_length b w = length f" and "record_ok b w" and "hello_upto b w h = (if w = 0 then [] else h) @ f"
    and "w + 5 + length f \<le> length b"
proof -
  show l: "record_length b w = length f"
    using assms(2) by (simp add: assms(1,3) record_length_def record_bytes_def be2_def nth_append)
  show "record_ok b w"
    using assms(2) l by (simp add: assms(1,3) record_ok_def record_bytes_def nth_append IsValidTLSVersion_def tlsMaxPlaintext_def)
  show "hello_upto b w h = (if w = 0 then [] else h) @ f"
    unfolding hello_upto_def l by (simp add: assms(1,3) record_bytes_def)
  show "w + 5 + length f \<le> length b" by (simp add: assms(1,3) record_bytes_def)
qed

lemma sniff_records_fragments:
  assumes "fs \<noteq> []" and "\<forall>f\<in>set fs. f \<noteq> [] \<and> length f \<le> 2 ^ 14"
    and "ReadClientHello ((if pre = [] then [] else h) @ concat fs) = ret name"
  shows "sniff_records (pre @ concat (map (record_bytes minor) fs) @ post) (length pre) h = ret name"
  using assms
proof (induction fs arbitrary: pre h)
  case (Cons f fs)
  let ?h = "(if pre = [] then [] else h) @ f"
  let ?b = "pre @ record_bytes minor f @ concat (map (record_bytes minor) fs) @ post"
  have f: "f \<noteq> []" "length f \<le> 2 ^ 14" using Cons.prems(2) by auto
  note at = record_at [OF refl f(2), of ?b pre minor "concat (map (record_bytes minor) fs) @ post"]
  have w: "length pre + 5 \<le> length ?b" by (simp add: record_bytes_def)
  obtain r where r: "ReadClientHello ?h = Inr r" using hello.no_panic by blast
  have app: "ReadClientHello (?h @ concat fs) = ret name" using Cons.prems(3) by simp
  have step: "sniff_records ?b (length pre) h = (case ReadClientHello ?h of
      Inl p \<Rightarrow> Inl p
    | Inr (Inr domain) \<Rightarrow> ret domain
    | Inr (Inl (NeedAtLeast n)) \<Rightarrow> sniff_records ?b (length pre + 5 + length f) ?h
    | Inr (Inl e) \<Rightarrow> fail e)"
    using sniff_records_step [OF w, of h] at f by (simp add: Let_def split: sum.splits sniff_error.splits)
  show ?case
  proof (cases "\<exists>n. r = Inl (NeedAtLeast n)")
    case False
    then have "ReadClientHello (?h @ concat fs) = Inr r"
      using hello.verdict_kept [OF r, of "concat fs"] by (auto simp: settled_def split: sum.splits sniff_error.splits)
    then show ?thesis using step r app by (simp add: ret_def)
  next
    case True
    then obtain n where n: "r = Inl (NeedAtLeast n)" by blast
    have "fs \<noteq> []" using r n app by (auto simp: ret_def)
    moreover have "ReadClientHello ((if pre @ record_bytes minor f = [] then [] else ?h) @ concat fs) = ret name"
      using app by (simp add: record_bytes_def)
    ultimately have "sniff_records ((pre @ record_bytes minor f) @ concat (map (record_bytes minor) fs) @ post)
        (length (pre @ record_bytes minor f)) ?h = ret name"
      using Cons.prems(2) by (intro Cons.IH) auto
    moreover have "length (pre @ record_bytes minor f) = length pre + 5 + length f" by (simp add: record_bytes_def)
    ultimately have "sniff_records ?b (length pre + 5 + length f) ?h = ret name" by (simp add: add.assoc)
    then have "sniff_records ?b (length pre) h = ret name" unfolding step r n by simp
    then show ?thesis by simp
  qed
qed simp

lemma SniffTLS_fragments:
  assumes "ch_ok ch" and "concat fs = ch_bytes ch @ extra" and "\<forall>f\<in>set fs. f \<noteq> [] \<and> length f \<le> 2 ^ 14"
  shows "SniffTLS (concat (map (record_bytes minor) fs) @ post) = ret (ch_name ch)"
proof -
  have "ReadClientHello (ch_bytes ch @ extra) = ret (ch_name ch)"
    using hello.verdict_kept [of "ch_bytes ch" "Inr (ch_name ch)" extra] ReadClientHello_finds [OF assms(1)]
    by (simp add: ret_def settled_def)
  moreover have "fs \<noteq> []" using assms(2) by (auto simp: ch_bytes_def)
  ultimately show ?thesis
    using sniff_records_fragments [OF _ assms(3), of "[]" "[]"] assms(2) by (simp add: SniffTLS_def)
qed
end
