(* ===== verification/Sniffer_Http.thy ===== *)
theory Sniffer_Http
  imports Sniffer_Base Constants
begin

text \<open>
  The HTTP sniffer, \<open>src/component/sniffer/http_sniffer.go\<close>: the host in the request line or the \<open>Host\<close>
  field of an HTTP/1 request, or in the first header block of an HTTP/2 connection. The HPACK decoder
  is a record of functions: the new decoder, and \<open>Write\<close>, which returns the header fields that it
  handed to the callback and whether it failed.
\<close>

section \<open>Bytes\<close>

text \<open>\<open>bytes.Cut\<close>: the parts before and after the first occurrence.\<close>

fun Cut :: "string \<Rightarrow> string \<Rightarrow> (string \<times> string) option" where
  "Cut s sep =
     (if HasPrefix s sep then Some ([], drop (length sep) s)
      else case s of
        [] \<Rightarrow> None
      | c # cs \<Rightarrow> map_option (\<lambda>(a, b). (c # a, b)) (Cut cs sep))"

declare Cut.simps [simp del]

lemma Cut_Some: "Cut s sep = Some (a, b) \<Longrightarrow> s = a @ sep @ b"
proof (induction s arbitrary: a)
  case Nil
  then show ?case by (subst (asm) Cut.simps) (auto simp: HasPrefix_def split: if_splits)
next
  case (Cons c s)
  show ?case
  proof (cases "HasPrefix (c # s) sep")
    case True
    then show ?thesis using Cons.prems by (subst (asm) Cut.simps) (auto simp: HasPrefix_iff)
  next
    case False
    then show ?thesis using Cons.prems Cons.IH by (subst (asm) Cut.simps) auto
  qed
qed

lemma HasPrefix_append: "HasPrefix s p \<Longrightarrow> HasPrefix (s @ t) p"
  by (auto simp: HasPrefix_iff)

lemma HasPrefix_shorter: "HasPrefix (s @ t) p \<Longrightarrow> length p \<le> length s \<Longrightarrow> HasPrefix s p"
  by (simp add: HasPrefix_def)

lemma Cut_append: "Cut s sep = Some (a, b) \<Longrightarrow> Cut (s @ t) sep = Some (a, b @ t)"
proof (induction s arbitrary: a)
  case Nil
  then show ?case by (subst (asm) Cut.simps, subst Cut.simps) (auto simp: HasPrefix_def split: if_splits)
next
  case (Cons c s)
  show ?case
  proof (cases "HasPrefix (c # s) sep")
    case True
    then have "HasPrefix ((c # s) @ t) sep" by (rule HasPrefix_append)
    moreover from True obtain u where "c # s = sep @ u" by (auto simp: HasPrefix_iff)
    moreover from this have "c # s @ t = sep @ u @ t" using append_Cons [of c s t] by simp
    ultimately show ?thesis using True Cons.prems
      by (subst (asm) Cut.simps, subst Cut.simps) simp
  next
    case False
    from Cons.prems False obtain a' where a: "Cut s sep = Some (a', b)" "a = c # a'"
      by (subst (asm) Cut.simps) auto
    have "\<not> HasPrefix ((c # s) @ t) sep"
    proof
      assume "HasPrefix ((c # s) @ t) sep"
      moreover have "length sep \<le> length (c # s)" using Cut_Some [OF Cons.prems] by simp
      ultimately have "HasPrefix (c # s) sep" by (rule HasPrefix_shorter)
      with False show False by simp
    qed
    with Cons.IH [OF a(1)] a show ?thesis by (subst Cut.simps) simp
  qed
qed

lemma Cut_byte: "Cut s [x] = None \<longleftrightarrow> x \<notin> set s"
proof (induction s)
  case Nil
  show ?case by (subst Cut.simps) (simp add: HasPrefix_def)
next
  case (Cons c s)
  then show ?case by (subst Cut.simps) (auto simp: HasPrefix_def)
qed

lemma Cut_byte_before: "Cut s [x] = Some (a, b) \<Longrightarrow> x \<notin> set a"
proof (induction s arbitrary: a)
  case Nil
  then show ?case by (subst (asm) Cut.simps) (auto simp: HasPrefix_def split: if_splits)
next
  case (Cons c s)
  then show ?case by (subst (asm) Cut.simps) (auto simp: HasPrefix_def split: if_splits)
qed

definition TrimRight :: "string \<Rightarrow> string \<Rightarrow> string" where
  "TrimRight s cutset = rev (dropWhile (\<lambda>c. c \<in> set cutset) (rev s))"

definition CRLF :: string where
  "CRLF = [CHR 0x0D, CHR 0x0A]"

definition httpMethods :: "string list" where
  "httpMethods = [''GET'', ''POST'', ''HEAD'', ''PUT'', ''DELETE'', ''OPTIONS'', ''CONNECT'', ''PATCH'', ''TRACE'']"

definition h2ClientPreface :: string where
  "h2ClientPreface = ''PRI * HTTP/2.0'' @ CRLF @ CRLF @ ''SM'' @ CRLF @ CRLF"

section \<open>HTTP/1\<close>

definition isHTTPMethod :: "string \<Rightarrow> bool" where
  "isHTTPMethod method \<longleftrightarrow> list_ex (\<lambda>m. EqualFold method m) httpMethods"

definition isHTTPMethodPrefix :: "string \<Rightarrow> bool" where
  "isHTTPMethodPrefix prefix \<longleftrightarrow>
     list_ex (\<lambda>m. length prefix \<le> length m \<and> EqualFold prefix (take (length prefix) m)) httpMethods"

definition parseHost :: "string \<Rightarrow> string parse" where
  "parseHost h =
     (if length h = 0 then fail ErrNoClue
      else
        (let hs = (case SplitHostPort h of Some (host, _) \<Rightarrow> host | None \<Rightarrow> h)
         in pbind (lift (if HasPrefix hs ''['' \<and> HasSuffix hs '']'' then go_slice hs 1 (length hs - 1) else Inr hs)) (\<lambda>hs.
              let hs = ToLower (TrimRight hs ''.'')
              in if hs = '''' then fail ErrNoClue
                 else if ParseAddr hs \<noteq> None then fail ErrHostIsIP
                 else ret hs)))"

function host_lines :: "nat \<Rightarrow> string \<Rightarrow> string parse" where
  "host_lines totalLen rest =
     (case Cut rest CRLF of
        None \<Rightarrow> fail (NeedAtLeast (totalLen + 1))
      | Some (line, after) \<Rightarrow>
          if length line = 0 then fail ErrNoClue
          else (case Cut line '':'' of
                  None \<Rightarrow> host_lines totalLen after
                | Some (key, val) \<Rightarrow>
                    if \<not> EqualFold key ''host'' then host_lines totalLen after
                    else parseHost (TrimSpace val)))"
  by pat_completeness auto
termination by (relation "measure (\<lambda>(_, rest). length rest)") (auto dest!: Cut_Some simp: CRLF_def)

declare host_lines.simps [simp del]

definition parseHeaderHostH1 :: "string \<Rightarrow> string parse" where
  "parseHeaderHostH1 b = host_lines (length b) b"

text \<open>The part of the request target that can be a host.\<close>

definition target_authority :: "string \<Rightarrow> string" where
  "target_authority uri =
     (let uri = (case Cut uri ''://'' of Some (_, afterScheme) \<Rightarrow> afterScheme | None \<Rightarrow> uri);
          uri = takeWhile (\<lambda>c. c \<notin> set ''/?#'') uri
      in case Cut uri ''@'' of Some (_, afterAt) \<Rightarrow> afterAt | None \<Rightarrow> uri)"

definition request_line :: "string \<Rightarrow> string \<Rightarrow> string parse" where
  "request_line b req =
     (if length req < 14 then fail ErrNoClue
      else (case Cut req '' '' of
              None \<Rightarrow> fail ErrNoClue
            | Some (_, rest) \<Rightarrow>
                (case Cut rest '' '' of
                   None \<Rightarrow> fail ErrNoClue
                 | Some (uri, _) \<Rightarrow>
                     if length uri = 0 then fail ErrNoClue
                     else if uri ! 0 = CHR ''/'' \<or> uri ! 0 = CHR ''*'' then parseHeaderHostH1 b
                     else (case parseHost (target_authority uri) of
                             Inl p \<Rightarrow> Inl p
                           | Inr (Inl err) \<Rightarrow> parseHeaderHostH1 b
                           | Inr (Inr h) \<Rightarrow> ret h))))"

definition sniffHTTP1 :: "string \<Rightarrow> string parse" where
  "sniffHTTP1 b =
     (case Cut b '' '' of
        None \<Rightarrow> if isHTTPMethodPrefix b then fail (NeedAtLeast (length b + 1)) else fail ErrNotHTTP
      | Some (method, _) \<Rightarrow>
          if \<not> isHTTPMethod method then fail ErrNotHTTP
          else (case Cut b CRLF of
                  None \<Rightarrow> fail (NeedAtLeast (length b + 1))
                | Some (req, _) \<Rightarrow> request_line b req))"

section \<open>HTTP/2\<close>

record 'd hpack_ops =
  hp_NewDecoder :: 'd
  hp_Write :: "'d \<Rightarrow> string \<Rightarrow> 'd \<times> (string \<times> string) list \<times> bool"

text \<open>What the callback keeps of the header fields.\<close>

record h2_fields =
  h2_authority :: string
  h2_host :: string

definition h2_field :: "string \<times> string \<Rightarrow> h2_fields \<Rightarrow> h2_fields" where
  "h2_field f s =
     (if fst f = '':authority'' then s\<lparr>h2_authority := snd f\<rparr>
      else if fst f = ''host'' then s\<lparr>h2_host := snd f\<rparr>
      else s)"

definition has_flag :: "char \<Rightarrow> 8 word \<Rightarrow> bool" where
  "has_flag flags m = ((of_char flags :: 8 word) AND m \<noteq> 0)"

definition be32 :: "string \<Rightarrow> nat" where
  "be32 s = foldl (\<lambda>n c. n * 256 + of_char c) 0 s"

text \<open>What a frame header alone decides: \<open>False\<close> for a connection that cannot be HTTP/2.\<close>

definition frame_ok :: "bool \<Rightarrow> nat \<Rightarrow> nat \<Rightarrow> nat \<Rightarrow> char \<Rightarrow> nat \<Rightarrow> bool" where
  "frame_ok first headerStreamID len frameType flags streamID \<longleftrightarrow>
     \<not> (first \<and> (frameType \<noteq> 0x4 \<or> has_flag flags 0x1)) \<and>
     \<not> len > 2 ^ 14 \<and>
     \<not> (frameType = 0x4 \<and>
        (streamID \<noteq> 0 \<or> has_flag flags 0x1 \<and> len \<noteq> 0 \<or> \<not> has_flag flags 0x1 \<and> len mod 6 \<noteq> 0)) \<and>
     (if headerStreamID = 0 then frameType \<noteq> 0x9 \<and> \<not> (frameType = 0x1 \<and> streamID = 0)
      else frameType = 0x9 \<and> streamID = headerStreamID)"

text \<open>The part of the payload that holds header fields: its start and its end.\<close>

definition fragment :: "nat \<Rightarrow> string \<Rightarrow> nat \<Rightarrow> nat \<Rightarrow> char \<Rightarrow> (nat \<times> nat) parse" where
  "fragment payloadOffset b len frameType flags =
     (if frameType \<noteq> 0x1 then ret (0, len)
      else
        pbind
          (if has_flag flags 0x8 then
             if len = 0 then fail ErrNoClue
             else if length b = 0 then fail (NeedAtLeast (payloadOffset + 1))
             else pbind (lift (go_nth b 0)) (\<lambda>c.
               let padLen = of_char c in if padLen \<ge> len then fail ErrNoClue else ret (1, len - padLen))
           else ret (0, len))
          (\<lambda>(fragmentStart, fragmentEnd).
             if has_flag flags 0x20 then
               if fragmentEnd - fragmentStart < 5 then fail ErrNoClue else ret (fragmentStart + 5, fragmentEnd)
             else ret (fragmentStart, fragmentEnd)))"

text \<open>Decoding a part of the payload: a host, or the decoder and the fields to go on with.\<close>

definition decode_fragment :: "'d hpack_ops \<Rightarrow> 'd \<Rightarrow> h2_fields \<Rightarrow> string \<Rightarrow> nat \<Rightarrow> nat \<Rightarrow> (string + 'd \<times> h2_fields) parse" where
  "decode_fragment X decoder flds b fragmentStart availableEnd =
     (if availableEnd > fragmentStart then
        pbind (lift (go_slice b fragmentStart availableEnd)) (\<lambda>p.
          case hp_Write X decoder p of
            (decoder, fs, failed) \<Rightarrow>
              let flds = fold h2_field fs flds
              in if h2_authority flds \<noteq> '''' then pbind (parseHost (h2_authority flds)) (\<lambda>h. ret (Inl h))
                 else if h2_host flds \<noteq> '''' then pbind (parseHost (h2_host flds)) (\<lambda>h. ret (Inl h))
                 else if failed then fail ErrNoClue
                 else ret (Inr (decoder, flds)))
      else ret (Inr (decoder, flds)))"

function h2_frames :: "'d hpack_ops \<Rightarrow> nat \<Rightarrow> string \<Rightarrow> 'd \<Rightarrow> h2_fields \<Rightarrow> nat \<Rightarrow> string parse" where
  "h2_frames X totalLen b decoder flds headerStreamID =
     (if length b < 9 then fail (NeedAtLeast (totalLen - length b + 9))
      else
        (let len = be32 (take 3 b);
             frameType = of_char (b ! 3) :: nat;
             flags = b ! 4;
             streamID = be32 (take 4 (drop 5 b)) mod 2 ^ 31;
             b = drop 9 b;
             payloadOffset = totalLen - length b
         in if \<not> frame_ok (payloadOffset = length h2ClientPreface + 9) headerStreamID len frameType flags streamID then fail ErrNoClue
            else if headerStreamID = 0 \<and> frameType \<noteq> 0x1 then
              if length b < len then fail (NeedAtLeast (payloadOffset + len))
              else h2_frames X totalLen (drop len b) decoder flds headerStreamID
            else
              (let headerStreamID = (if headerStreamID = 0 then streamID else headerStreamID)
               in pbind (fragment payloadOffset b len frameType flags) (\<lambda>(fragmentStart, fragmentEnd).
                 let availableEnd = min (length b) fragmentEnd
                 in pbind (decode_fragment X decoder flds b fragmentStart availableEnd) (\<lambda>r.
                      case r of
                        Inl h \<Rightarrow> ret h
                      | Inr (decoder, flds) \<Rightarrow>
                          if has_flag flags 0x4 \<and> (fragmentStart = fragmentEnd \<or> availableEnd = fragmentEnd) then fail ErrNoClue
                          else if length b < len then
                            fail (NeedAtLeast
                              (if availableEnd < fragmentEnd then
                                 if length b < fragmentStart then payloadOffset + fragmentStart + 1 else totalLen + 1
                               else payloadOffset + len))
                          else h2_frames X totalLen (drop len b) decoder flds headerStreamID)))))"
  by pat_completeness auto
termination by (relation "measure (\<lambda>(X, totalLen, b, _). length b)") auto

declare h2_frames.simps [simp del]

definition sniffHTTP2 :: "'d hpack_ops \<Rightarrow> string \<Rightarrow> string parse" where
  "sniffHTTP2 X b =
     h2_frames X (length b) (drop (length h2ClientPreface) b) (hp_NewDecoder X) \<lparr>h2_authority = '''', h2_host = ''''\<rparr> 0"

definition HTTP_SniffData :: "'d hpack_ops \<Rightarrow> string \<Rightarrow> string parse" where
  "HTTP_SniffData X b =
     (if length b < length h2ClientPreface then
        if HasPrefix h2ClientPreface b then fail (NeedAtLeast (length b + 1)) else sniffHTTP1 b
      else if HasPrefix b h2ClientPreface then sniffHTTP2 X b
      else sniffHTTP1 b)"

section \<open>Incremental reading\<close>

lemma parseHost_settles: "\<exists>r. parseHost h = Inr r \<and> (\<forall>n. r \<noteq> Inl (NeedAtLeast n))"
proof -
  have "1 \<le> length hs - 1" if "HasPrefix hs ''[''" "HasSuffix hs '']''" for hs
  proof (cases hs)
    case (Cons c cs)
    with that show ?thesis by (cases cs) (auto simp: HasPrefix_def HasSuffix_def)
  qed (use that in \<open>simp add: HasPrefix_def\<close>)
  then have *: "lift (if HasPrefix hs ''['' \<and> HasSuffix hs '']'' then go_slice hs 1 (length hs - 1) else Inr hs)
      = ret (if HasPrefix hs ''['' \<and> HasSuffix hs '']'' then take (length hs - 1 - 1) (drop 1 hs) else hs)" for hs
    by simp
  show ?thesis unfolding parseHost_def Let_def * by (simp add: fail_def ret_def)
qed

lemma host_lines_cases:
  "(\<exists>r. host_lines n rest = Inr r \<and> (\<forall>l. r \<noteq> Inl (NeedAtLeast l)) \<and> (\<forall>m c. host_lines m (rest @ c) = Inr r))
     \<or> host_lines n rest = fail (NeedAtLeast (n + 1))"
proof (induction n rest rule: host_lines.induct)
  case (1 n rest)
  show ?case
  proof (cases "Cut rest CRLF")
    case None
    then show ?thesis by (simp add: host_lines.simps)
  next
    case (Some p)
    then obtain line after where p: "Cut rest CRLF = Some (line, after)" by (cases p) auto
    note app = Cut_append [OF p]
    show ?thesis
    proof (cases "line = [] \<or> (\<exists>k v. Cut line '':'' = Some (k, v) \<and> EqualFold k ''host'')")
      case True
      have "\<exists>r. (\<forall>l. r \<noteq> Inl (NeedAtLeast l)) \<and> (\<forall>m c. host_lines m (rest @ c) = Inr r)"
      proof (cases "line = []")
        case True
        then show ?thesis using app by (intro exI [of _ "Inl ErrNoClue"]) (simp add: host_lines.simps [of _ "rest @ _"] fail_def)
      next
        case False
        with True obtain k v where kv: "Cut line '':'' = Some (k, v)" "EqualFold k ''host''" by auto
        from parseHost_settles [of "TrimSpace v"] obtain r where
          "parseHost (TrimSpace v) = Inr r" "\<forall>n. r \<noteq> Inl (NeedAtLeast n)" by blast
        with kv False app show ?thesis by (intro exI [of _ r]) (simp add: host_lines.simps [of _ "rest @ _"])
      qed
      then show ?thesis by (metis append_Nil2)
    next
      case False
      then have eq: "host_lines m (rest @ c) = host_lines m (after @ c)" for m c
        using app [of c] by (auto simp: host_lines.simps [of m "rest @ c"] split: option.splits)
      have "(\<exists>r. host_lines n after = Inr r \<and> (\<forall>l. r \<noteq> Inl (NeedAtLeast l)) \<and> (\<forall>m c. host_lines m (after @ c) = Inr r))
          \<or> host_lines n after = fail (NeedAtLeast (n + 1))"
      proof (cases "Cut line '':''")
        case None
        then show ?thesis using "1.IH"(1) [OF p] False by auto
      next
        case (Some q)
        then show ?thesis using "1.IH"(2) [OF p] False by (cases q) auto
      qed
      then show ?thesis using eq eq [of n "[]"] by simp
    qed
  qed
qed

text \<open>HTTP/1 asks for one byte more, or gives a verdict that it keeps.\<close>

definition one_more :: "(string \<Rightarrow> string parse) \<Rightarrow> string \<Rightarrow> bool" where
  "one_more F b \<longleftrightarrow> F b = fail (NeedAtLeast (length b + 1)) \<or>
     (\<exists>r. (\<forall>l. r \<noteq> Inl (NeedAtLeast l)) \<and> (\<forall>c. F (b @ c) = Inr r))"

lemma one_more_fail: "(\<And>c. F (b @ c) = fail e) \<Longrightarrow> (\<And>l. e \<noteq> NeedAtLeast l) \<Longrightarrow> one_more F b"
  unfolding one_more_def by (intro disjI2 exI [of _ "Inl e"]) (simp add: fail_def)

lemma one_more_const: "(\<And>l. e \<noteq> NeedAtLeast l) \<Longrightarrow> one_more (\<lambda>b. fail e) b"
  by (rule one_more_fail) simp_all

lemma one_more_cong: "(\<And>c. F (b @ c) = G (b @ c)) \<Longrightarrow> one_more G b \<Longrightarrow> one_more F b"
  unfolding one_more_def by (metis append_Nil2)

lemma parseHeaderHostH1_one_more: "one_more parseHeaderHostH1 b"
  using host_lines_cases [of "length b" b] unfolding one_more_def parseHeaderHostH1_def by auto

lemma one_more_guarded: "(\<And>b. one_more F b) \<Longrightarrow> guarded 0 (\<lambda>_. True) F"
proof (rule guardedI)
  fix b :: string
  assume "\<And>b. one_more F b"
  then have "one_more F b" .
  then show "\<exists>r. F b = Inr r \<and> settled r (length b) \<and> (\<forall>l. r = Inl (NeedAtLeast l) \<longrightarrow> True) \<and>
      (\<forall>c. settled r (length (b @ c)) \<longrightarrow> F (b @ c) = Inr r)"
    unfolding one_more_def
  proof
    assume "F b = fail (NeedAtLeast (length b + 1))"
    then show ?thesis by (intro exI [of _ "Inl (NeedAtLeast (length b + 1))"]) (auto simp: fail_def settled_def)
  next
    assume "\<exists>r. (\<forall>l. r \<noteq> Inl (NeedAtLeast l)) \<and> (\<forall>c. F (b @ c) = Inr r)"
    then obtain r where r: "\<forall>l. r \<noteq> Inl (NeedAtLeast l)" "\<forall>c. F (b @ c) = Inr r" by blast
    from r(2) have "F b = Inr r" by (metis append_Nil2)
    with r show ?thesis by (intro exI [of _ r]) (auto simp: settled_def split: sum.splits sniff_error.splits)
  qed
qed

lemma EqualFold_take: "EqualFold s m \<Longrightarrow> EqualFold (take n s) (take n m)"
  unfolding EqualFold_def ToLower_def by (metis take_map)

lemma isHTTPMethodPrefix_shorter:
  assumes "isHTTPMethodPrefix (b @ c)"
  shows "isHTTPMethodPrefix b"
proof -
  from assms obtain m where m: "m \<in> set httpMethods" "length (b @ c) \<le> length m" "EqualFold (b @ c) (take (length (b @ c)) m)"
    by (auto simp: isHTTPMethodPrefix_def list_ex_iff)
  from EqualFold_take [OF m(3), of "length b"] m(2) have "EqualFold b (take (length b) m)" by (simp add: min_def)
  moreover have "length b \<le> length m" using m(2) by simp
  ultimately show ?thesis using m(1) by (auto simp: isHTTPMethodPrefix_def list_ex_iff)
qed

lemma isHTTPMethod_prefix: "isHTTPMethod b \<Longrightarrow> isHTTPMethodPrefix b"
proof -
  assume "isHTTPMethod b"
  then obtain m where m: "m \<in> set httpMethods" "EqualFold b m" by (auto simp: isHTTPMethod_def list_ex_iff)
  then have "length b = length m" unfolding EqualFold_def ToLower_def by (metis length_map)
  with m show ?thesis by (auto simp: isHTTPMethodPrefix_def list_ex_iff)
qed

lemma request_line_one_more: "one_more (\<lambda>b. request_line b req) b"
proof -
  let ?target = "\<lambda>uri. parseHost (target_authority uri)"
  have host: "one_more (\<lambda>b. case ?target uri of Inl p \<Rightarrow> Inl p | Inr (Inl err) \<Rightarrow> parseHeaderHostH1 b | Inr (Inr h) \<Rightarrow> ret h) b" for uri
  proof -
    from parseHost_settles [of "target_authority uri"] obtain r where r: "?target uri = Inr r" by blast
    show ?thesis
    proof (cases r)
      case (Inl e)
      then show ?thesis using r parseHeaderHostH1_one_more by simp
    next
      case (Inr h)
      then show ?thesis using r by (auto simp: one_more_def ret_def)
    qed
  qed
  have uri: "one_more (\<lambda>b. if length uri = 0 then fail ErrNoClue
      else if uri ! 0 = CHR ''/'' \<or> uri ! 0 = CHR ''*'' then parseHeaderHostH1 b
      else (case ?target uri of Inl p \<Rightarrow> Inl p | Inr (Inl err) \<Rightarrow> parseHeaderHostH1 b | Inr (Inr h) \<Rightarrow> ret h)) b" for uri
    using host [of uri] parseHeaderHostH1_one_more
    by (cases "uri = []"; cases "uri ! 0 = CHR ''/'' \<or> uri ! 0 = CHR ''*''") (simp_all add: one_more_const)
  show ?thesis
  proof (cases "length req < 14 \<or> Cut req '' '' = None \<or> Cut (snd (the (Cut req '' ''))) '' '' = None")
    case True
    then have "request_line b req = fail ErrNoClue" for b by (auto simp: request_line_def split: option.splits)
    then show ?thesis by (simp add: one_more_const)
  next
    case False
    then obtain a rest u v where "Cut req '' '' = Some (a, rest)" "Cut rest '' '' = Some (u, v)" "\<not> length req < 14" by auto
    then show ?thesis using uri [of u] unfolding request_line_def by (simp only: if_False option.case prod.case)
  qed
qed

lemma sniffHTTP1_one_more: "one_more sniffHTTP1 b"
proof (cases "Cut b '' ''")
  case None
  show ?thesis
  proof (cases "isHTTPMethodPrefix b")
    case True
    then show ?thesis using None by (simp add: one_more_def sniffHTTP1_def)
  next
    case False
    have "sniffHTTP1 (b @ c) = fail ErrNotHTTP" for c
    proof (cases "Cut (b @ c) '' ''")
      case None
      then show ?thesis using False isHTTPMethodPrefix_shorter [of b c] by (auto simp: sniffHTTP1_def)
    next
      case (Some p)
      then obtain m rest where p: "Cut (b @ c) '' '' = Some (m, rest)" by (cases p) auto
      have "CHR '' '' \<notin> set b" using None by (simp add: Cut_byte)
      moreover have "b @ c = m @ CHR '' '' # rest" using Cut_Some [OF p] by simp
      ultimately obtain u where "m = b @ u"
        by (auto simp: append_eq_append_conv2 append_eq_Cons_conv)
      then have "\<not> isHTTPMethod m" using False isHTTPMethod_prefix isHTTPMethodPrefix_shorter by blast
      with p show ?thesis by (simp add: sniffHTTP1_def)
    qed
    then show ?thesis by (rule one_more_fail) simp
  qed
next
  case (Some p)
  then obtain m rest where m: "Cut b '' '' = Some (m, rest)" by (cases p) auto
  note m' = Cut_append [OF m]
  show ?thesis
  proof (cases "isHTTPMethod m")
    case False
    then show ?thesis using m' by (intro one_more_fail [where e = ErrNotHTTP]) (simp_all add: sniffHTTP1_def)
  next
    case True
    show ?thesis
    proof (cases "Cut b CRLF")
      case None
      then show ?thesis using m True by (simp add: one_more_def sniffHTTP1_def)
    next
      case (Some q)
      then obtain req after where q: "Cut b CRLF = Some (req, after)" by (cases q) auto
      show ?thesis
        by (rule one_more_cong [OF _ request_line_one_more [of req]]) (simp add: sniffHTTP1_def m' True Cut_append [OF q])
    qed
  qed
qed

interpretation http1: incremental sniffHTTP1
  by (rule guarded_incremental [OF one_more_guarded [OF sniffHTTP1_one_more]])

text \<open>HTTP/2 asks for more bytes than there are.\<close>

definition careful :: "nat \<Rightarrow> 'a parse \<Rightarrow> bool" where
  "careful n m \<longleftrightarrow> (\<exists>r. m = Inr r \<and> (\<forall>l. r = Inl (NeedAtLeast l) \<longrightarrow> n < l))"

lemma careful_simps [simp]:
  "careful n (ret x)"
  "careful n (fail (NeedAtLeast l)) \<longleftrightarrow> n < l"
  "careful n (fail ErrNoClue)"
  by (auto simp: careful_def ret_def fail_def)

lemma careful_bind: "careful n m \<Longrightarrow> (\<And>x. m = Inr (Inr x) \<Longrightarrow> careful n (f x)) \<Longrightarrow> careful n (pbind m f)"
  by (auto simp: careful_def pbind_def split: sum.splits)

lemma careful_if: "(b \<Longrightarrow> careful n x) \<Longrightarrow> (\<not> b \<Longrightarrow> careful n y) \<Longrightarrow> careful n (if b then x else y)"
  by simp

lemma careful_prod: "(\<And>i j. careful n (f i j)) \<Longrightarrow> careful n (case x of (i, j) \<Rightarrow> f i j)"
  by (cases x) simp

lemma careful_parseHost: "careful n (parseHost h)"
  using parseHost_settles [of h] by (auto simp: careful_def)

lemma careful_slice: "i \<le> j \<Longrightarrow> j \<le> length b \<Longrightarrow> careful n (lift (go_slice b i j))"
  by simp

lemma fragment_careful:
  "careful (p + length b) (fragment p b len t flags)
     \<and> (\<forall>s e. fragment p b len t flags = Inr (Inr (s, e)) \<longrightarrow> s \<le> e \<and> e \<le> len)"
proof -
  define m where "m = (if has_flag flags 0x8 then
             if len = 0 then fail ErrNoClue
             else if length b = 0 then fail (NeedAtLeast (p + 1))
             else pbind (lift (go_nth b 0)) (\<lambda>c.
               let padLen = of_char c in if padLen \<ge> len then fail ErrNoClue else ret (1, len - padLen))
           else ret (0::nat, len))"
  have "careful (p + length b) m \<and> (\<forall>s e. m = Inr (Inr (s, e)) \<longrightarrow> s \<le> e \<and> e \<le> len)"
    by (cases b) (auto simp: m_def go_nth_def Let_def)
  then show ?thesis
    unfolding fragment_def m_def [symmetric]
    by (auto simp: pbind_eq_ret intro!: careful_bind split: if_splits)
qed

lemma decode_careful: "j \<le> length b \<Longrightarrow> careful n (decode_fragment X dec s b i j)"
  by (auto simp: decode_fragment_def Let_def intro!: careful_bind careful_parseHost split: prod.split)

lemma h2_frames_careful: "length b \<le> n \<Longrightarrow> careful n (h2_frames X n b dec s k)"
proof (induction "length b" arbitrary: b dec s k rule: less_induct)
  case less
  show ?case
  proof (cases "length b < 9")
    case True
    then show ?thesis using less.prems by (simp add: h2_frames.simps [of X n b])
  next
    case False
    define c p where "c = drop 9 b" and "p = n - length c"
    have IH: "careful n (h2_frames X n (drop len c) dec s k)" for len dec s k
      using False less.prems by (intro less.hyps) (auto simp: c_def)
    have p: "p + length c = n" using less.prems by (simp add: c_def p_def)
    have frag: "careful n (fragment p c len t flags)" for len t flags using fragment_careful [of p c] p by metis
    have block: "careful n (pbind (decode_fragment X dec s c i (min (length c) j)) (\<lambda>r.
        case r of
          Inl h \<Rightarrow> ret h
        | Inr (dec, s) \<Rightarrow>
            if has_flag flags 0x4 \<and> (i = j \<or> min (length c) j = j) then fail ErrNoClue
            else if length c < len then
              fail (NeedAtLeast (if min (length c) j < j then if length c < i then p + i + 1 else n + 1 else p + len))
            else h2_frames X n (drop len c) dec s k))" for dec s i j len flags k
      using p IH by (intro careful_bind decode_careful) (auto split: sum.split)
    show ?thesis
      by (subst h2_frames.simps, unfold Let_def c_def [symmetric] p_def [symmetric])
        (intro careful_if careful_bind [OF frag] careful_prod block IH; use False p in simp)
  qed
qed

text \<open>
  The whole sniffer asks for more bytes than there are; off HTTP/2 it also keeps its verdict. With an
  HTTP/2 header block that repeats the authority, the answer depends on how much of the block has
  arrived, since the last of the fields that were decoded in one step counts.
\<close>

interpretation http: cautious "HTTP_SniffData X"
proof unfold_locales
  have "careful (length d) (HTTP_SniffData X d)" for d
  proof -
    have "careful (length d) (sniffHTTP1 d)"
      using http1.no_panic [of d] http1.asks_for_more [of d] by (auto simp: careful_def)
    then show ?thesis
      by (auto simp: HTTP_SniffData_def sniffHTTP2_def intro!: h2_frames_careful)
  qed
  then show "\<exists>r. HTTP_SniffData X d = Inr r" "HTTP_SniffData X d = Inr (Inl (NeedAtLeast l)) \<Longrightarrow> length d < l" for d l
    unfolding careful_def by (metis, metis sum.inject(2))
qed

lemma HTTP_verdict_kept:
  assumes "HTTP_SniffData X d = Inr r" and "settled r (length (d @ c))" and "\<not> HasPrefix d h2ClientPreface"
  shows "HTTP_SniffData X (d @ c) = Inr r"
proof (cases "HasPrefix h2ClientPreface d")
  case True
  then obtain t where t: "h2ClientPreface = d @ t" by (auto simp: HasPrefix_iff)
  then have "t \<noteq> []" using assms(3) by (auto simp: HasPrefix_iff)
  then have "length d < length h2ClientPreface" using arg_cong [OF t, of length] by simp
  then have "r = Inl (NeedAtLeast (length d + 1))" using assms(1) True by (simp add: HTTP_SniffData_def fail_def)
  then have "c = []" using assms(2) by (simp add: settled_def)
  then show ?thesis using assms(1) by simp
next
  case False
  then have d: "sniffHTTP1 d = Inr r" using assms(1,3) by (auto simp: HTTP_SniffData_def split: if_splits)
  have "\<not> HasPrefix h2ClientPreface (d @ c)" using False by (auto simp: HasPrefix_iff)
  moreover have "\<not> HasPrefix (d @ c) h2ClientPreface"
  proof
    assume *: "HasPrefix (d @ c) h2ClientPreface"
    show False
    proof (cases "length h2ClientPreface \<le> length d")
      case True
      then show ?thesis using * HasPrefix_shorter assms(3) by blast
    next
      case False
      with * have "HasPrefix h2ClientPreface d" by (auto simp: HasPrefix_iff append_eq_append_conv2 intro: sym)
      then show ?thesis using \<open>\<not> HasPrefix h2ClientPreface d\<close> by simp
    qed
  qed
  ultimately show ?thesis using http1.verdict_kept [OF d assms(2)] by (simp add: HTTP_SniffData_def)
qed
end
