(* ===== verification/Sniffer_Properties.thy ===== *)
theory Sniffer_Properties
  imports Sniffer_Tls_Wire Sniffer_Http
begin

text \<open>The properties of the sniffers.\<close>

text \<open>
  C8: The TLS sniffer finds the server name of a ClientHello, however it is cut into records and
  however much of it has arrived. On the whole connection it returns the name; on every part that has
  arrived so far it either returns the name already or asks for a longer prefix, never panics and never
  gives another verdict; and until that length has arrived it gives the same answer, so that it never
  asks for more than it needs. The message may have other extensions before and after the server name
  and other names in it; records are at most \<open>2 ^ 14\<close> bytes long and any bytes may follow.
\<close>
theorem tls_server_name_found:
  assumes "ch_ok ch" and "concat fs = ch_bytes ch @ extra" and "\<forall>f\<in>set fs. f \<noteq> [] \<and> length f \<le> 2 ^ 14"
    and "wire = concat (map (record_bytes minor) fs) @ post"
  shows "SniffTLS wire = ret (ch_name ch) \<and>
    (\<forall>k\<le>length wire. SniffTLS (take k wire) = ret (ch_name ch) \<or>
       (\<exists>n>k. \<forall>j. k \<le> j \<and> j < n \<longrightarrow> SniffTLS (take j wire) = fail (NeedAtLeast n)))"
proof (intro conjI allI impI)
  show whole: "SniffTLS wire = ret (ch_name ch)" using SniffTLS_fragments [OF assms(1-3)] assms(4) by simp
  fix k assume k: "k \<le> length wire"
  have split: "take j wire = take k wire @ take (j - k) (drop k wire)" if "k \<le> j" for j
    using that by (metis le_add_diff_inverse take_add)
  obtain r where r: "SniffTLS (take k wire) = Inr r" using tls.no_panic by blast
  show "SniffTLS (take k wire) = ret (ch_name ch) \<or>
       (\<exists>n>k. \<forall>j. k \<le> j \<and> j < n \<longrightarrow> SniffTLS (take j wire) = fail (NeedAtLeast n))"
  proof (cases "\<exists>n. r = Inl (NeedAtLeast n)")
    case True
    then obtain n where n: "r = Inl (NeedAtLeast n)" by blast
    have "k < n" using tls.asks_for_more [of "take k wire" n] r n k by simp
    moreover have "SniffTLS (take j wire) = fail (NeedAtLeast n)" if "k \<le> j" "j < n" for j
      unfolding split [OF that(1)] using tls.verdict_kept [OF r, of "take (j - k) (drop k wire)"] n that k
      by (simp add: settled_def fail_def)
    ultimately show ?thesis by blast
  next
    case False
    then have "SniffTLS (take k wire @ drop k wire) = Inr r"
      using tls.verdict_kept [OF r, of "drop k wire"] by (auto simp: settled_def split: sum.splits sniff_error.splits)
    then show ?thesis using whole r by simp
  qed
qed

text \<open>A message with another extension first, cut into two records.\<close>

definition hello_example :: client_hello where
  "hello_example = \<lparr>ch_version = ''ab'', ch_random = replicate 32 CHR ''r'', ch_session = ''s'', ch_ciphers = ''cc'',
     ch_compression = ''m'', ch_before = [(16, ''h2'')], ch_other_names = [], ch_name = ''a.b'', ch_more_names = [], ch_after = []\<rparr>"

theorem tls_server_name_found_witness:
  "SniffTLS (concat (map (record_bytes CHR 0x01) [take 10 (ch_bytes hello_example), drop 10 (ch_bytes hello_example)]) @ ''x'')
     = ret ''a.b''"
proof -
  have "ch_ok hello_example"
    by (simp add: ch_ok_def hello_example_def ch_exts_def ch_sni_def exts_bytes_def sni_bytes_def ext_bytes_def name_bytes_def HasSuffix_def)
  moreover have l: "length (ch_bytes hello_example) = 66"
    by (simp add: ch_bytes_def ch_body_def hello_example_def ch_exts_def ch_sni_def exts_bytes_def sni_bytes_def ext_bytes_def name_bytes_def)
  then have "\<forall>f\<in>set [take 10 (ch_bytes hello_example), drop 10 (ch_bytes hello_example)]. f \<noteq> [] \<and> length f \<le> 2 ^ 14"
    by auto
  ultimately show ?thesis
    using tls_server_name_found [of hello_example "[take 10 (ch_bytes hello_example), drop 10 (ch_bytes hello_example)]" "[]" _ "CHR 0x01" "''x''"]
    by (simp add: hello_example_def)
qed
end
