(* ===== verification/Spec2Isabelle.thy ===== *)
theory Spec2Isabelle
  imports Deque_Proofs Go_Queue Lru_Properties Fakeip_Properties Wildcard Domain_Trie_Properties Int_Ranges Netip_Text Tunnel_Properties Domain_Set_Properties Rule_Provider_Properties Sniffer_Properties
begin

text \<open>
  Verification of parts of Hako, a rule-based network tunnel written in Go. A connection enters
  through a listener as a value of metadata; the tunnel matches it against the configured rules and
  sends it to the outbound proxy that the first usable rule names. DNS answers can be fake addresses
  from a pool, which the tunnel turns back into host names before it matches. Below these parts are
  containers: queues, a cache, tries, integer ranges.

  \<^bold>\<open>Conventions.\<close> A Go function that can panic returns \<open>go_panic + 'a\<close>, one that returns an error
  returns a sum of an error type and a value, and one that may not return normally returns an option
  with \<open>None\<close> for that case. Loops without a bound in the code are partial functions into options;
  a claim that they return is a theorem. Unsigned integers are words of their width where they can
  wrap. State is passed explicitly: mutable objects that are shared live in a heap (the entries of
  the cache), trees of nodes are values of a datatype, and Go maps are association lists whose order
  stands for the order in which Go happens to range over them. Readings of the clock are arguments.
  Code outside the repository is a record of functions, and what its documentation promises is a
  locale: \<open>glist\<close> for the linked list, \<open>bolt_db\<close> for the database, \<open>bitmap_index\<close> for the bitmap package,
  \<open>ip_ranges\<close> for netipx. Interfaces inside the repository
  are locales too: \<open>fifo\<close> and \<open>lifo\<close> for the containers, \<open>fakeip_store\<close> for the stores of the pool.
  Every locale is interpreted on the definitions of the model.

  \<^bold>\<open>Shared theories.\<close> \<open>Hako_Prelude\<close> has the results of code that panics, slices and bit masks;
  \<open>Seq_Interfaces\<close> the interfaces of the containers. \<open>Go_Strings\<close>, \<open>Netip\<close> and \<open>Netip_Text\<close> model
  what the sources use of Go's \<open>strings\<close>, \<open>strconv\<close> and \<open>net/netip\<close>. Strings are lists of bytes; upper
  and lower case and white space are those of ASCII.

  \<^bold>\<open>Containers.\<close>
  \<^item> \<open>Go_Queue\<close>: \<open>src/common/queue\<close>. The queue is a \<open>fifo\<close>; two concurrent calls of \<open>Pop\<close>, in the two
    steps that the lock separates, can panic.
  \<^item> \<open>Deque\<close>, \<open>Deque_Proofs\<close>: \<open>src/common/deque\<close>, every operation. Any run of calls computes what it
    computes on a list, panics included; states outside the invariant that \<open>Copy\<close>, \<open>CopyInSlice\<close> and
    \<open>IterPopFront\<close> reach panic or loop.
  \<^item> \<open>Lru_Cache\<close>, \<open>Lru_Spec\<close>, \<open>Lru_Properties\<close>: \<open>src/common/lru\<close>. Any run of calls refines a
    specification on the list of entries in recency order, for every list package that keeps \<open>glist\<close>.
  \<^item> \<open>Wildcard\<close>: \<open>src/component/wildcard\<close>. The loop with one backtracking point decides the recursive
    meaning of a pattern.
  \<^item> \<open>Domain_Trie\<close>, \<open>Domain_Trie_Proofs\<close>, \<open>Domain_Trie_Properties\<close>: \<open>src/component/trie/domain.go\<close> and
    \<open>node.go\<close>. Which domains are found, which pattern wins, and that the listing rebuilds the trie.
  \<^item> \<open>Domain_Set\<close>: \<open>src/component/trie/domain_set.go\<close>, the immutable set of domains in a bitmap.
    \<open>Domain_Set_Index\<close> specifies the package that counts the ones of a bitmap (locale \<open>bitmap_index\<close>) and
    the trie of suffixes that the bitmap stands for, \<open>Domain_Set_Build\<close> shows that the loops of the builder
    write this trie, \<open>Domain_Set_Search\<close> that the search decides the byte-wise meaning of the keys, and
    \<open>Domain_Set_Properties\<close> relates it to patterns and to the domain trie. \<open>Domain_Set_Bin\<close> is the file
    format (\<open>domain_set_bin.go\<close>) over the readers and writers of \<open>Go_Binary\<close>, with the round trip;
    \<open>Domain_Set_Listing\<close> shows that the listing gives every key once.
  \<^item> \<open>Ip_Cidr_Set\<close>: \<open>src/component/cidr\<close>, sets of address ranges over the package netipx (locale
    \<open>ip_ranges\<close>), membership and the file format.
  \<^item> \<open>Int_Ranges\<close>: \<open>src/common/utils/range.go\<close> and \<open>ranges.go\<close> at unsigned types.

  \<^bold>\<open>Fake addresses.\<close> \<open>Fakeip_Pool\<close> models \<open>pool.go\<close> and \<open>skipper.go\<close> of \<open>src/component/fakeip\<close> over the
  interface of a store; \<open>Fakeip_Memory\<close> (\<open>memory.go\<close>, two caches of \<open>Lru_Cache\<close>) and \<open>Fakeip_Cachefile\<close>
  (\<open>cachefile.go\<close> and the bucket access of \<open>src/component/profile/cachefile\<close>) provide it.
  \<open>Fakeip_WriteBehind\<close> proves the write-behind store right under every interleaving of calls with the
  phases of its flushes. \<open>Fakeip_Properties\<close> has the round trip between hosts and addresses, durability
  and restart.

  \<^bold>\<open>Sniffing.\<close> The tunnel looks at the first bytes of a connection for the host. \<open>Sniffer_Base\<close> has the results
  of sniffers and the locales \<open>cautious\<close> and \<open>incremental\<close>, which say how a sniffer may answer while bytes
  arrive. \<open>Sniffer_Tls\<close> and \<open>Sniffer_Http\<close> model \<open>tls_sniffer.go\<close> and \<open>http_sniffer.go\<close> of
  \<open>src/component/sniffer\<close>; \<open>Sniffer_Tls_Wire\<close> has the bytes of a ClientHello, and \<open>Sniffer_Properties\<close> shows
  that its server name is found.

  \<^bold>\<open>Rules.\<close>
  \<^item> \<open>Constants\<close>: the enumerations and the metadata of \<open>src/constant\<close>.
  \<^item> \<open>Rules_Common\<close>: \<open>src/rules/common\<close>, one record per rule with its constructor and \<open>Match\<close>. The callbacks
    that a match may call transform the metadata and a state of their own.
  \<^item> \<open>Rules_Logic\<close>: the datatype \<open>Rule\<close> of all rules, \<open>src/rules/logic\<close> and \<open>src/rules/provider/rule_set.go\<close>.
    \<open>Match_one\<close> matches one tree of rules; the calls that leave the tree, to a named list of sub-rules
    or to a classical rule provider, are arguments, and \<open>matchSubRules\<close> and \<open>Classical_Match\<close> tie the knot
    with fuel. The fuel bounds the length of a chain of such calls and nothing else; the theorem
    \<open>configured_match_returns\<close> shows that one more than the number of sub-rules is enough for every
    accepted configuration, and that more fuel gives the same result.
  \<^item> \<open>Rule_Parser\<close>: \<open>src/rules/parser.go\<close>. The recursion through logic rules ends because the payload
    of a nested rule is shorter; this is the termination proof of \<open>ParseRule\<close>.
  \<^item> \<open>Rules_Properties\<close>: what a suffix of an address matches, that accepted rules are well formed, how a
    logic payload is cut.
  \<^item> \<open>Rule_Config\<close>, \<open>Rule_Config_Properties\<close>: the lists of rules of a configuration, the sub-rules and the
    check for circular references (\<open>src/config/config.go\<close>), classical providers
    (\<open>src/rules/provider\<close>) and the counters (\<open>src/rules/wrapper\<close>).
  \<^item> \<open>Rule_Provider\<close>, \<open>Rule_Provider_Properties\<close>: the strategies of rule providers and their text, YAML and
    MRS files (\<open>src/rules/provider\<close>). Lines of a text file decide the same after a conversion to MRS.
  \<^item> \<open>Tunnel_Match\<close>, \<open>Tunnel_Properties\<close>: the choice of the proxy in \<open>src/tunnel/tunnel.go\<close> with the
    callbacks that resolve the address and look up the process. It returns for every connection of an
    accepted configuration, and what it returns can carry the connection.

  \<^bold>\<open>Not modelled.\<close> Sockets, listeners, outbound protocols and the transports under them, DNS clients, the
  control interface and the reading of YAML are I/O or cryptography around libraries. Of the sniffers the
  one for QUIC and the dispatcher that reads from the connection are left out. Outbound
  groups appear as proxies with an \<open>Unwrap\<close> function. The geo databases and regular expressions are
  functions in the record \<open>rule_env\<close>. Address zones and text outside ASCII are left out. Goroutines are
  modelled where the code separates steps that can interleave (\<open>Queue.Pop\<close>, the flushes of the
  write-behind store); elsewhere a locked method is one step. Vendored libraries are not modelled.
\<close>

end
